(* ===== verification/Oio_Prelude.thy ===== *)
theory Oio_Prelude
  imports Main "HOL-Library.Word"
begin

text \<open>
  Shared vocabulary of the development: the error codes of \<^verbatim>\<open>core/internals.h\<close>, the
  clock helper \<^verbatim>\<open>OLDEST\<close>, the collections of simplification rules the component
  theories fill, and generic facts on options, lists and words.
\<close>

section \<open>Types and constants\<close>

text \<open>
  A \<^verbatim>\<open>GError*\<close> is its code, with \<open>None\<close> for NULL: the code is the only part of an
  error the control flow reads.  Times (\<^verbatim>\<open>gint64\<close> micro-seconds of the monotonic clock)
  are unbounded integers: the clock does not wrap during the life of a process.
\<close>

type_synonym code = int
type_synonym gerror = "code option"
type_synonym time = int
type_synonym guint8 = "8 word"
type_synonym guint16 = "16 word"
type_synonym guint32 = "32 word"

abbreviation CODE_FINAL_OK :: code where "CODE_FINAL_OK \<equiv> 200"
abbreviation CODE_BEACON_REDIRECT :: code where "CODE_BEACON_REDIRECT \<equiv> 300"
abbreviation CODE_BAD_REQUEST :: code where "CODE_BAD_REQUEST \<equiv> 400"
abbreviation CODE_USER_NOTFOUND :: code where "CODE_USER_NOTFOUND \<equiv> 406"
abbreviation CODE_CONTAINER_MIGRATED :: code where "CODE_CONTAINER_MIGRATED \<equiv> 430"
abbreviation CODE_CONTAINER_NOTFOUND :: code where "CODE_CONTAINER_NOTFOUND \<equiv> 431"
abbreviation CODE_RANGE_NOTFOUND :: code where "CODE_RANGE_NOTFOUND \<equiv> 450"
abbreviation CODE_PIPETO :: code where "CODE_PIPETO \<equiv> 470"
abbreviation CODE_PIPEFROM :: code where "CODE_PIPEFROM \<equiv> 471"
abbreviation CODE_CONCURRENT :: code where "CODE_CONCURRENT \<equiv> 472"
abbreviation CODE_IS_MASTER :: code where "CODE_IS_MASTER \<equiv> 473"
abbreviation CODE_POLICY_NOT_SATISFIABLE :: code where "CODE_POLICY_NOT_SATISFIABLE \<equiv> 481"
abbreviation CODE_INTERNAL_ERROR :: code where "CODE_INTERNAL_ERROR \<equiv> 500"
abbreviation CODE_UNAVAILABLE :: code where "CODE_UNAVAILABLE \<equiv> 503"
abbreviation CODE_GATEWAY_TIMEOUT :: code where "CODE_GATEWAY_TIMEOUT \<equiv> 504"
abbreviation CODE_EXCESSIVE_LOAD :: code where "CODE_EXCESSIVE_LOAD \<equiv> 509"

text \<open>\<^verbatim>\<open>CODE_IS_OK\<close> and \<^verbatim>\<open>OLDEST\<close> (\<^verbatim>\<open>core/internals.h\<close>).\<close>

definition CODE_IS_OK :: "code \<Rightarrow> bool" where
  "CODE_IS_OK c \<longleftrightarrow> c \<ge> CODE_FINAL_OK \<and> c < CODE_BEACON_REDIRECT"

definition OLDEST :: "time \<Rightarrow> time \<Rightarrow> time" where
  "OLDEST now delay = (if now > delay then now - delay else 0)"

section \<open>Generic lemmas\<close>

named_theorems election_defs \<open>definitions of the election actions\<close>
named_theorems cache_defs \<open>definitions of the cache operations\<close>

lemma word8_pred_nonzero: "(0::guint8) < w \<Longrightarrow> unat (w - 1) = unat w - 1"
  by (simp add: unat_minus_one word_greater_zero_iff)

lemma word8_gt_0_iff: "(0::guint8) < w \<longleftrightarrow> 0 < unat w"
  by (simp add: word_less_nat_alt)

lemma OLDEST_le: "0 \<le> now \<Longrightarrow> 0 \<le> delay \<Longrightarrow> OLDEST now delay \<le> now"
  by (simp add: OLDEST_def)

end
