(* ===== verification/Linked.thy ===== *)
theory Linked
  imports Oio_Prelude
begin

text \<open>
  Intrusive doubly-linked lists.  Three components chain their nodes with \<open>prev\<close> and
  \<open>next\<close> fields and a pair of end pointers: the queues of elections by step
  (\<^verbatim>\<open>sqliterepo/election.c\<close>), the lists of bases by status (\<^verbatim>\<open>sqliterepo/cache.c\<close>) and the
  LRU queue (\<^verbatim>\<open>core/lrutree.c\<close>).  This theory has the pointer-level operations they share,
  the abstraction to HOL lists, and the locale that states what a client may rely on.

  The \<open>prev\<close>/\<open>next\<close> fields of the nodes are two maps from a node to its neighbour, a NULL
  pointer (or the index -1) being \<open>None\<close>.
\<close>

section \<open>Pointer-level operations\<close>

record 'k links =
  lprev :: "'k \<Rightarrow> 'k option"
  lnext :: "'k \<Rightarrow> 'k option"

record 'k beacon =
  bfront :: "'k option"
  bback :: "'k option"

definition set_next :: "'k option \<Rightarrow> 'k option \<Rightarrow> 'k links \<Rightarrow> 'k links" where
  "set_next p v l = (case p of None \<Rightarrow> l | Some x \<Rightarrow> l\<lparr>lnext := (lnext l)(x := v)\<rparr>)"

definition set_prev :: "'k option \<Rightarrow> 'k option \<Rightarrow> 'k links \<Rightarrow> 'k links" where
  "set_prev p v l = (case p of None \<Rightarrow> l | Some x \<Rightarrow> l\<lparr>lprev := (lprev l)(x := v)\<rparr>)"

definition unlink_beacon :: "'k \<Rightarrow> 'k links \<Rightarrow> ('k, 'z) beacon_scheme \<Rightarrow> ('k, 'z) beacon_scheme" where
  "unlink_beacon x l b =
     b\<lparr>bfront := (if bfront b = Some x then lnext l x else bfront b),
       bback := (if bback b = Some x then lprev l x else bback b)\<rparr>"

definition unlink_links :: "'k \<Rightarrow> 'k links \<Rightarrow> 'k links" where
  "unlink_links x l =
     set_prev (Some x) None (set_next (Some x) None
       (set_prev (lnext l x) (lprev l x) (set_next (lprev l x) (lnext l x) l)))"

definition push_back_links :: "'k \<Rightarrow> ('k, 'z) beacon_scheme \<Rightarrow> 'k links \<Rightarrow> 'k links" where
  "push_back_links x b l =
     (case bback b of None \<Rightarrow> l
      | Some y \<Rightarrow> set_next (Some y) (Some x) (set_prev (Some x) (Some y) l))"

definition push_back_beacon :: "'k \<Rightarrow> ('k, 'z) beacon_scheme \<Rightarrow> ('k, 'z) beacon_scheme" where
  "push_back_beacon x b =
     b\<lparr>bback := Some x, bfront := (case bfront b of None \<Rightarrow> Some x | Some y \<Rightarrow> Some y)\<rparr>"

definition push_front_links :: "'k \<Rightarrow> ('k, 'z) beacon_scheme \<Rightarrow> 'k links \<Rightarrow> 'k links" where
  "push_front_links x b l =
     set_prev (bfront b) (Some x)
       (set_next (Some x) (bfront b) (set_prev (Some x) None l))"

definition push_front_beacon :: "'k \<Rightarrow> ('k, 'z) beacon_scheme \<Rightarrow> ('k, 'z) beacon_scheme" where
  "push_front_beacon x b =
     b\<lparr>bfront := Some x, bback := (case bback b of None \<Rightarrow> Some x | Some y \<Rightarrow> Some y)\<rparr>"

section \<open>Abstraction to lists\<close>

definition hd_opt :: "'a list \<Rightarrow> 'a option" where
  "hd_opt xs = (case xs of [] \<Rightarrow> None | x # _ \<Rightarrow> Some x)"

definition last_opt :: "'a list \<Rightarrow> 'a option" where
  "last_opt xs = (if xs = [] then None else Some (last xs))"

fun seg :: "'k links \<Rightarrow> 'k option \<Rightarrow> 'k list \<Rightarrow> 'k option \<Rightarrow> bool" where
  "seg l p [] q = True"
| "seg l p (x # xs) q =
     (lprev l x = p \<and> lnext l x = (case xs of [] \<Rightarrow> q | y # _ \<Rightarrow> Some y) \<and> seg l (Some x) xs q)"

definition is_deque :: "'k links \<Rightarrow> ('k, 'z) beacon_scheme \<Rightarrow> 'k list \<Rightarrow> bool" where
  "is_deque l b xs \<longleftrightarrow>
     distinct xs \<and> bfront b = hd_opt xs \<and> bback b = last_opt xs \<and> seg l None xs None"

lemma hd_opt_simps [simp]: "hd_opt [] = None" "hd_opt (x # xs) = Some x"
  by (simp_all add: hd_opt_def)

lemma last_opt_simps [simp]:
  "last_opt [] = None" "last_opt [x] = Some x" "last_opt (xs @ [x]) = Some x"
  "last_opt (x # y # xs) = last_opt (y # xs)"
  by (simp_all add: last_opt_def)

lemma hd_opt_None [simp]: "hd_opt xs = None \<longleftrightarrow> xs = []"
  by (cases xs) simp_all

lemma last_opt_None [simp]: "last_opt xs = None \<longleftrightarrow> xs = []"
  by (simp add: last_opt_def)

lemma hd_opt_SomeD: "hd_opt xs = Some x \<Longrightarrow> x \<in> set xs"
  by (cases xs) auto

lemma last_opt_SomeD: "last_opt xs = Some x \<Longrightarrow> x \<in> set xs"
  by (auto simp: last_opt_def split: if_splits)

lemma hd_opt_append: "hd_opt (xs @ ys) = (if xs = [] then hd_opt ys else hd_opt xs)"
  by (cases xs) auto

lemma last_opt_append: "last_opt (xs @ ys) = (if ys = [] then last_opt xs else last_opt ys)"
  by (simp add: last_opt_def)

lemma last_opt_Cons: "last_opt (x # xs) = (if xs = [] then Some x else last_opt xs)"
  by (simp add: last_opt_def)

lemma case_list_hd_opt: "(case xs of [] \<Rightarrow> q | y # _ \<Rightarrow> Some y) = (if xs = [] then q else hd_opt xs)"
  by (cases xs) auto

lemma seg_append:
  "seg l p (xs @ ys) q \<longleftrightarrow>
     seg l p xs (if ys = [] then q else hd_opt ys) \<and>
     seg l (if xs = [] then p else last_opt xs) ys q"
proof (induction xs arbitrary: p)
  case Nil
  then show ?case by simp
next
  case (Cons x xs)
  then show ?case
    by (cases xs; cases ys) (auto simp: last_opt_Cons)
qed

text \<open>Updating the fields of a node outside a segment leaves the segment alone.\<close>

lemma seg_cong:
  assumes "\<And>x. x \<in> set xs \<Longrightarrow> lprev l x = lprev l' x \<and> lnext l x = lnext l' x"
  shows "seg l p xs q = seg l' p xs q"
  using assms
proof (induction xs arbitrary: p)
  case (Cons x xs)
  then have "seg l (Some x) xs q = seg l' (Some x) xs q" by simp
  with Cons.prems [of x] show ?case by simp
qed simp

section \<open>Correctness of the pointer-level operations\<close>

lemmas link_defs = set_next_def set_prev_def unlink_links_def unlink_beacon_def
  push_back_links_def push_back_beacon_def push_front_links_def push_front_beacon_def

lemma is_deque_distinct: "is_deque l b xs \<Longrightarrow> distinct xs"
  by (simp add: is_deque_def)

lemma is_deque_front: "is_deque l b xs \<Longrightarrow> bfront b = hd_opt xs"
  by (simp add: is_deque_def)

lemma is_deque_back: "is_deque l b xs \<Longrightarrow> bback b = last_opt xs"
  by (simp add: is_deque_def)

lemma is_deque_mid:
  assumes "is_deque l b (ys @ x # zs)"
  shows "lprev l x = last_opt ys" "lnext l x = hd_opt zs"
  using assms by (auto simp: is_deque_def seg_append case_list_hd_opt split: if_splits)

lemma is_deque_frame:
  assumes "is_deque l b xs"
    and "\<And>x. x \<in> set xs \<Longrightarrow> lprev l x = lprev l' x \<and> lnext l x = lnext l' x"
  shows "is_deque l' b xs"
  using assms seg_cong [of xs l l'] by (simp add: is_deque_def)

text \<open>The fields written by \<^const>\<open>unlink_links\<close>, read back.\<close>

lemma lprev_unlink:
  "lprev (unlink_links x l) y =
     (if y = x then None else if lnext l x = Some y then lprev l x else lprev l y)"
  by (simp add: link_defs split: option.splits)

lemma lnext_unlink:
  "lnext (unlink_links x l) y =
     (if y = x then None else if lprev l x = Some y then lnext l x else lnext l y)"
  by (simp add: link_defs split: option.splits)

lemma seg_new_first:
  assumes "seg l p zs q" "distinct zs"
    and "\<And>y. y \<in> set zs \<Longrightarrow> lprev l' y = (if hd_opt zs = Some y then p' else lprev l y)"
    and "\<And>y. y \<in> set zs \<Longrightarrow> lnext l' y = lnext l y"
  shows "seg l' p' zs q"
proof (cases zs)
  case (Cons z rest)
  have "seg l' (Some z) rest q = seg l (Some z) rest q"
    by (rule seg_cong) (use assms Cons in auto)
  with assms Cons show ?thesis by auto
qed simp

lemma seg_new_last:
  assumes "seg l p (ys @ [y]) q" "distinct (ys @ [y])"
    and "\<And>z. z \<in> set (ys @ [y]) \<Longrightarrow> lprev l' z = lprev l z"
    and "\<And>z. z \<in> set (ys @ [y]) \<Longrightarrow> lnext l' z = (if z = y then q' else lnext l z)"
  shows "seg l' p (ys @ [y]) q'"
proof -
  have "seg l' p ys (Some y) = seg l p ys (Some y)"
    by (rule seg_cong) (use assms(2-) in auto)
  with assms show ?thesis by (auto simp: seg_append)
qed

theorem is_deque_unlink:
  assumes "is_deque l b (ys @ x # zs)"
  shows "is_deque (unlink_links x l) (unlink_beacon x l b) (ys @ zs)"
proof -
  let ?l = "unlink_links x l"
  note mid = is_deque_mid [OF assms]
  from assms have dist: "distinct (ys @ x # zs)"
    and sy: "seg l None ys (Some x)" and sz: "seg l (Some x) zs None"
    by (auto simp: is_deque_def seg_append split: if_splits)
  have z: "seg ?l (last_opt ys) zs None"
    by (rule seg_new_first [OF sz])
      (use dist mid in \<open>auto simp: lprev_unlink lnext_unlink dest: last_opt_SomeD\<close>)
  have y: "seg ?l None ys (hd_opt zs)"
  proof (cases ys rule: rev_cases)
    case (snoc us u)
    show ?thesis unfolding snoc
      by (rule seg_new_last [of l _ _ _ "Some x"])
        (use dist mid sy snoc in \<open>auto simp: lprev_unlink lnext_unlink dest: hd_opt_SomeD\<close>)
  qed simp
  have "bfront (unlink_beacon x l b) = hd_opt (ys @ zs)"
    using is_deque_front [OF assms] dist mid
    by (cases ys) (auto simp: unlink_beacon_def)
  moreover have "bback (unlink_beacon x l b) = last_opt (ys @ zs)"
    using is_deque_back [OF assms] dist mid
    by (cases zs rule: rev_cases) (auto simp: unlink_beacon_def last_opt_append last_opt_Cons)
  ultimately show ?thesis
    using dist y z by (auto simp: is_deque_def seg_append)
qed

lemma unlink_frame:
  assumes "is_deque l b (ys @ x # zs)" and "is_deque l c us" "set us \<inter> set (ys @ x # zs) = {}"
  shows "is_deque (unlink_links x l) c us"
proof (rule is_deque_frame [OF assms(2)])
  fix u assume "u \<in> set us"
  with assms(3) have "u \<noteq> x" "u \<notin> set ys" "u \<notin> set zs" by auto
  then have "u \<noteq> x" "last_opt ys \<noteq> Some u" "hd_opt zs \<noteq> Some u"
    by (auto dest: last_opt_SomeD hd_opt_SomeD)
  then show "lprev l u = lprev (unlink_links x l) u \<and> lnext l u = lnext (unlink_links x l) u"
    by (simp add: lprev_unlink lnext_unlink is_deque_mid [OF assms(1)])
qed

text \<open>
  A node is clean when both its fields are NULL, which is what the insertion at the back
  asserts and what \<^const>\<open>unlink_links\<close> leaves behind.
\<close>

definition clean_node :: "'k links \<Rightarrow> 'k \<Rightarrow> bool" where
  "clean_node l x \<longleftrightarrow> lprev l x = None \<and> lnext l x = None"

lemma clean_unlink [simp]: "clean_node (unlink_links x l) x"
  by (simp add: clean_node_def lprev_unlink lnext_unlink)

theorem is_deque_push_back:
  assumes "is_deque l b xs" "x \<notin> set xs" "clean_node l x"
  shows "is_deque (push_back_links x b l) (push_back_beacon x b) (xs @ [x])"
proof (cases xs rule: rev_cases)
  case Nil
  with assms show ?thesis
    by (simp add: is_deque_def push_back_links_def push_back_beacon_def clean_node_def)
next
  case (snoc us u)
  let ?l = "push_back_links x b l"
  from assms snoc have b: "bback b = Some u" and dist: "distinct (us @ [u])"
    and s: "seg l None (us @ [u]) None"
    by (auto simp: is_deque_def)
  have "seg ?l None (us @ [u]) (Some x)"
    by (rule seg_new_last [OF s dist])
      (use assms snoc b in \<open>auto simp: push_back_links_def set_next_def set_prev_def\<close>)
  moreover have "lprev ?l x = Some u" "lnext ?l x = None"
    using assms snoc b by (auto simp: push_back_links_def set_next_def set_prev_def clean_node_def)
  ultimately show ?thesis
    using assms snoc by (auto simp: is_deque_def push_back_beacon_def seg_append hd_opt_append
        last_opt_append split: option.splits)
qed

lemma push_back_frame:
  assumes "is_deque l c us" "x \<notin> set us" "bback b \<notin> Some ` set us"
  shows "is_deque (push_back_links x b l) c us"
  by (rule is_deque_frame [OF assms(1)])
    (use assms(2,3) in \<open>auto simp: push_back_links_def set_next_def set_prev_def split: option.splits\<close>)

theorem is_deque_push_front:
  assumes "is_deque l b xs" "x \<notin> set xs"
  shows "is_deque (push_front_links x b l) (push_front_beacon x b) (x # xs)"
proof -
  let ?l = "push_front_links x b l"
  from assms have b: "bfront b = hd_opt xs" and s: "seg l None xs None" and dist: "distinct xs"
    by (auto simp: is_deque_def)
  have "seg ?l (Some x) xs None"
    by (rule seg_new_first [OF s dist])
      (use b assms(2) in \<open>auto simp: push_front_links_def set_next_def set_prev_def split: option.splits\<close>)
  moreover have "lprev ?l x = None" "lnext ?l x = hd_opt xs"
    using b assms(2)
    by (auto simp: push_front_links_def set_next_def set_prev_def split: option.splits
        dest: hd_opt_SomeD)
  ultimately have "seg ?l None (x # xs) None"
    by (simp add: case_list_hd_opt)
  moreover have "bback (push_front_beacon x b) = last_opt (x # xs)"
    using assms by (auto simp: is_deque_def push_front_beacon_def last_opt_Cons split: option.splits)
  ultimately show ?thesis
    using assms by (simp add: is_deque_def push_front_beacon_def)
qed

lemma push_front_frame:
  assumes "is_deque l c us" "x \<notin> set us" "bfront b \<notin> Some ` set us"
  shows "is_deque (push_front_links x b l) c us"
  by (rule is_deque_frame [OF assms(1)])
    (use assms(2,3) in \<open>auto simp: push_front_links_def set_next_def set_prev_def split: option.splits\<close>)

section \<open>Families of lists over the same nodes\<close>

text \<open>
  The elections of a manager, and the bases of a cache, are spread over one list per step (or
  per status): the lists share the fields of the nodes, so no node may be in two of them.
  \<open>fam_rep l B f\<close> says that the beacons \<open>B\<close> over the fields \<open>l\<close> hold the lists \<open>f\<close>, and
  that the nodes of no list are clean.
\<close>

definition fam_rep :: "'k links \<Rightarrow> ('q \<Rightarrow> ('k, 'z) beacon_scheme) \<Rightarrow> ('q \<Rightarrow> 'k list) \<Rightarrow> bool" where
  "fam_rep l B f \<longleftrightarrow>
     (\<forall>q. is_deque l (B q) (f q)) \<and>
     (\<forall>q r. q \<noteq> r \<longrightarrow> set (f q) \<inter> set (f r) = {}) \<and>
     (\<forall>k. (\<forall>q. k \<notin> set (f q)) \<longrightarrow> clean_node l k)"

definition dq_move ::
  "('k \<Rightarrow> 'k list \<Rightarrow> 'k list) \<Rightarrow> 'q \<Rightarrow> 'q \<Rightarrow> 'k \<Rightarrow> ('q \<Rightarrow> 'k list) \<Rightarrow> 'q \<Rightarrow> 'k list" where
  "dq_move place q r k f =
     (let g = f(q := remove1 k (f q)) in g(r := place k (g r)))"

lemma fam_repI:
  assumes "\<And>q. is_deque l (B q) (f q)"
    and "\<And>q r. q \<noteq> r \<Longrightarrow> set (f q) \<inter> set (f r) = {}"
    and "\<And>k. (\<And>q. k \<notin> set (f q)) \<Longrightarrow> clean_node l k"
  shows "fam_rep l B f"
  using assms by (simp add: fam_rep_def)

lemma fam_deque: "fam_rep l B f \<Longrightarrow> is_deque l (B q) (f q)"
  by (simp add: fam_rep_def)

lemma fam_disjoint: "fam_rep l B f \<Longrightarrow> q \<noteq> r \<Longrightarrow> set (f q) \<inter> set (f r) = {}"
  by (simp add: fam_rep_def)

lemma fam_clean: "fam_rep l B f \<Longrightarrow> (\<And>q. k \<notin> set (f q)) \<Longrightarrow> clean_node l k"
  by (simp add: fam_rep_def)

lemma fam_distinct: "fam_rep l B f \<Longrightarrow> distinct (f q)"
  by (rule is_deque_distinct [OF fam_deque])

lemma clean_unlink_other:
  assumes "is_deque l b (ys @ x # zs)" "y \<notin> set (ys @ x # zs)" "clean_node l y"
  shows "clean_node (unlink_links x l) y"
  using assms is_deque_mid [OF assms(1)]
  by (auto simp: clean_node_def lprev_unlink lnext_unlink dest: hd_opt_SomeD last_opt_SomeD)

theorem fam_unlink:
  assumes fam: "fam_rep l B f" and k: "k \<in> set (f q)"
  shows "fam_rep (unlink_links k l) (B(q := unlink_beacon k l (B q))) (f(q := remove1 k (f q)))"
proof -
  from k obtain ys zs where f: "f q = ys @ k # zs" and y: "k \<notin> set ys"
    by (meson split_list_first)
  then have rem: "remove1 k (f q) = ys @ zs" by (simp add: remove1_append)
  from fam f have dq: "is_deque l (B q) (ys @ k # zs)" using fam_deque by metis
  show ?thesis
  proof (rule fam_repI)
    fix r
    show "is_deque (unlink_links k l) ((B(q := unlink_beacon k l (B q))) r)
        ((f(q := remove1 k (f q))) r)"
    proof (cases "r = q")
      case True
      with is_deque_unlink [OF dq] rem show ?thesis by simp
    next
      case False
      with fam f have "set (f r) \<inter> set (ys @ k # zs) = {}" using fam_disjoint by metis
      with unlink_frame [OF dq fam_deque [OF fam]] False show ?thesis by simp
    qed
  next
    fix r s :: 'b assume "r \<noteq> s"
    then show "set ((f(q := remove1 k (f q))) r) \<inter> set ((f(q := remove1 k (f q))) s) = {}"
      using fam_disjoint [OF fam] by (simp add: rem) (use f in fastforce)
  next
    fix x assume "\<And>r. x \<notin> set ((f(q := remove1 k (f q))) r)"
    then have x: "x \<notin> set (ys @ zs)" "\<And>r. r \<noteq> q \<Longrightarrow> x \<notin> set (f r)"
      using rem by (metis fun_upd_same, metis fun_upd_other)
    show "clean_node (unlink_links k l) x"
    proof (cases "x = k")
      case False
      with x f have "\<And>r. x \<notin> set (f r)" by (metis Un_iff set_ConsD set_append)
      with fam f show ?thesis
        by (metis clean_unlink_other [OF dq] fam_clean)
    qed simp
  qed
qed

lemma fam_end_not_elsewhere:
  assumes "fam_rep l B f" "r \<noteq> q"
  shows "bback (B q) \<notin> Some ` set (f r)" "bfront (B q) \<notin> Some ` set (f r)"
  using assms fam_disjoint [OF assms(1), of q r] fam_deque [OF assms(1), of q]
  by (auto simp: is_deque_def dest: last_opt_SomeD hd_opt_SomeD)

theorem fam_push_back:
  assumes fam: "fam_rep l B f" and k: "\<And>r. k \<notin> set (f r)"
  shows "fam_rep (push_back_links k (B q) l) (B(q := push_back_beacon k (B q))) (f(q := f q @ [k]))"
proof (rule fam_repI)
  fix r
  show "is_deque (push_back_links k (B q) l) ((B(q := push_back_beacon k (B q))) r)
      ((f(q := f q @ [k])) r)"
    using is_deque_push_back [OF fam_deque [OF fam] k fam_clean [OF fam k]]
      push_back_frame [OF fam_deque [OF fam] k fam_end_not_elsewhere(1) [OF fam]]
    by simp
next
  fix r s :: 'b assume "r \<noteq> s"
  with fam_disjoint [OF fam] k show "set ((f(q := f q @ [k])) r) \<inter> set ((f(q := f q @ [k])) s) = {}"
    by simp blast
next
  fix x assume x: "\<And>r. x \<notin> set ((f(q := f q @ [k])) r)"
  have "x \<noteq> k" using x [of q] by simp
  moreover have "\<And>r. x \<notin> set (f r)" using x by (metis UnI1 fun_upd_apply set_append)
  moreover from this have "bback (B q) \<noteq> Some x"
    using fam_deque [OF fam, of q] by (auto simp: is_deque_def dest: last_opt_SomeD)
  ultimately show "clean_node (push_back_links k (B q) l) x"
    using fam_clean [OF fam, of x]
    by (auto simp: clean_node_def push_back_links_def set_next_def set_prev_def split: option.splits)
qed

theorem fam_push_front:
  assumes fam: "fam_rep l B f" and k: "\<And>r. k \<notin> set (f r)"
  shows "fam_rep (push_front_links k (B q) l) (B(q := push_front_beacon k (B q))) (f(q := k # f q))"
proof (rule fam_repI)
  fix r
  show "is_deque (push_front_links k (B q) l) ((B(q := push_front_beacon k (B q))) r)
      ((f(q := k # f q)) r)"
    using is_deque_push_front [OF fam_deque [OF fam] k]
      push_front_frame [OF fam_deque [OF fam] k fam_end_not_elsewhere(2) [OF fam]]
    by simp
next
  fix r s :: 'b assume "r \<noteq> s"
  with fam_disjoint [OF fam] k show "set ((f(q := k # f q)) r) \<inter> set ((f(q := k # f q)) s) = {}"
    by simp blast
next
  fix x assume x: "\<And>r. x \<notin> set ((f(q := k # f q)) r)"
  have "x \<noteq> k" using x [of q] by simp
  moreover have "\<And>r. x \<notin> set (f r)" using x by (metis fun_upd_apply list.set_intros(2))
  moreover from this have "bfront (B q) \<noteq> Some x"
    using fam_deque [OF fam, of q] by (auto simp: is_deque_def dest: hd_opt_SomeD)
  ultimately show "clean_node (push_front_links k (B q) l) x"
    using fam_clean [OF fam, of x]
    by (auto simp: clean_node_def push_front_links_def set_next_def set_prev_def split: option.splits)
qed

section \<open>The interface a client relies on\<close>

text \<open>
  What the owner of a family of lists promises: removing a node from its list and inserting a
  node that is in no list act on the abstract lists as \<^const>\<open>remove1\<close> and as \<open>place\<close>.  The
  predicate \<open>node\<close> tells the nodes the owner has.  The
  client lemmas say what a move between two lists does to the whole family.
\<close>

lemma removeAll_remove1: "removeAll k (remove1 k xs) = removeAll k xs"
  by (induction xs) auto

locale deque_family =
  fixes rep :: "'s \<Rightarrow> ('q \<Rightarrow> 'k list) \<Rightarrow> bool"
    and node :: "'s \<Rightarrow> 'k \<Rightarrow> bool"
    and remove :: "'q \<Rightarrow> 'k \<Rightarrow> 's \<Rightarrow> 's"
    and add :: "'q \<Rightarrow> 'k \<Rightarrow> 's \<Rightarrow> 's"
    and place :: "'k \<Rightarrow> 'k list \<Rightarrow> 'k list"
  assumes rep_distinct: "rep s f \<Longrightarrow> distinct (f q)"
    and rep_disjoint: "rep s f \<Longrightarrow> q \<noteq> r \<Longrightarrow> set (f q) \<inter> set (f r) = {}"
    and rep_node: "rep s f \<Longrightarrow> k \<in> set (f q) \<Longrightarrow> node s k"
    and remove_node: "node s j \<Longrightarrow> node (remove q k s) j"
    and remove_rep: "rep s f \<Longrightarrow> k \<in> set (f q) \<Longrightarrow> rep (remove q k s) (f(q := remove1 k (f q)))"
    and add_rep: "rep s f \<Longrightarrow> node s k \<Longrightarrow> (\<And>r. k \<notin> set (f r)) \<Longrightarrow> rep (add q k s) (f(q := place k (f q)))"
    and set_place: "set (place k xs) = insert k (set xs)"
    and place_others: "removeAll k (place k xs) = removeAll k xs"
begin

lemma removed_nowhere:
  assumes "rep s f" "k \<in> set (f q)"
  shows "k \<notin> set ((f(q := remove1 k (f q))) r)"
  using rep_disjoint [OF assms(1), of q r] rep_distinct [OF assms(1), of q] assms(2)
  by (cases "r = q") auto

lemma move_rep:
  assumes "rep s f" "k \<in> set (f q)"
  shows "rep (add r k (remove q k s)) (dq_move place q r k f)"
  unfolding dq_move_def Let_def
  by (rule add_rep [OF remove_rep [OF assms] remove_node [OF rep_node [OF assms]]
        removed_nowhere [OF assms]])

lemma move_members:
  assumes "rep s f" "k \<in> set (f q)"
  shows "set (dq_move place q r k f t) =
     (if t = r then insert k (set (f t)) else if t = q then set (f t) - {k} else set (f t))"
  using rep_distinct [OF assms(1)] by (auto simp: dq_move_def Let_def set_place)

lemma move_others: "removeAll k (dq_move place q r k f t) = removeAll k (f t)"
  by (simp add: dq_move_def Let_def place_others removeAll_remove1)

end

end
