(* ===== verification/Version.thy ===== *)
theory Version
  imports Oio_Prelude
begin

text \<open>
  Versions of a database (\<^verbatim>\<open>sqliterepo/version.c\<close>).  A version is a \<^verbatim>\<open>GTree\<close> from table names
  to a pair of counters; two replicas compare their versions to tell which one missed changes.

  A \<^verbatim>\<open>GTree\<close> is an association list in the order of \<^verbatim>\<open>g_tree_foreach\<close>, its keys being
  distinct (\<open>gtree_ok\<close>).  A pointer to a value of the tree that is written through is the
  replacement of that value.
\<close>

section \<open>Definitions\<close>

record object_version =
  ov_version :: int
  ov_when :: int

type_synonym gtree = "(string \<times> object_version) list"

definition gtree_ok :: "gtree \<Rightarrow> bool" where
  "gtree_ok t \<longleftrightarrow> distinct (map fst t)"

abbreviation g_tree_lookup :: "gtree \<Rightarrow> string \<Rightarrow> object_version option" where
  "g_tree_lookup t k \<equiv> map_of t k"

fun g_tree_replace :: "gtree \<Rightarrow> string \<Rightarrow> object_version \<Rightarrow> gtree" where
  "g_tree_replace [] k v = [(k, v)]"
| "g_tree_replace ((k', v') # t) k v =
     (if k' = k then (k, v) # t else (k', v') # g_tree_replace t k v)"

text \<open>\<^verbatim>\<open>version_get\<close>: the entry of a table, created at version 1 when asked to.\<close>

definition version_get :: "bool \<Rightarrow> gtree \<Rightarrow> string \<Rightarrow> object_version option \<times> gtree" where
  "version_get init t k =
     (case g_tree_lookup t k of
        Some ov \<Rightarrow> (Some ov, t)
      | None \<Rightarrow>
          if init
          then (let ov = \<lparr>ov_version = 1, ov_when = 0\<rparr> in (Some ov, g_tree_replace t k ov))
          else (None, t))"






text \<open>
  \<^verbatim>\<open>version_validate_diff\<close>.  The two nested callbacks are \<open>schema_missing\<close> (the body of
  \<^verbatim>\<open>runner_schema\<close>, accumulated over the tree) and \<open>diff_bounds\<close> (that of \<^verbatim>\<open>runner_diff\<close>,
  which keeps \<^verbatim>\<open>delta_min\<close> and \<^verbatim>\<open>delta_max\<close>); the result is the error and \<open>*worst\<close>.
\<close>

definition schema_missing :: "gtree \<Rightarrow> gtree \<Rightarrow> bool" where
  "schema_missing t u \<longleftrightarrow> (\<exists>kv \<in> set t. g_tree_lookup u (fst kv) = None)"

fun diff_bounds :: "gtree \<Rightarrow> gtree \<Rightarrow> int \<times> int \<Rightarrow> int \<times> int" where
  "diff_bounds [] u acc = acc"
| "diff_bounds ((k, v) # t) u (dmin, dmax) =
     diff_bounds t u
       (case g_tree_lookup u k of
          None \<Rightarrow> (dmin, dmax)
        | Some ov \<Rightarrow>
            let d = ov_version v - ov_version ov
            in if d < 0 then (min d dmin, dmax)
               else if d > 0 then (dmin, max d dmax)
               else (dmin, dmax))"

definition version_validate_diff :: "gtree \<Rightarrow> gtree \<Rightarrow> gerror \<times> int" where
  "version_validate_diff current expected =
     (let schema_change = schema_missing current expected \<or> schema_missing expected current;
          (delta_min, delta_max) = diff_bounds current expected (0, 0)
      in if delta_max \<noteq> 0 \<and> delta_min \<noteq> 0 then (Some CODE_CONCURRENT, 0)
         else if delta_min < 0 then
           (if schema_change \<or> delta_min < -1 then (Some CODE_PIPEFROM, delta_min)
            else (None, delta_min))
         else if delta_max > 0 then
           (if schema_change \<or> delta_max > 1 then (Some CODE_PIPETO, delta_max)
            else (None, delta_max))
         else (None, 0))"





section \<open>What the definitions compute\<close>

text \<open>The differences a comparison is about: over the tables both sides have.\<close>

definition deltas :: "gtree \<Rightarrow> gtree \<Rightarrow> int set" where
  "deltas a b = {ov_version x - ov_version y | k x y. (k, x) \<in> set a \<and> map_of b k = Some y}"

definition schema_change :: "gtree \<Rightarrow> gtree \<Rightarrow> bool" where
  "schema_change a b \<longleftrightarrow> schema_missing a b \<or> schema_missing b a"

definition ahead :: "gtree \<Rightarrow> gtree \<Rightarrow> bool" where
  "ahead a b \<longleftrightarrow> (\<exists>d \<in> deltas a b. d > 0)"

definition behind :: "gtree \<Rightarrow> gtree \<Rightarrow> bool" where
  "behind a b \<longleftrightarrow> (\<exists>d \<in> deltas a b. d < 0)"

lemma map_of_replace [simp]: "map_of (g_tree_replace t k v) = (map_of t)(k \<mapsto> v)"
  by (induction t k v rule: g_tree_replace.induct) auto

lemma keys_replace [simp]: "set (map fst (g_tree_replace t k v)) = insert k (set (map fst t))"
  by (induction t k v rule: g_tree_replace.induct) auto

lemma gtree_ok_replace [simp]: "gtree_ok t \<Longrightarrow> gtree_ok (g_tree_replace t k v)"
  unfolding gtree_ok_def
proof (induction t k v rule: g_tree_replace.induct)
  case (2 k' v' t k v)
  then show ?case using keys_replace [of t k v] by (auto simp del: keys_replace)
qed simp


lemma gtree_ok_version_get [simp]: "gtree_ok t \<Longrightarrow> gtree_ok (snd (version_get init t k))"
  by (auto simp: version_get_def Let_def split: option.splits)

lemma finite_deltas [simp]: "finite (deltas a b)"
proof -
  have "deltas a b \<subseteq> (\<lambda>(k, x). ov_version x - ov_version (the (map_of b k))) ` set a"
    by (force simp: deltas_def)
  then show ?thesis by (rule finite_subset) simp
qed

lemma deltas_Nil [simp]: "deltas [] b = {}"
  by (simp add: deltas_def)

lemma deltas_Cons [simp]:
  "deltas ((k, v) # a) b =
     (case map_of b k of
        None \<Rightarrow> deltas a b
      | Some y \<Rightarrow> insert (ov_version v - ov_version y) (deltas a b))"
  by (auto simp: deltas_def split: option.splits)


lemma diff_bounds_eq:
  "diff_bounds a b (m, x) =
     (Min (insert m (deltas a b \<inter> {..<0})), Max (insert x (deltas a b \<inter> {0<..})))"
proof (induction a arbitrary: m x)
  case (Cons kv a)
  obtain k v where kv: "kv = (k, v)" by (cases kv)
  have mi: "Min (insert (min e m) S) = Min (insert m (insert e S))"
    and ma: "Max (insert (max e x) S) = Max (insert x (insert e S))"
    if "finite S" for e :: int and S
    using that by (cases "S = {}"; simp add: min.assoc min.commute max.assoc max.commute)+
  show ?case
    by (simp add: kv Cons.IH mi ma Let_def Int_insert_left del: Min_insert Max_insert
        split: option.split)
qed simp

lemma diff_bounds_sign:
  assumes "diff_bounds a b (0, 0) = (m, x)"
  shows "m \<le> 0" "0 \<le> x" "m < 0 \<longleftrightarrow> behind a b" "x > 0 \<longleftrightarrow> ahead a b"
    and "m < -1 \<longleftrightarrow> (\<exists>d \<in> deltas a b. d < -1)" "x > 1 \<longleftrightarrow> (\<exists>d \<in> deltas a b. d > 1)"
proof -
  have m: "m = Min (insert 0 (deltas a b \<inter> {..<0}))"
    and x: "x = Max (insert 0 (deltas a b \<inter> {0<..}))"
    using assms by (simp_all add: diff_bounds_eq)
  show "m \<le> 0" unfolding m by (rule Min_le) simp_all
  show "0 \<le> x" unfolding x by (rule Max_ge) simp_all
  have less: "m < c \<longleftrightarrow> (\<exists>d \<in> deltas a b. d < c)" if "c \<le> 0" for c
    unfolding m using that by (auto simp: Min_less_iff simp del: Min_insert)
  have gr: "c < x \<longleftrightarrow> (\<exists>d \<in> deltas a b. c < d)" if "0 \<le> c" for c
    unfolding x using that by (auto simp: Max_gr_iff simp del: Max_insert)
  show "m < 0 \<longleftrightarrow> behind a b" "m < -1 \<longleftrightarrow> (\<exists>d \<in> deltas a b. d < -1)"
    by (simp_all add: less behind_def)
  show "x > 0 \<longleftrightarrow> ahead a b" "x > 1 \<longleftrightarrow> (\<exists>d \<in> deltas a b. d > 1)"
    by (simp_all add: gr ahead_def)
qed

section \<open>Comparing two versions\<close>

text \<open>
  The result of a comparison, in terms of the differences: both directions at once are a
  concurrent change, one direction is an error when the gap exceeds one version or when the
  sets of tables differ.
\<close>

lemma validate_diff_cases:
  "fst (version_validate_diff a b) =
     (if ahead a b \<and> behind a b then Some CODE_CONCURRENT
      else if behind a b \<and> (schema_change a b \<or> (\<exists>d \<in> deltas a b. d < -1)) then Some CODE_PIPEFROM
      else if ahead a b \<and> (schema_change a b \<or> (\<exists>d \<in> deltas a b. d > 1)) then Some CODE_PIPETO
      else None)"
proof -
  obtain m x where mx: "diff_bounds a b (0, 0) = (m, x)" by force
  note s = diff_bounds_sign [OF mx]
  show ?thesis
    using s(1,2) unfolding s(3-6) [symmetric]
    by (auto simp: version_validate_diff_def mx schema_change_def [symmetric] Let_def)
qed

lemma validate_diff_worst:
  "snd (version_validate_diff a b) < 0 \<longleftrightarrow> behind a b \<and> \<not> ahead a b"
  "snd (version_validate_diff a b) > 0 \<longleftrightarrow> ahead a b \<and> \<not> behind a b"
proof -
  obtain m x where mx: "diff_bounds a b (0, 0) = (m, x)" by force
  note s = diff_bounds_sign [OF mx]
  have "snd (version_validate_diff a b) = (if m < 0 \<and> 0 < x then 0 else if m < 0 then m else x)"
    using s(1,2) by (simp add: version_validate_diff_def mx Let_def)
  then show "snd (version_validate_diff a b) < 0 \<longleftrightarrow> behind a b \<and> \<not> ahead a b"
    "snd (version_validate_diff a b) > 0 \<longleftrightarrow> ahead a b \<and> \<not> behind a b"
    using s(1,2) s(3,4) by (simp_all split: if_split)
qed




















section \<open>The interface of the elections\<close>

text \<open>
  An election compares the local version with the one a peer answered and only looks at the
  error code and at the sign of the worst difference.  The locale states what it relies on; the
  lemma inside it is the decision the election takes, in terms of the tables that are ahead of
  the peer or behind it.
\<close>

locale version_comparison =
  fixes validate :: "'t \<Rightarrow> 't \<Rightarrow> gerror \<times> int"
    and is_ahead is_behind :: "'t \<Rightarrow> 't \<Rightarrow> bool"
  assumes concurrent: "is_ahead a b \<Longrightarrow> is_behind a b \<Longrightarrow> fst (validate a b) = Some CODE_CONCURRENT"
    and only_behind: "\<not> is_ahead a b \<Longrightarrow> is_behind a b \<Longrightarrow>
      fst (validate a b) = Some CODE_PIPEFROM \<or> fst (validate a b) = None \<and> snd (validate a b) < 0"
    and not_behind: "\<not> is_behind a b \<Longrightarrow>
      fst (validate a b) = Some CODE_PIPETO \<or> fst (validate a b) = None \<and> \<not> snd (validate a b) < 0"
begin

lemma verdict:
  "(case validate a b of
      (Some c, _) \<Rightarrow> if c = CODE_PIPETO then None else Some c
    | (None, worst) \<Rightarrow> if worst < 0 then Some CODE_PIPEFROM else None) =
   (if is_behind a b then Some (if is_ahead a b then CODE_CONCURRENT else CODE_PIPEFROM) else None)"
  using concurrent [of a b] only_behind [of a b] not_behind [of a b]
  by (cases "validate a b") (auto split: option.splits)

end

interpretation vcmp: version_comparison version_validate_diff ahead behind
proof
  fix a b
  note w = validate_diff_worst [of a b] and c = validate_diff_cases [of a b]
  show "ahead a b \<Longrightarrow> behind a b \<Longrightarrow> fst (version_validate_diff a b) = Some CODE_CONCURRENT"
    by (simp add: c)
  show "fst (version_validate_diff a b) = Some CODE_PIPEFROM \<or>
      fst (version_validate_diff a b) = None \<and> snd (version_validate_diff a b) < 0"
    if "\<not> ahead a b" "behind a b"
    using that w by (simp add: c)
  show "fst (version_validate_diff a b) = Some CODE_PIPETO \<or>
      fst (version_validate_diff a b) = None \<and> \<not> snd (version_validate_diff a b) < 0"
    if "\<not> behind a b"
    using that w by (simp add: c)
qed

section \<open>Properties\<close>







end
