(* ===== verification/Str.thy ===== *)
theory Str
  imports Oio_Prelude "HOL-Library.Multiset"
begin

text \<open>
  String utilities of \<^verbatim>\<open>core/str.c\<close> that the other components call: the case-insensitive
  search of a string in a vector of strings (\<^verbatim>\<open>oio_strv_has\<close>) and the in-place removal of a
  string from a vector (\<^verbatim>\<open>oio_strv_filter\<close>).  A NULL-terminated vector is the list of its
  strings.
\<close>

section \<open>Model\<close>

definition ascii_tolower :: "char \<Rightarrow> char" where
  "ascii_tolower c =
     (let n = of_char c :: nat in if 65 \<le> n \<and> n \<le> 90 then char_of (n + 32) else c)"

definition ascii_strcaseeq :: "string \<Rightarrow> string \<Rightarrow> bool" where
  "ascii_strcaseeq a b \<longleftrightarrow> map ascii_tolower a = map ascii_tolower b"

fun oio_strv_has :: "string list \<Rightarrow> string \<Rightarrow> bool" where
  "oio_strv_has [] needle = False"
| "oio_strv_has (p # ps) needle = (if ascii_strcaseeq needle p then True else oio_strv_has ps needle)"

text \<open>
  The loop of \<^verbatim>\<open>oio_strv_filter\<close> at the index \<open>cur\<close>, where \<open>array\<close> are the strings not
  replaced by NULL so far: its last index is the variable \<^verbatim>\<open>last\<close> of the code.
\<close>

function strv_filter_loop :: "string \<Rightarrow> nat \<Rightarrow> string list \<Rightarrow> string list" where
  "strv_filter_loop needle cur array =
     (if cur \<ge> length array then array
      else if array ! cur = needle
      then (if cur = length array - 1 then butlast array
            else strv_filter_loop needle cur (butlast (array[cur := last array])))
      else strv_filter_loop needle (cur + 1) array)"
  by pat_completeness auto
termination
  by (relation "measure (\<lambda>(needle, cur, array). length array - cur)") auto

declare strv_filter_loop.simps [simp del]

definition oio_strv_filter :: "string list \<Rightarrow> string \<Rightarrow> string list" where
  "oio_strv_filter array needle = strv_filter_loop needle 0 array"

section \<open>Lemmas\<close>

lemma oio_strv_has_iff: "oio_strv_has ps needle \<longleftrightarrow> (\<exists>p \<in> set ps. ascii_strcaseeq needle p)"
  by (induction ps) auto

lemma oio_strv_has_mem: "needle \<in> set ps \<Longrightarrow> oio_strv_has ps needle"
  by (auto simp: oio_strv_has_iff ascii_strcaseeq_def)

lemma mset_butlast_update:
  assumes "cur < length xs - 1"
  shows "add_mset (xs ! cur) (mset (butlast (xs[cur := last xs]))) = mset xs"
proof -
  have ne: "xs \<noteq> []" "cur < length xs" using assms by auto
  have l: "last (xs[cur := last xs]) = last xs"
    using assms ne by (simp add: last_conv_nth)
  have "mset (butlast (xs[cur := last xs])) = mset (xs[cur := last xs]) - {# last xs #}"
    using l ne
    by (metis (no_types, lifting) append_butlast_last_id add_diff_cancel_right' list_update_nonempty
        mset.simps(1) mset.simps(2) mset_append)
  also have "mset (xs[cur := last xs]) = add_mset (last xs) (mset xs - {# xs ! cur #})"
    using ne by (simp add: mset_update)
  finally show ?thesis using ne by simp
qed

lemma strv_filter_loop_mset:
  assumes "\<forall>i < cur. i < length array \<longrightarrow> array ! i \<noteq> needle"
  shows "mset (strv_filter_loop needle cur array) = filter_mset (\<lambda>p. p \<noteq> needle) (mset array)"
  using assms
proof (induction needle cur array rule: strv_filter_loop.induct)
  case (1 needle cur array)
  consider (stop) "cur \<ge> length array"
    | (last) "cur < length array" "array ! cur = needle" "cur = length array - 1"
    | (swap) "cur < length array - 1" "array ! cur = needle"
    | (other) "cur < length array" "array ! cur \<noteq> needle" by linarith
  then show ?case
  proof cases
    case stop
    then have "\<forall>p \<in> set array. p \<noteq> needle"
      using "1.prems" by (metis in_set_conv_nth less_le_trans)
    then have "filter_mset (\<lambda>p. p \<noteq> needle) (mset array) = mset array"
      by (auto simp: filter_mset_eq_conv)
    with stop show ?thesis by (subst strv_filter_loop.simps) simp
  next
    case last
    then have split: "array = butlast array @ [needle]"
      by (metis append_butlast_last_id last_conv_nth length_0_conv not_less0)
    have "\<forall>p \<in> set (butlast array). p \<noteq> needle"
      using "1.prems" last by (auto simp: in_set_conv_nth nth_butlast)
    then have "filter_mset (\<lambda>p. p \<noteq> needle) (mset (butlast array)) = mset (butlast array)"
      by (auto simp: filter_mset_eq_conv)
    moreover have "mset array = add_mset needle (mset (butlast array))"
      by (subst split) simp
    ultimately show ?thesis using last by (subst strv_filter_loop.simps) simp
  next
    case swap
    have "mset (strv_filter_loop needle cur (butlast (array[cur := last array])))
        = filter_mset (\<lambda>p. p \<noteq> needle) (mset (butlast (array[cur := last array])))"
      using "1.IH"(1) swap "1.prems" by (simp add: nth_butlast)
    moreover have "mset array = add_mset needle (mset (butlast (array[cur := last array])))"
      using mset_butlast_update swap by metis
    moreover have "\<not> length array \<le> cur" using swap by linarith
    ultimately show ?thesis using swap by (subst strv_filter_loop.simps) simp
  next
    case other
    with "1.IH"(2) "1.prems" show ?thesis
      by (subst strv_filter_loop.simps) (simp add: less_Suc_eq)
  qed
qed

section \<open>Properties\<close>

text \<open>
  The in-place filter of a vector of strings, which moves the last element over a removed
  one, terminates and keeps exactly the occurrences of the other strings: as multisets the
  result is the input without the needle.
\<close>

theorem oio_strv_filter_mset:
  "mset (oio_strv_filter array needle) = filter_mset (\<lambda>p. p \<noteq> needle) (mset array)"
  by (simp add: oio_strv_filter_def strv_filter_loop_mset)

end
