(* ===== verification/Str_Codec.thy ===== *)
theory Str_Codec
  imports Str
begin

text \<open>
  Codecs of \<^verbatim>\<open>core/str.c\<close>: hexadecimal dumps (\<^verbatim>\<open>oio_str_bin2hex\<close>,
  \<^verbatim>\<open>oio_str_hex2bin\<close>, \<^verbatim>\<open>oio_buf_prefix\<close>), the escaping of JSON strings, and the lists
  of properties stored as flat vectors (\<^verbatim>\<open>KV_*\<close>).  A C string is the list of its
  characters before the final NUL.
\<close>

section \<open>Hexadecimal\<close>

definition hexa :: "char \<Rightarrow> nat option" where
  "hexa c =
     (let n = of_char c :: nat
      in if 48 \<le> n \<and> n \<le> 57 then Some (n - 48)
         else if 65 \<le> n \<and> n \<le> 70 then Some (n - 55)
         else if 97 \<le> n \<and> n \<le> 102 then Some (n - 87)
         else None)"

definition hex_char :: "nat \<Rightarrow> char" where
  "hex_char n = (if n < 10 then char_of (48 + n) else char_of (55 + n))"

definition b2h :: "guint8 \<Rightarrow> string" where
  "b2h b = [hex_char (unat b div 16), hex_char (unat b mod 16)]"

fun oio_str_ishexa1_loop :: "string \<Rightarrow> nat \<Rightarrow> nat option" where
  "oio_str_ishexa1_loop [] len = Some len"
| "oio_str_ishexa1_loop (c # s) len =
     (if hexa c = None then None else oio_str_ishexa1_loop s (len + 1))"

definition oio_str_ishexa1 :: "string \<Rightarrow> bool" where
  "oio_str_ishexa1 s =
     (case oio_str_ishexa1_loop s 0 of None \<Rightarrow> False | Some len \<Rightarrow> len > 0 \<and> len mod 2 = 0)"

text \<open>
  The loop of \<^verbatim>\<open>oio_str_hex2bin\<close>: the result and the bytes written to the destination (also
  when it fails half way).
\<close>

fun hex2bin_loop :: "string \<Rightarrow> nat \<Rightarrow> bool \<times> guint8 list" where
  "hex2bin_loop s 0 = (True, [])"
| "hex2bin_loop [] (Suc dlen) = (True, [])"
| "hex2bin_loop [c] (Suc dlen) = (False, [])"
| "hex2bin_loop (c0 # c1 # s) (Suc dlen) =
     (case (hexa c0, hexa c1) of
        (Some i0, Some i1) \<Rightarrow>
          let (ok, bs) = hex2bin_loop s dlen in (ok, of_nat (16 * i0 + i1) # bs)
      | _ \<Rightarrow> (False, []))"

definition oio_str_hex2bin :: "string \<Rightarrow> nat \<Rightarrow> bool \<times> guint8 list" where
  "oio_str_hex2bin s dlen = (if length s > dlen * 2 then (False, []) else hex2bin_loop s dlen)"

fun bin2hex_loop :: "guint8 list \<Rightarrow> nat \<Rightarrow> nat \<Rightarrow> string" where
  "bin2hex_loop [] j dS = []"
| "bin2hex_loop (b # bs) j dS = (if j < dS - 1 then b2h b @ bin2hex_loop bs (j + 2) dS else [])"

text \<open>
  The returned count is the number of characters written; the string that can be read back is
  cut by the final NUL, written at the end or over the last character of a full buffer.
\<close>

definition oio_str_bin2hex :: "guint8 list \<Rightarrow> nat \<Rightarrow> nat \<times> string" where
  "oio_str_bin2hex bs dS =
     (if dS = 0 \<or> bs = [] then (0, [])
      else let out = bin2hex_loop bs 0 dS; j = length out
           in (j, take (if j < dS then j else dS - 1) out))"

lemma of_char_hex_char: "n < 16 \<Longrightarrow> (of_char (hex_char n) :: nat) = (if n < 10 then 48 + n else 55 + n)"
  by (simp add: hex_char_def of_char_of)

lemma hexa_hex_char [simp]: "n < 16 \<Longrightarrow> hexa (hex_char n) = Some n"
  by (simp add: hexa_def of_char_hex_char)

lemma unat_guint8_lt [simp]: "unat (b :: guint8) < 256"
proof -
  have "unat b < 2 ^ LENGTH(8)" by (rule unsigned_less)
  then show ?thesis by simp
qed

lemma hex2bin_b2h: "hex2bin_loop (b2h b @ s) (Suc n) = (let (ok, bs) = hex2bin_loop s n in (ok, b # bs))"
proof -
  have "unat b div 16 < 16" using unat_guint8_lt [of b] by (simp add: less_mult_imp_div_less)
  then show ?thesis by (simp add: b2h_def)
qed

lemma bin2hex_enough:
  "j + 2 * length bs < dS \<Longrightarrow> bin2hex_loop bs j dS = concat (map b2h bs)"
  by (induction bs j dS rule: bin2hex_loop.induct) auto

lemma length_b2h [simp]: "length (b2h b) = 2"
  by (simp add: b2h_def)

lemma length_concat_b2h [simp]: "length (concat (map b2h bs)) = 2 * length bs"
  by (induction bs) simp_all

lemma hex2bin_concat: "hex2bin_loop (concat (map b2h bs)) (length bs) = (True, bs)"
  by (induction bs) (simp_all add: hex2bin_b2h)

lemma bin2hex_text:
  assumes "2 * length bs < dS"
  shows "snd (oio_str_bin2hex bs dS) = concat (map b2h bs)"
  using assms bin2hex_enough [of 0 bs dS] by (auto simp: oio_str_bin2hex_def Let_def)

lemma ishexa1_b2h: "oio_str_ishexa1_loop (concat (map b2h bs)) n = Some (n + 2 * length bs)"
proof (induction bs arbitrary: n)
  case (Cons b bs)
  have "unat b div 16 < 16" using unat_guint8_lt [of b] by (simp add: less_mult_imp_div_less)
  with Cons show ?case by (simp add: b2h_def)
qed simp

section \<open>Prefixes of a hash\<close>

definition mask :: "nat \<Rightarrow> guint8" where
  "mask m = of_nat (256 - 2 ^ (8 - m))"

text \<open>\<^verbatim>\<open>oio_buf_prefix\<close>: the first \<open>bits\<close> bits of the buffer, in hexadecimal.\<close>

definition oio_buf_prefix :: "guint8 list \<Rightarrow> nat \<Rightarrow> string option" where
  "oio_buf_prefix bin bits =
     (if bits = 0 \<or> bits \<ge> length bin * 8 then None
      else let dv = bits div 8; md = bits mod 8; last = (if md \<noteq> 0 then dv + 1 else dv)
           in if last > length bin then None
              else Some (concat (map b2h (take dv bin)) @
                     (if md \<noteq> 0
                      then (let s = b2h (and (bin ! (last - 1)) (mask md))
                            in if md > 4 then s else [s ! 0])
                      else [])))"

lemma oio_buf_prefix_length:
  assumes "oio_buf_prefix bin bits = Some s"
  shows "length s = (bits + 3) div 4"
proof -
  obtain q r where qr: "bits = 8 * q + r" "r < 8"
    by (metis mod_less_divisor mult_div_mod_eq zero_less_numeral)
  have lt: "bits < length bin * 8" using assms by (auto simp: oio_buf_prefix_def split: if_splits)
  with qr have q: "q < length bin" by simp
  have d: "bits div 8 = q" "bits mod 8 = r" using qr by simp_all
  have "length s = 2 * q + (if r = 0 then 0 else if r > 4 then 2 else 1)"
    using assms q by (auto simp: oio_buf_prefix_def Let_def d split: if_splits)
  moreover have "(8 * q + r + 3) div 4 = 2 * q + (r + 3) div 4" by simp
  moreover have "(r + 3) div 4 = (if r = 0 then 0 else if r > 4 then 2 else 1)"
    using qr(2) by auto
  ultimately show ?thesis using qr by simp
qed

section \<open>JSON strings\<close>

definition json_basic_translation :: "nat \<Rightarrow> char" where
  "json_basic_translation n =
     (if n = 8 then CHR ''b'' else if n = 9 then CHR ''t'' else if n = 10 then CHR ''n''
      else if n = 12 then CHR ''f'' else CHR ''r'')"

definition low_hex :: "nat \<Rightarrow> char" where
  "low_hex n = (if n < 10 then char_of (48 + n) else char_of (87 + n))"

text \<open>
  The escaping of one byte by \<^verbatim>\<open>oio_str_gstring_append_json_blob\<close>.  The bytes of a
  multi-byte character are copied: the decoded character is appended again, and the bytes of an
  invalid one are appended as they are.
\<close>

definition json_escape_char :: "char \<Rightarrow> string" where
  "json_escape_char c =
     (let n = of_char c :: nat
      in if n \<ge> 128 then [c]
         else if n < 32
         then CHR 0x5C #
              (if n = 8 \<or> n = 9 \<or> n = 10 \<or> n = 12 \<or> n = 13 then [json_basic_translation n]
               else ''u00'' @ [low_hex (n div 16), low_hex (n mod 16)])
         else if n = 34 \<or> n = 92 \<or> n = 47 then [CHR 0x5C, c]
         else [c])"

fun oio_str_gstring_append_json_string :: "string \<Rightarrow> string \<Rightarrow> string" where
  "oio_str_gstring_append_json_string base [] = base"
| "oio_str_gstring_append_json_string base (c # s) =
     oio_str_gstring_append_json_string (base @ json_escape_char c) s"

definition oio_str_gstring_append_json_quote :: "string \<Rightarrow> string \<Rightarrow> string" where
  "oio_str_gstring_append_json_quote base s =
     oio_str_gstring_append_json_string (base @ [CHR 0x22]) s @ [CHR 0x22]"

definition oio_str_gstring_append_json_pair :: "string \<Rightarrow> string \<Rightarrow> string option \<Rightarrow> string" where
  "oio_str_gstring_append_json_pair base k v =
     (let b = oio_str_gstring_append_json_quote base k @ '':''
      in case v of None \<Rightarrow> b @ ''null'' | Some s \<Rightarrow> oio_str_gstring_append_json_quote b s)"

fun strv_encode_items :: "string \<Rightarrow> bool \<Rightarrow> string list \<Rightarrow> string" where
  "strv_encode_items gs first [] = gs"
| "strv_encode_items gs first (p # ps) =
     strv_encode_items
       (oio_str_gstring_append_json_quote (if first then gs else gs @ '','') p) False ps"

definition STRV_encode_gstr :: "string list option \<Rightarrow> string" where
  "STRV_encode_gstr tab =
     (case tab of
        None \<Rightarrow> []
      | Some ps \<Rightarrow> if ps = [] then ''[]'' else strv_encode_items ''['' True ps @ '']'')"










section \<open>Flat lists of properties\<close>

text \<open>A vector of properties alternates keys and values; a key without a value ends it.\<close>

fun kv_pairs :: "string list \<Rightarrow> (string \<times> string) list" where
  "kv_pairs (k # v # kv) = (k, v) # kv_pairs kv"
| "kv_pairs _ = []"

fun kv_prefixed_loop :: "string \<Rightarrow> string list \<Rightarrow> string list" where
  "kv_prefixed_loop p (k # v # kv) =
     (if take (length p) k = p then drop (length p) k # v # kv_prefixed_loop p kv
      else kv_prefixed_loop p kv)"
| "kv_prefixed_loop p _ = []"

definition KV_extract_prefixed :: "string list option \<Rightarrow> string \<Rightarrow> string list" where
  "KV_extract_prefixed kv prefix =
     (case kv of
        None \<Rightarrow> []
      | Some l \<Rightarrow> if l = [] \<or> tl l = [] then []
                  else if prefix = [] then l
                  else kv_prefixed_loop prefix l)"

fun kv_not_prefixed_loop :: "string \<Rightarrow> string list \<Rightarrow> string list" where
  "kv_not_prefixed_loop p (k # v # kv) =
     (if take (length p) k \<noteq> p then k # v # kv_not_prefixed_loop p kv
      else kv_not_prefixed_loop p kv)"
| "kv_not_prefixed_loop p _ = []"

definition KV_extract_not_prefixed :: "string list option \<Rightarrow> string \<Rightarrow> string list" where
  "KV_extract_not_prefixed kv prefix =
     (case kv of
        None \<Rightarrow> []
      | Some l \<Rightarrow> if l = [] \<or> tl l = [] then []
                  else if prefix = [] then l
                  else kv_not_prefixed_loop prefix l)"

fun kv_get_loop :: "string list \<Rightarrow> string \<Rightarrow> string option" where
  "kv_get_loop (k # v # kv) key = (if key = k then Some v else kv_get_loop kv key)"
| "kv_get_loop _ key = None"

definition KV_get_value :: "string list option \<Rightarrow> string \<Rightarrow> string option" where
  "KV_get_value kv key = (case kv of None \<Rightarrow> None | Some l \<Rightarrow> kv_get_loop l key)"

lemma kv_get_map_of: "kv_get_loop l key = map_of (kv_pairs l) key"
  by (induction l key rule: kv_get_loop.induct) auto

lemma take_prefix_iff: "take (length p) k = p \<and> drop (length p) k = key \<longleftrightarrow> k = p @ key"
  by (metis append_eq_conv_conj append_take_drop_id)

lemma kv_get_prefixed: "kv_get_loop (kv_prefixed_loop p l) key = kv_get_loop l (p @ key)"
proof (induction p l rule: kv_prefixed_loop.induct)
  case (1 p k v kv)
  show ?case
  proof (cases "take (length p) k = p")
    case True
    with take_prefix_iff [of p k key] 1(1) [OF True] show ?thesis by auto
  next
    case False
    then have "p @ key \<noteq> k" by auto
    with False 1(2) show ?thesis by simp
  qed
qed simp_all

lemma kv_get_not_prefixed:
  "kv_get_loop (kv_not_prefixed_loop p l) key = (if take (length p) key = p then None else kv_get_loop l key)"
  by (induction p l rule: kv_not_prefixed_loop.induct) auto

section \<open>Properties\<close>

text \<open>
  C36: a binary identifier survives its hexadecimal dump: with a buffer for all the digits and
  the final NUL, \<^verbatim>\<open>oio_str_bin2hex\<close> writes a text that \<^verbatim>\<open>oio_str_ishexa1\<close> accepts and
  that \<^verbatim>\<open>oio_str_hex2bin\<close> reads back to the same bytes.
\<close>

theorem hex_roundtrip:
  assumes "bs \<noteq> []" "2 * length bs < dS"
  shows "oio_str_hex2bin (snd (oio_str_bin2hex bs dS)) (length bs) = (True, bs)
     \<and> oio_str_ishexa1 (snd (oio_str_bin2hex bs dS))"
  using assms hex2bin_concat [of bs]
  by (simp add: bin2hex_text oio_str_hex2bin_def oio_str_ishexa1_def ishexa1_b2h)

theorem hex_roundtrip_witness:
  "oio_str_hex2bin (snd (oio_str_bin2hex [0x2A, 0xFF] 5)) 2 = (True, [0x2A, 0xFF])"
  using hex_roundtrip [of "[0x2A, 0xFF]" 5] by (simp add: numeral_2_eq_2)

text \<open>
  The prefix of a hash used to name automatic containers has one hexadecimal digit per
  started group of four bits.
\<close>

theorem buf_prefix_digits:
  assumes "0 < bits" "bits < length bin * 8"
  shows "\<exists>s. oio_buf_prefix bin bits = Some s \<and> length s = (bits + 3) div 4"
proof -
  have "bits div 8 < length bin" using assms(2) by (simp add: less_mult_imp_div_less)
  then have "\<exists>s. oio_buf_prefix bin bits = Some s"
    using assms by (simp add: oio_buf_prefix_def Let_def)
  then show ?thesis using oio_buf_prefix_length by blast
qed

theorem buf_prefix_digits_witness:
  "\<exists>s. oio_buf_prefix [0xAB, 0xCD] 13 = Some s \<and> length s = 4"
  using buf_prefix_digits [of 13 "[0xAB, 0xCD]"] by simp


text \<open>
  Extracting the properties under a prefix is a lookup under the prefix: a key has in the
  extracted list the value that the prefixed key has in the original one, and the complement
  keeps exactly the other keys.
\<close>

theorem kv_extract_lookup:
  assumes "prefix \<noteq> []"
  shows "KV_get_value (Some (KV_extract_prefixed kv prefix)) key = KV_get_value kv (prefix @ key)
    \<and> KV_get_value (Some (KV_extract_not_prefixed kv prefix)) key
        = (if take (length prefix) key = prefix then None else KV_get_value kv key)"
proof (cases kv)
  case (Some l)
  have short: "kv_get_loop l x = None" if "l = [] \<or> tl l = []" for x
    using that by (cases l) auto
  show ?thesis
    using Some assms short
    by (auto simp: KV_get_value_def KV_extract_prefixed_def KV_extract_not_prefixed_def
        kv_get_prefixed kv_get_not_prefixed)
qed (simp add: KV_get_value_def KV_extract_prefixed_def KV_extract_not_prefixed_def)

theorem kv_extract_lookup_witness:
  "KV_get_value (Some (KV_extract_prefixed (Some [''user.a'', ''1'', ''sys'', ''2'']) ''user.'')) ''a''
   = Some ''1''"
  using kv_extract_lookup [of "''user.''" "Some [''user.a'', ''1'', ''sys'', ''2'']" "''a''"]
  by (simp add: KV_get_value_def)

end
