(* ===== verification/Election_Types.thy ===== *)
theory Election_Types
  imports Linked
begin

text \<open>
  Data of the elections (\<^verbatim>\<open>sqliterepo/election.h\<close> and the first part of
  \<^verbatim>\<open>sqliterepo/election.c\<close>): the steps and the events of the state machine, the member of an
  election, the queues of members by step, and the state a reaction works on.

  A reaction runs under the manager's lock on one member.  Its state \<open>est\<close> has the member, the
  manager's queues, the manager's \<^verbatim>\<open>exiting\<close> and \<^verbatim>\<open>deferred_peering_notify\<close> flags, the
  list of what was sent to the outside (requests to ZooKeeper, messages to the peers, tasks
  pushed, conditions signalled) and a flag telling that the code left the defined behaviour of C
  (it dereferenced a NULL pointer or wrote out of the bounds of an array).
  What the outside answers to a reaction is the record \<open>env\<close>: the return code of each
  asynchronous ZooKeeper call, the clock, and the configuration variables.  The clock is read
  once per reaction.  \<open>peering_accepts\<close> is what the peering client returns for a message to a
  given target (whether the client thread has to be notified), and \<open>url_valid\<close> tells the
  addresses the system's parser accepts (\<^verbatim>\<open>metautils_url_valid_for_connect\<close>).
\<close>

section \<open>Steps and events\<close>

datatype step =
    STEP_NONE | STEP_PEERING | STEP_CREATING | STEP_WATCHING | STEP_LISTING | STEP_ASKING
  | STEP_CHECKING_MASTER | STEP_CHECKING_SLAVES | STEP_SYNCING
  | STEP_DELAYED_CHECKING_MASTER | STEP_REFRESH_CHECKING_MASTER
  | STEP_DELAYED_CHECKING_SLAVES | STEP_REFRESH_CHECKING_SLAVES
  | STEP_LEAVING | STEP_LEAVING_FAILING | STEP_FAILED
  | STEP_SLAVE | STEP_MASTER

fun step_idx :: "step \<Rightarrow> nat" where
  "step_idx STEP_NONE = 0"
| "step_idx STEP_PEERING = 1"
| "step_idx STEP_CREATING = 2"
| "step_idx STEP_WATCHING = 3"
| "step_idx STEP_LISTING = 4"
| "step_idx STEP_ASKING = 5"
| "step_idx STEP_CHECKING_MASTER = 6"
| "step_idx STEP_CHECKING_SLAVES = 7"
| "step_idx STEP_SYNCING = 8"
| "step_idx STEP_DELAYED_CHECKING_MASTER = 9"
| "step_idx STEP_REFRESH_CHECKING_MASTER = 10"
| "step_idx STEP_DELAYED_CHECKING_SLAVES = 11"
| "step_idx STEP_REFRESH_CHECKING_SLAVES = 12"
| "step_idx STEP_LEAVING = 13"
| "step_idx STEP_LEAVING_FAILING = 14"
| "step_idx STEP_FAILED = 15"
| "step_idx STEP_SLAVE = 16"
| "step_idx STEP_MASTER = 17"

lemma step_idx_inj: "step_idx a = step_idx b \<Longrightarrow> a = b"
  by (cases a; cases b) simp_all

instantiation step :: linorder
begin

definition less_eq_step :: "step \<Rightarrow> step \<Rightarrow> bool" where
  "less_eq_step a b \<longleftrightarrow> step_idx a \<le> step_idx b"

definition less_step :: "step \<Rightarrow> step \<Rightarrow> bool" where
  "less_step a b \<longleftrightarrow> step_idx a < step_idx b"

instance
  by standard (auto simp: less_eq_step_def less_step_def dest: step_idx_inj)

end

definition STATUS_FINAL :: "step \<Rightarrow> bool" where
  "STATUS_FINAL st \<longleftrightarrow> st \<ge> STEP_SLAVE"

datatype event =
    EVT_NONE
  | EVT_DISCONNECTED | EVT_LEAVE_REQ | EVT_SYNC_REQ | EVT_LEFT_SELF | EVT_LEFT_MASTER
  | EVT_GETPEERS_DONE
  | EVT_GETVERS_OK | EVT_GETVERS_KO | EVT_GETVERS_OLD | EVT_GETVERS_RACE
  | EVT_MASTER_OK | EVT_MASTER_KO | EVT_MASTER_BAD
  | EVT_CREATE_OK | EVT_CREATE_KO
  | EVT_EXISTS_OK | EVT_EXISTS_KO
  | EVT_LIST_OK | EVT_LIST_KO
  | EVT_LEAVE_OK | EVT_LEAVE_KO
  | EVT_SYNC_OK | EVT_SYNC_KO

text \<open>The \<^verbatim>\<open>void *evt_arg\<close> of an event; \<open>NoArg\<close> is NULL.\<close>

datatype evt_arg = NoArg | ArgId int | ArgUrl string | ArgPeers "string list"

fun arg_id :: "evt_arg \<Rightarrow> int option" where
  "arg_id (ArgId i) = Some i"
| "arg_id _ = None"

fun arg_url :: "evt_arg \<Rightarrow> string option" where
  "arg_url (ArgUrl u) = Some u"
| "arg_url _ = None"

fun arg_peers :: "evt_arg \<Rightarrow> string list option" where
  "arg_peers (ArgPeers ps) = Some ps"
| "arg_peers _ = None"

text \<open>The return codes of the ZooKeeper client that the code tells apart.\<close>

datatype zrc =
    ZOK | ZNONODE | ZRUNTIMEINCONSISTENCY | ZDATAINCONSISTENCY | ZMARSHALLINGERROR
  | ZUNIMPLEMENTED | ZINVALIDSTATE | ZSESSIONEXPIRED | ZAUTHFAILED | ZOTHER

fun zoo_disconnected :: "zrc \<Rightarrow> bool" where
  "zoo_disconnected ZRUNTIMEINCONSISTENCY = True"
| "zoo_disconnected ZDATAINCONSISTENCY = True"
| "zoo_disconnected ZMARSHALLINGERROR = True"
| "zoo_disconnected ZUNIMPLEMENTED = True"
| "zoo_disconnected ZINVALIDSTATE = True"
| "zoo_disconnected ZSESSIONEXPIRED = True"
| "zoo_disconnected ZAUTHFAILED = True"
| "zoo_disconnected _ = False"

section \<open>Members, queues and the state of a reaction\<close>

record logged_event =
  log_time :: time
  log_event :: event
  log_pre :: step
  log_post :: step

record member =
  m_key :: string
  m_sync :: "nat option"
  when_unstable :: time
  last_status :: time
  last_USE :: time
  last_atime :: time
  master_url :: "string option"
  refcount :: guint32
  master_id :: int
  local_id :: int
  generation_id :: guint16
  attempts_GETVERS :: guint8
  pending_GETVERS :: guint8
  count_GETVERS :: guint8
  outdated_GETVERS :: guint8
  concurrent_GETVERS :: guint8
  errors_GETVERS :: guint8
  log_index :: guint8
  db_check_type :: int
  step_of :: step
  peers :: "string list option"
  requested_peers_decache :: bool
  requested_USE :: bool
  requested_PIPEFROM :: bool
  requested_LEAVE :: bool
  requested_LEFT_SELF :: bool
  requested_LEFT_MASTER :: bool
  pending_PIPEFROM :: bool
  pending_ZK_CREATE :: bool
  pending_ZK_EXISTS :: bool
  pending_ZK_LIST :: bool
  pending_ZK_GET :: bool
  pending_ZK_DELETE :: bool
  flag_local_id :: bool
  flag_master_id :: bool
  m_log :: "logged_event list"

abbreviation EVENTLOG_SIZE :: nat where "EVENTLOG_SIZE \<equiv> 32"

text \<open>
  A new member, as \<^verbatim>\<open>_LOCKED_init_member\<close> allocates it: zeroed memory, then the key, the
  date, the random generation number, two references (the tree and the caller) and the peers
  given by the caller.  \<open>m_sync\<close> is the index of its ZooKeeper connection in the manager's table,
  \<open>None\<close> when there is none.
\<close>

definition new_member :: "string \<Rightarrow> nat option \<Rightarrow> time \<Rightarrow> guint16 \<Rightarrow> string list option \<Rightarrow> member" where
  "new_member key sync t gen ps =
     \<lparr>m_key = key, m_sync = sync, when_unstable = 0, last_status = t, last_USE = 0, last_atime = 0,
      master_url = None, refcount = 2, master_id = 0, local_id = 0, generation_id = gen,
      attempts_GETVERS = 0, pending_GETVERS = 0, count_GETVERS = 0, outdated_GETVERS = 0,
      concurrent_GETVERS = 0, errors_GETVERS = 0, log_index = 0, db_check_type = 0,
      step_of = STEP_NONE, peers = ps, requested_peers_decache = False, requested_USE = False,
      requested_PIPEFROM = False, requested_LEAVE = False, requested_LEFT_SELF = False,
      requested_LEFT_MASTER = False, pending_PIPEFROM = False, pending_ZK_CREATE = False,
      pending_ZK_EXISTS = False, pending_ZK_LIST = False, pending_ZK_GET = False,
      pending_ZK_DELETE = False, flag_local_id = False, flag_master_id = False,
      m_log = replicate EVENTLOG_SIZE
        \<lparr>log_time = 0, log_event = EVT_NONE, log_pre = STEP_NONE, log_post = STEP_NONE\<rparr>\<rparr>"

record 'k counted_beacon = "'k beacon" +
  bcount :: guint32

record queues =
  q_links :: "string links"
  q_beacon :: "step \<Rightarrow> string counted_beacon"

datatype outmsg =
    OutSignal string
  | OutGetpeers
  | OutUse string string bool
  | OutGetvers "string option" string
  | OutPipefrom string "string option" int
  | OutZkCreate string string
  | OutZkExists string guint16
  | OutZkList string
  | OutZkGet string guint16
  | OutZkDelete string
  | OutZkDeleteRogue string
  | OutZkDelWatch string

record est =
  mb :: member
  queues_of :: queues
  exiting :: bool
  notify :: bool
  outs :: "outmsg list"
  crashed :: bool

record env =
  now :: time
  real_ms :: time
  zrc_create :: zrc
  zrc_exists :: zrc
  zrc_list :: zrc
  zrc_get :: zrc
  zrc_delete :: zrc
  zoo_35 :: bool
  peering_accepts :: "string option \<Rightarrow> bool"
  url_valid :: "string \<Rightarrow> bool"
  local_url :: string
  allow_master :: bool
  getvers_attempts :: nat
  getvers_delay :: time
  delay_expire_pending :: time
  delay_expire_SLAVE :: time
  delay_expire_MASTER :: time
  delay_expire_NONE :: time
  delay_retry_FAILED :: time

section \<open>Queues of members by step\<close>

text \<open>\<^verbatim>\<open>_DEQUE_remove\<close> and \<^verbatim>\<open>_DEQUE_add\<close>, for a member that is in the given step.\<close>

definition DEQUE_remove :: "step \<Rightarrow> string \<Rightarrow> queues \<Rightarrow> queues" where
  "DEQUE_remove st k q =
     (let b = q_beacon q st
      in q\<lparr>q_beacon := (q_beacon q)(st := (unlink_beacon k (q_links q) b)\<lparr>bcount := bcount b - 1\<rparr>),
           q_links := unlink_links k (q_links q)\<rparr>)"

definition DEQUE_add :: "step \<Rightarrow> string \<Rightarrow> queues \<Rightarrow> queues" where
  "DEQUE_add st k q =
     (let b = q_beacon q st
      in q\<lparr>q_links := push_back_links k b (q_links q),
           q_beacon := (q_beacon q)(st := (push_back_beacon k b)\<lparr>bcount := bcount b + 1\<rparr>)\<rparr>)"

text \<open>The queues hold the lists \<open>f\<close>, and each counter is the length of its list.\<close>

definition queues_rep :: "queues \<Rightarrow> (step \<Rightarrow> string list) \<Rightarrow> bool" where
  "queues_rep q f \<longleftrightarrow>
     fam_rep (q_links q) (q_beacon q) f \<and> (\<forall>st. bcount (q_beacon q st) = of_nat (length (f st)))"

definition queues_empty :: queues where
  "queues_empty =
     \<lparr>q_links = \<lparr>lprev = (\<lambda>_. None), lnext = (\<lambda>_. None)\<rparr>,
      q_beacon = (\<lambda>_. \<lparr>bfront = None, bback = None, bcount = 0\<rparr>)\<rparr>"

lemma is_deque_more: "is_deque l (b\<lparr>bcount := c\<rparr>) xs = is_deque l b xs"
  by (simp add: is_deque_def)

lemma fam_rep_more:
  "fam_rep l (B(q := (b :: 'k counted_beacon)\<lparr>bcount := c\<rparr>)) f = fam_rep l (B(q := b)) f"
  unfolding fam_rep_def by (simp add: is_deque_more fun_upd_apply if_distrib [of "is_deque l"])

lemma queues_rep_empty: "queues_rep queues_empty (\<lambda>_. [])"
  by (simp add: queues_rep_def queues_empty_def fam_rep_def is_deque_def clean_node_def)

lemma queues_rep_remove:
  assumes "queues_rep q f" "k \<in> set (f st)"
  shows "queues_rep (DEQUE_remove st k q) (f(st := remove1 k (f st)))"
proof -
  obtain n where n: "length (f st) = Suc n"
    using assms(2) by (cases "f st") auto
  moreover from n have "length (remove1 k (f st)) = n"
    using assms(2) by (simp add: length_remove1)
  moreover have "fam_rep (q_links q) (q_beacon q) f"
    using assms(1) by (simp add: queues_rep_def)
  note fam_unlink [OF this assms(2)]
  ultimately show ?thesis
    using assms(1) by (simp add: queues_rep_def DEQUE_remove_def Let_def fam_rep_more)
qed

lemma queues_rep_add:
  assumes "queues_rep q f" "\<And>r. k \<notin> set (f r)"
  shows "queues_rep (DEQUE_add st k q) (f(st := f st @ [k]))"
proof -
  have "fam_rep (q_links q) (q_beacon q) f"
    using assms(1) by (simp add: queues_rep_def)
  note fam_push_back [OF this assms(2)]
  then show ?thesis
    using assms(1) by (simp add: queues_rep_def DEQUE_add_def Let_def fam_rep_more)
qed

lemma queues_rep_fam: "queues_rep q f \<Longrightarrow> fam_rep (q_links q) (q_beacon q) f"
  by (simp add: queues_rep_def)

interpretation equeues: deque_family queues_rep "\<lambda>_ _. True" DEQUE_remove DEQUE_add "\<lambda>k xs. xs @ [k]"
proof
  show "queues_rep q f \<Longrightarrow> distinct (f st)" for q f st
    by (rule fam_distinct [OF queues_rep_fam])
  show "queues_rep q f \<Longrightarrow> st \<noteq> st' \<Longrightarrow> set (f st) \<inter> set (f st') = {}" for q f st st'
    by (rule fam_disjoint [OF queues_rep_fam])
qed (auto intro: queues_rep_remove queues_rep_add)

end
