(* ===== verification/Election_Path.thy ===== *)
theory Election_Path
  imports Election_Types
begin

text \<open>
  Names of the ZooKeeper nodes (\<^verbatim>\<open>sqliterepo/election.c\<close>): \<^verbatim>\<open>member_fullpath\<close> and
  \<^verbatim>\<open>member_masterpath\<close> print a node name as the key of the election, a dash and the sequence
  number in the format \<^verbatim>\<open>%010d\<close>; \<^verbatim>\<open>_extract_id\<close> reads the number back and
  \<^verbatim>\<open>nodev_to_int32v\<close> sorts those of the siblings.  The decimal printer and the parser
  \<^verbatim>\<open>g_ascii_strtoll\<close> are those of the C library, restricted to base 10.
\<close>

section \<open>Decimal numbers\<close>

fun dec_digits :: "nat \<Rightarrow> string" where
  "dec_digits n =
     (if n < 10 then [char_of (48 + n)] else dec_digits (n div 10) @ [char_of (48 + n mod 10)])"

declare dec_digits.simps [simp del]

definition zpad :: "nat \<Rightarrow> string \<Rightarrow> string" where
  "zpad w s = replicate (w - length s) (CHR ''0'') @ s"

definition fmt_010d :: "int \<Rightarrow> string" where
  "fmt_010d i =
     (if i < 0 then CHR ''-'' # zpad 9 (dec_digits (nat (- i))) else zpad 10 (dec_digits (nat i)))"

definition is_digit :: "char \<Rightarrow> bool" where
  "is_digit c \<longleftrightarrow> 48 \<le> (of_char c :: nat) \<and> (of_char c :: nat) \<le> 57"

definition digit_val :: "char \<Rightarrow> nat" where
  "digit_val c = of_char c - 48"

definition is_space :: "char \<Rightarrow> bool" where
  "is_space c \<longleftrightarrow> (of_char c :: nat) = 32 \<or> 9 \<le> (of_char c :: nat) \<and> (of_char c :: nat) \<le> 13"

definition parse_nat :: "string \<Rightarrow> nat" where
  "parse_nat s = foldl (\<lambda>n c. 10 * n + digit_val c) 0 s"

text \<open>
  \<^verbatim>\<open>g_ascii_strtoll(s, &end, 10)\<close>: the value, the characters from \<^verbatim>\<open>end\<close> on, and whether
  \<^verbatim>\<open>errno\<close> is \<^verbatim>\<open>ERANGE\<close>.
\<close>

definition strtoll :: "string \<Rightarrow> int \<times> string \<times> bool" where
  "strtoll s =
     (let s1 = dropWhile is_space s;
          neg = (s1 \<noteq> [] \<and> hd s1 = CHR ''-'');
          s2 = (if s1 \<noteq> [] \<and> (hd s1 = CHR ''-'' \<or> hd s1 = CHR ''+'') then tl s1 else s1);
          ds = takeWhile is_digit s2
      in if ds = [] then (0, s, False)
         else let v = (if neg then - int (parse_nat ds) else int (parse_nat ds))
              in (if v > 2 ^ 63 - 1 then (2 ^ 63 - 1, dropWhile is_digit s2, True)
                  else if v < - (2 ^ 63) then (- (2 ^ 63), dropWhile is_digit s2, True)
                  else (v, dropWhile is_digit s2, False)))"

definition to_gint32 :: "int \<Rightarrow> int" where
  "to_gint32 v = sint (word_of_int v :: 32 word)"

section \<open>Node names\<close>

definition member_fullpath :: "member \<Rightarrow> string" where
  "member_fullpath m =
     (if flag_local_id m then m_key m @ ''-'' @ fmt_010d (local_id m) else m_key m @ ''-'')"

definition member_masterpath :: "member \<Rightarrow> string option" where
  "member_masterpath m =
     (if \<not> flag_master_id m then None else Some (m_key m @ ''-'' @ fmt_010d (master_id m)))"

text \<open>The index of the last occurrence of a character (\<^verbatim>\<open>strrchr\<close>).\<close>

fun strrchr :: "string \<Rightarrow> char \<Rightarrow> nat option" where
  "strrchr [] c = None"
| "strrchr (x # xs) c =
     (case strrchr xs c of Some i \<Rightarrow> Some (Suc i) | None \<Rightarrow> if x = c then Some 0 else None)"

text \<open>
  \<^verbatim>\<open>_extract_id\<close>: the result, the value written to \<^verbatim>\<open>*pid\<close> when a dash was found (which
  happens before the checks on the end of the string), and whether \<^verbatim>\<open>errno\<close> is
  \<^verbatim>\<open>ERANGE\<close> afterwards.  The function never resets \<^verbatim>\<open>errno\<close>, whose value on entry
  is the argument \<open>erange\<close>.
\<close>

definition extract_id :: "bool \<Rightarrow> string \<Rightarrow> bool \<times> int option \<times> bool" where
  "extract_id erange path =
     (case strrchr path (CHR ''-'') of
        None \<Rightarrow> (False, None, erange)
      | Some i \<Rightarrow>
          let stripe = (if i > 0 \<and> path ! (i - 1) = CHR ''-'' then i - 1 else i);
              (v, rest, overflow) = strtoll (drop (stripe + 1) path)
          in (rest = [] \<and> \<not> (erange \<or> overflow), Some (to_gint32 v), erange \<or> overflow))"

definition has_prefix :: "string \<Rightarrow> string \<Rightarrow> bool" where
  "has_prefix s p \<longleftrightarrow> take (length p) s = p"

fun nodev_ids :: "bool \<Rightarrow> string list \<Rightarrow> string \<Rightarrow> int list" where
  "nodev_ids erange [] key = []"
| "nodev_ids erange (s # sv) key =
     (if has_prefix s key
      then (case extract_id erange s of
              (True, Some i, er) \<Rightarrow> i # nodev_ids er sv key
            | (_, _, er) \<Rightarrow> nodev_ids er sv key)
      else nodev_ids erange sv key)"

definition nodev_to_int32v :: "bool \<Rightarrow> string list \<Rightarrow> string \<Rightarrow> int list" where
  "nodev_to_int32v erange sv key = sort (nodev_ids erange sv key)"

section \<open>Printing and parsing\<close>

lemma of_char_digit [simp]: "(d :: nat) < 10 \<Longrightarrow> (of_char (char_of (48 + d) :: char) :: nat) = 48 + d"
  by (simp add: of_char_of)

lemma is_digit_digit [simp]: "(d :: nat) < 10 \<Longrightarrow> is_digit (char_of (48 + d))"
  by (simp add: is_digit_def)

lemma is_digit_0 [simp]: "is_digit (CHR ''0'')"
  by (simp add: is_digit_def)

lemma dec_digits_all: "list_all is_digit (dec_digits n)"
  by (induction n rule: dec_digits.induct) (subst dec_digits.simps, simp)

lemma dec_digits_nonempty [simp]: "dec_digits n \<noteq> []"
  by (subst dec_digits.simps) simp

lemma zpad_all: "list_all is_digit s \<Longrightarrow> list_all is_digit (zpad w s)"
  by (auto simp: zpad_def list_all_iff)

lemma zpad_nonempty [simp]: "s \<noteq> [] \<Longrightarrow> zpad w s \<noteq> []"
  by (simp add: zpad_def)

lemma parse_nat_append: "parse_nat (s @ [c]) = 10 * parse_nat s + digit_val c"
  by (simp add: parse_nat_def)

lemma parse_nat_dec_digits: "parse_nat (dec_digits n) = n"
proof (induction n rule: dec_digits.induct)
  case (1 n)
  show ?case
  proof (cases "n < 10")
    case True
    then show ?thesis by (subst dec_digits.simps) (simp add: parse_nat_def digit_val_def)
  next
    case False
    with 1 show ?thesis
      by (subst dec_digits.simps) (simp add: parse_nat_append digit_val_def)
  qed
qed

lemma parse_nat_zeros: "parse_nat (replicate k (CHR ''0'') @ s) = parse_nat s"
  by (induction k) (simp_all add: parse_nat_def digit_val_def)

lemma parse_nat_zpad: "parse_nat (zpad w (dec_digits n)) = n"
  by (simp add: zpad_def parse_nat_zeros parse_nat_dec_digits)

lemma takeWhile_all_digits: "list_all is_digit s \<Longrightarrow> takeWhile is_digit s = s"
  by (simp add: list_all_iff)

lemma dropWhile_all_digits: "list_all is_digit s \<Longrightarrow> dropWhile is_digit s = []"
  by (simp add: list_all_iff dropWhile_eq_Nil_conv)

lemma digit_not_space: "is_digit c \<Longrightarrow> \<not> is_space c"
  by (auto simp: is_digit_def is_space_def)

lemma digit_not_sign: "is_digit c \<Longrightarrow> c \<noteq> CHR ''-'' \<and> c \<noteq> CHR ''+''"
  by (auto simp: is_digit_def)

lemma strtoll_digits:
  assumes "list_all is_digit s" "s \<noteq> []" "int (parse_nat s) \<le> 2 ^ 63 - 1"
  shows "strtoll s = (int (parse_nat s), [], False)"
proof -
  from assms obtain c cs where s: "s = c # cs" and c: "is_digit c" by (cases s) auto
  with digit_not_space digit_not_sign assms show ?thesis
    by (simp add: strtoll_def Let_def takeWhile_all_digits dropWhile_all_digits)
qed

lemma strtoll_overflow:
  assumes "list_all is_digit s" "s \<noteq> []" "int (parse_nat s) > 2 ^ 63 - 1"
  shows "strtoll s = (2 ^ 63 - 1, [], True)"
proof -
  from assms obtain c cs where s: "s = c # cs" and c: "is_digit c" by (cases s) auto
  with digit_not_space digit_not_sign assms show ?thesis
    by (simp add: strtoll_def Let_def takeWhile_all_digits dropWhile_all_digits)
qed

lemma strtoll_neg_digits:
  assumes "list_all is_digit s" "s \<noteq> []" "int (parse_nat s) \<le> 2 ^ 63"
  shows "strtoll (CHR ''-'' # s) = (- int (parse_nat s), [], False)"
proof -
  have "\<not> is_space (CHR ''-'')" by (simp add: is_space_def)
  with assms show ?thesis
    by (simp add: strtoll_def Let_def takeWhile_all_digits dropWhile_all_digits)
qed

lemma strtoll_fmt:
  assumes "- (2 ^ 31) \<le> i" "i < 2 ^ 31"
  shows "strtoll (fmt_010d i) = (i, [], False)"
  using assms
  by (simp add: fmt_010d_def strtoll_digits strtoll_neg_digits zpad_all dec_digits_all
      parse_nat_zpad)

lemma sint_word_of_int_eq_self:
  assumes "- (2 ^ 31) \<le> i" "i < 2 ^ 31"
  shows "sint (word_of_int i :: 32 word) = i"
proof -
  have "sint (word_of_int i :: 32 word) = signed_take_bit 31 i" by (simp add: sint_sbintrunc')
  with assms show ?thesis by (simp add: signed_take_bit_int_eq_self)
qed

lemma to_gint32_id: "- (2 ^ 31) \<le> i \<Longrightarrow> i < 2 ^ 31 \<Longrightarrow> to_gint32 i = i"
  unfolding to_gint32_def by (rule sint_word_of_int_eq_self)

lemma strrchr_absent: "c \<notin> set ys \<Longrightarrow> strrchr ys c = None"
  by (induction ys) auto

lemma strrchr_append_absent:
  "c \<notin> set ys \<Longrightarrow> strrchr (xs @ c # ys) c = Some (length xs)"
  by (induction xs) (simp_all add: strrchr_absent)

lemma no_dash_digits: "list_all is_digit s \<Longrightarrow> CHR ''-'' \<notin> set s"
  by (auto simp: list_all_iff dest: digit_not_sign)

lemma fmt_nonneg_digits: "0 \<le> i \<Longrightarrow> list_all is_digit (fmt_010d i)"
  by (simp add: fmt_010d_def zpad_all dec_digits_all)

lemma extract_id_nonneg:
  assumes "0 \<le> i" "i < 2 ^ 31" "key = [] \<or> last key \<noteq> CHR ''-''"
  shows "extract_id False (key @ CHR ''-'' # fmt_010d i) = (True, Some i, False)"
proof -
  have "strrchr (key @ CHR ''-'' # fmt_010d i) (CHR ''-'') = Some (length key)"
    using assms by (simp add: strrchr_append_absent no_dash_digits fmt_nonneg_digits)
  moreover have "\<not> (length key > 0 \<and> (key @ CHR ''-'' # fmt_010d i) ! (length key - 1) = CHR ''-'')"
    using assms(3) by (cases key rule: rev_cases) (auto simp: nth_append)
  ultimately show ?thesis
    using assms by (auto simp: extract_id_def strtoll_fmt to_gint32_id)
qed

lemma extract_id_neg:
  assumes "- (2 ^ 31) \<le> i" "i < 0"
  shows "extract_id False (key @ CHR ''-'' # fmt_010d i) = (True, Some i, False)"
proof -
  let ?ds = "zpad 9 (dec_digits (nat (- i)))"
  have fmt: "fmt_010d i = CHR ''-'' # ?ds" using assms by (simp add: fmt_010d_def)
  have "strrchr ((key @ [CHR ''-'']) @ CHR ''-'' # ?ds) (CHR ''-'')
        = Some (length (key @ [CHR ''-'']))"
    by (rule strrchr_append_absent) (simp add: no_dash_digits zpad_all dec_digits_all)
  then have "strrchr (key @ CHR ''-'' # fmt_010d i) (CHR ''-'') = Some (Suc (length key))"
    by (simp add: fmt)
  moreover have "strtoll (fmt_010d i) = (i, [], False)" using assms by (simp add: strtoll_fmt)
  ultimately show ?thesis
    using assms by (simp add: extract_id_def fmt nth_append to_gint32_id)
qed

lemma has_prefix_append [simp]: "has_prefix (p @ s) p"
  by (simp add: has_prefix_def)

text \<open>
  No node of the election in the listing has a sequence number that overflows 64 bits.
\<close>

definition nodes_in_range :: "string list \<Rightarrow> string \<Rightarrow> bool" where
  "nodes_in_range sv key \<longleftrightarrow>
     (\<forall>s \<in> set sv. has_prefix s key \<longrightarrow> \<not> snd (snd (extract_id False s)))"

lemma set_nodev_ids:
  assumes "nodes_in_range sv key"
  shows "set (nodev_ids False sv key)
    = {i. \<exists>s \<in> set sv. has_prefix s key \<and> extract_id False s = (True, Some i, False)}"
  using assms
proof (induction sv)
  case (Cons s sv)
  then have IH: "set (nodev_ids False sv key)
    = {i. \<exists>s \<in> set sv. has_prefix s key \<and> extract_id False s = (True, Some i, False)}"
    by (simp add: nodes_in_range_def)
  obtain ok i er where x: "extract_id False s = (ok, i, er)" by (cases "extract_id False s") auto
  have "has_prefix s key \<Longrightarrow> \<not> er" using Cons.prems x by (simp add: nodes_in_range_def)
  with IH x show ?case by (cases ok; cases i; cases er) auto
qed simp

lemma hd_sorted_le: "sorted xs \<Longrightarrow> x \<in> set xs \<Longrightarrow> hd xs \<le> x"
  by (cases xs) auto

text \<open>Once \<^verbatim>\<open>errno\<close> is \<^verbatim>\<open>ERANGE\<close>, every node is refused.\<close>

lemma nodev_ids_erange: "nodev_ids True sv key = []"
  by (induction sv) (auto simp: extract_id_def Let_def split: option.splits prod.splits)

lemma dec_digits_7: "dec_digits 7 = ''7''"
  by (subst dec_digits.simps) (simp add: char_of_def bit_0)

lemma replicate_0_9: "replicate 9 (CHR ''0'') = ''000000000''"
  by code_simp

lemma fmt_010d_7: "fmt_010d 7 = ''0000000007''"
  by (simp add: fmt_010d_def zpad_def dec_digits_7 replicate_0_9)

lemma extract_id_7: "extract_id False ''AB-0000000007'' = (True, Some 7, False)"
  using extract_id_nonneg[of 7 "''AB''"] by (simp add: fmt_010d_7)

section \<open>Properties\<close>

text \<open>
  C35: the sequence number of a member survives the trip through ZooKeeper: for every 32-bit
  number, negative ones (a wrapped sequence counter) included, \<^verbatim>\<open>_extract_id\<close> accepts the
  name printed by \<^verbatim>\<open>member_fullpath\<close> and returns the member's own number, provided the
  election key does not itself end with a dash and \<^verbatim>\<open>errno\<close> was not \<^verbatim>\<open>ERANGE\<close>.
\<close>

theorem extract_id_member_fullpath:
  assumes "flag_local_id m" "- (2 ^ 31) \<le> local_id m" "local_id m < 2 ^ 31"
    and "m_key m = [] \<or> last (m_key m) \<noteq> CHR ''-''"
  shows "extract_id False (member_fullpath m) = (True, Some (local_id m), False)"
  using assms extract_id_nonneg[of "local_id m" "m_key m"] extract_id_neg[of "local_id m" "m_key m"]
  by (cases "local_id m < 0") (simp_all add: member_fullpath_def)

theorem extract_id_member_fullpath_witness:
  "extract_id False
     (member_fullpath ((new_member ''AB'' (Some 0) 5 9 None)\<lparr>local_id := - 3, flag_local_id := True\<rparr>))
   = (True, Some (- 3), False)"
  using extract_id_member_fullpath
    [of "(new_member ''AB'' (Some 0) 5 9 None)\<lparr>local_id := - 3, flag_local_id := True\<rparr>"]
  by (simp add: new_member_def)

text \<open>
  The leader elected among the children of the election's directory is the sibling with
  the smallest sequence number: \<^verbatim>\<open>nodev_to_int32v\<close> is non-empty as soon as one child is a
  well-formed node of the election, and its first element is a number of such a child that no
  other well-formed child undercuts.
\<close>

theorem nodev_first_is_least:
  assumes "nodes_in_range sv key"
    and "s \<in> set sv" "has_prefix s key" "extract_id False s = (True, Some i, False)"
  shows "nodev_to_int32v False sv key \<noteq> []
     \<and> hd (nodev_to_int32v False sv key) \<le> i
     \<and> (\<exists>s' \<in> set sv. has_prefix s' key
          \<and> extract_id False s' = (True, Some (hd (nodev_to_int32v False sv key)), False))"
proof -
  have i: "i \<in> set (nodev_to_int32v False sv key)"
    using assms by (auto simp: nodev_to_int32v_def set_nodev_ids)
  then have ne: "nodev_to_int32v False sv key \<noteq> []" by auto
  then have "hd (nodev_to_int32v False sv key) \<in> set (nodev_ids False sv key)"
    by (metis hd_in_set nodev_to_int32v_def set_sort)
  with i ne assms(1) show ?thesis
    by (auto simp: set_nodev_ids hd_sorted_le nodev_to_int32v_def)
qed

theorem nodev_first_is_least_witness:
  "hd (nodev_to_int32v False [''CD-0000000001'', ''AB-0000000007''] ''AB'') \<le> 7"
  using nodev_first_is_least
      [of "[''CD-0000000001'', ''AB-0000000007'']" "''AB''" "''AB-0000000007''" 7]
  by (simp add: has_prefix_def nodes_in_range_def extract_id_7)

text \<open>
  A single listed node of the election whose number overflows 64 bits hides every sibling
  listed after it: \<^verbatim>\<open>errno\<close> stays \<^verbatim>\<open>ERANGE\<close> for the rest of the loop and
  \<^verbatim>\<open>_extract_id\<close> refuses them all, so the elected minimum ignores them.
\<close>

theorem nodev_overflow_hides_siblings:
  assumes "has_prefix s key" "snd (snd (extract_id False s))"
  shows "nodev_to_int32v False (pre @ s # post) key = nodev_to_int32v False pre key"
proof -
  have tail: "nodev_ids er (s # post) key = []" for er
  proof -
    have "\<not> fst (extract_id er s) \<and> snd (snd (extract_id er s))"
      using assms(2) by (cases er) (auto simp: extract_id_def Let_def split: option.splits prod.splits)
    with assms(1) show ?thesis
      by (cases "extract_id er s" rule: prod_cases3) (simp add: nodev_ids_erange)
  qed
  have "nodev_ids er (pre @ s # post) key = nodev_ids er pre key" for er
  proof (induction pre arbitrary: er)
    case (Cons a pre)
    then show ?case
      by (cases "extract_id er a" rule: prod_cases3) (auto split: bool.splits option.splits)
  qed (use tail in simp)
  then show ?thesis by (simp add: nodev_to_int32v_def)
qed

theorem nodev_overflow_hides_siblings_witness:
  "nodev_to_int32v False [''AB-0000000007'', ''AB-99999999999999999999'', ''AB-0000000001''] ''AB''
   = nodev_to_int32v False [''AB-0000000007''] ''AB''"
proof -
  have "strrchr ''AB-99999999999999999999'' (CHR ''-'') = Some 2" by simp
  moreover have "strtoll ''99999999999999999999'' = (2 ^ 63 - 1, [], True)"
    by (rule strtoll_overflow) (simp_all add: is_digit_def parse_nat_def digit_val_def)
  ultimately have "snd (snd (extract_id False ''AB-99999999999999999999''))"
    by (simp add: extract_id_def)
  then show ?thesis
    using nodev_overflow_hides_siblings
      [of "''AB-99999999999999999999''" "''AB''" "[''AB-0000000007'']" "[''AB-0000000001'']"]
    by (simp add: has_prefix_def)
qed

end
