(* ===== verification/Election_Actions.thy ===== *)
theory Election_Actions
  imports Election_Path
begin

text \<open>
  The actions of the election state machine (\<^verbatim>\<open>sqliterepo/election.c\<close>): the macros that
  reset parts of a member, \<^verbatim>\<open>member_set_status\<close>, \<^verbatim>\<open>defer_USE\<close>, and one definition per
  \<^verbatim>\<open>member_action_to_*\<close> and \<^verbatim>\<open>member_finish_*\<close>, in the order of the source.

  Two actions may call back \<^verbatim>\<open>transition(member, EVT_DISCONNECTED, NULL)\<close>, which is defined
  on top of them.  That call is the parameter \<open>d\<close> of the actions; theory
  \<^theory_text>\<open>Election_React\<close> ties the knot.  The parameter \<open>e\<close> is the environment of the reaction.
\<close>

section \<open>Macros on a member\<close>

definition G_TIME_SPAN_SECOND :: time where
  "G_TIME_SPAN_SECOND = 1000000"

definition is_over :: "time \<Rightarrow> time \<Rightarrow> time \<Rightarrow> bool" where
  "is_over nw last_date delay \<longleftrightarrow> delay > 0 \<and> last_date > 0 \<and> last_date < OLDEST nw delay"

definition member_has_getvers :: "member \<Rightarrow> bool" where
  "member_has_getvers m \<longleftrightarrow>
     count_GETVERS m > 0 \<or> pending_GETVERS m > 0 \<or> outdated_GETVERS m > 0
     \<or> concurrent_GETVERS m > 0 \<or> errors_GETVERS m > 0"

definition member_has_action :: "member \<Rightarrow> bool" where
  "member_has_action m \<longleftrightarrow>
     pending_GETVERS m > 0 \<or> pending_PIPEFROM m \<or> pending_ZK_CREATE m \<or> pending_ZK_EXISTS m
     \<or> pending_ZK_LIST m \<or> pending_ZK_GET m \<or> pending_ZK_DELETE m"

definition member_ref :: "member \<Rightarrow> member" where
  "member_ref m = m\<lparr>refcount := refcount m + 1\<rparr>"

definition member_unref :: "member \<Rightarrow> member" where
  "member_unref m = m\<lparr>refcount := refcount m - 1\<rparr>"

definition member_reset_peers :: "member \<Rightarrow> member" where
  "member_reset_peers m = m\<lparr>peers := None\<rparr>"

definition member_set_master_url :: "string option \<Rightarrow> member \<Rightarrow> member" where
  "member_set_master_url u m = m\<lparr>master_url := u\<rparr>"

definition member_reset_local :: "member \<Rightarrow> member" where
  "member_reset_local m = m\<lparr>local_id := 0, flag_local_id := False\<rparr>"

definition member_reset_master :: "member \<Rightarrow> member" where
  "member_reset_master m = m\<lparr>master_id := 0, flag_master_id := False, master_url := None\<rparr>"

definition member_set_local_id :: "int \<Rightarrow> member \<Rightarrow> member" where
  "member_set_local_id i m = m\<lparr>local_id := i, flag_local_id := True\<rparr>"

definition member_set_master_id :: "int \<Rightarrow> member \<Rightarrow> member" where
  "member_set_master_id i m =
     (if flag_master_id m then member_set_master_url None m else m)
       \<lparr>master_id := i, flag_master_id := True\<rparr>"

definition member_reset_getvers :: "member \<Rightarrow> member" where
  "member_reset_getvers m =
     m\<lparr>pending_GETVERS := 0, count_GETVERS := 0, concurrent_GETVERS := 0,
       outdated_GETVERS := 0, errors_GETVERS := 0\<rparr>"

definition member_reset_pending :: "member \<Rightarrow> member" where
  "member_reset_pending m =
     m\<lparr>pending_PIPEFROM := False, pending_ZK_CREATE := False, pending_ZK_EXISTS := False,
       pending_ZK_LIST := False, pending_ZK_GET := False, pending_ZK_DELETE := False\<rparr>"

definition member_reset :: "member \<Rightarrow> member" where
  "member_reset m =
     member_reset_peers (member_reset_pending (member_reset_getvers
       (member_reset_master (member_reset_local m))))"

lemmas member_macros [election_defs] =
  member_ref_def member_unref_def member_reset_peers_def member_set_master_url_def
  member_reset_local_def member_reset_master_def member_set_local_id_def
  member_set_master_id_def member_reset_getvers_def member_reset_pending_def member_reset_def

section \<open>State of a reaction\<close>

definition on_mb :: "(member \<Rightarrow> member) \<Rightarrow> est \<Rightarrow> est" where
  "on_mb f s = s\<lparr>mb := f (mb s)\<rparr>"

definition emit :: "outmsg \<Rightarrow> est \<Rightarrow> est" where
  "emit o1 s = s\<lparr>outs := outs s @ [o1]\<rparr>"

text \<open>Sending a message through the peering client (\<^verbatim>\<open>deferred_peering_notify |= ...\<close>).\<close>

definition emit_peer :: "env \<Rightarrow> string option \<Rightarrow> outmsg \<Rightarrow> est \<Rightarrow> est" where
  "emit_peer e target o1 s = (emit o1 s)\<lparr>notify := notify s \<or> peering_accepts e target\<rparr>"

definition fault_if :: "bool \<Rightarrow> est \<Rightarrow> est" where
  "fault_if b s = (if b then s\<lparr>crashed := True\<rparr> else s)"

lemmas est_ops [election_defs] = on_mb_def emit_def emit_peer_def fault_if_def

definition member_set_status :: "env \<Rightarrow> step \<Rightarrow> est \<Rightarrow> est" where
  "member_set_status e post s =
     (let m = mb s;
          pre = step_of m;
          m1 = (if pre \<noteq> post then m\<lparr>last_status := now e\<rparr> else m);
          s1 = s\<lparr>mb := m1\<lparr>step_of := post\<rparr>,
                 queues_of := DEQUE_add post (m_key m) (DEQUE_remove pre (m_key m) (queues_of s))\<rparr>
      in if STATUS_FINAL post then emit (OutSignal (m_key m)) s1
         else if post = STEP_NONE then emit (OutSignal (m_key m)) s1
         else s1)"

definition member_log_event :: "env \<Rightarrow> step \<Rightarrow> event \<Rightarrow> est \<Rightarrow> est" where
  "member_log_event e pre evt s =
     (let m = mb s;
          i = unat (log_index m) mod EVENTLOG_SIZE
      in s\<lparr>mb := m\<lparr>log_index := log_index m + 1,
                   m_log := (m_log m)[i := \<lparr>log_time = real_ms e mod 2 ^ 48, log_event = evt,
                                            log_pre = pre, log_post = step_of m\<rparr>]\<rparr>\<rparr>)"

definition member_log_change :: "env \<Rightarrow> event \<Rightarrow> (est \<Rightarrow> est) \<Rightarrow> est \<Rightarrow> est" where
  "member_log_change e evt action s =
     (let pre = step_of (mb s);
          s1 = action s;
          post = step_of (mb s1)
      in if evt \<noteq> EVT_NONE \<or> pre \<noteq> post then member_log_event e pre evt s1 else s1)"

section \<open>Messages to the peers\<close>

fun strjoinv :: "string \<Rightarrow> string list \<Rightarrow> string" where
  "strjoinv sep [] = []"
| "strjoinv sep [x] = x"
| "strjoinv sep (x # y # xs) = x @ sep @ strjoinv sep (y # xs)"

definition peer_list :: "member \<Rightarrow> string list" where
  "peer_list m = (case peers m of None \<Rightarrow> [] | Some ps \<Rightarrow> ps)"

text \<open>
  \<^verbatim>\<open>_member_all_peers\<close> fills an array of 64 pointers with at most 63 peers, then the local
  address, then a NULL: with 63 peers or more the NULL is written past the end of the array.
\<close>

definition member_all_peers :: "env \<Rightarrow> member \<Rightarrow> string" where
  "member_all_peers e m = strjoinv '','' (take 63 (peer_list m) @ [local_url e])"

definition all_peers_overflow :: "member \<Rightarrow> bool" where
  "all_peers_overflow m \<longleftrightarrow> length (take 63 (peer_list m)) + 1 \<ge> 64"

definition send_USE :: "env \<Rightarrow> string \<Rightarrow> bool \<Rightarrow> string list \<Rightarrow> est \<Rightarrow> est" where
  "send_USE e all_peers master ps s =
     fold (\<lambda>p. emit_peer e (Some p) (OutUse p all_peers master)) ps s"

definition defer_USE :: "env \<Rightarrow> bool \<Rightarrow> est \<Rightarrow> bool \<times> est" where
  "defer_USE e master s =
     (if \<not> master \<and> now e - last_USE (mb s) < G_TIME_SPAN_SECOND then (True, s)
      else (case peers (mb s) of
              None \<Rightarrow> (True, s)
            | Some ps \<Rightarrow>
                let s1 = fault_if (all_peers_overflow (mb s)) s;
                    s2 = on_mb (\<lambda>m. m\<lparr>last_USE := now e\<rparr>) s1
                in (True, send_USE e (member_all_peers e (mb s)) master ps s2)))"

section \<open>Actions\<close>

definition member_action_to_NONE :: "env \<Rightarrow> est \<Rightarrow> est" where
  "member_action_to_NONE e s =
     member_set_status e STEP_NONE
       (on_mb (\<lambda>m. (member_reset_peers m)\<lparr>when_unstable := 0\<rparr>) s)"

definition member_action_to_FAILED :: "env \<Rightarrow> est \<Rightarrow> est" where
  "member_action_to_FAILED e s =
     member_set_status e STEP_FAILED
       (on_mb (\<lambda>m. (member_reset_peers (member_reset_master (member_reset_local m)))
                     \<lparr>last_USE := now e\<rparr>) s)"

definition member_fail_on_error :: "(est \<Rightarrow> est) \<Rightarrow> env \<Rightarrow> zrc \<Rightarrow> est \<Rightarrow> est" where
  "member_fail_on_error d e zrc s =
     (if zoo_disconnected zrc then d s else member_action_to_FAILED e s)"

definition common_action_to_LEAVE :: "(est \<Rightarrow> est) \<Rightarrow> env \<Rightarrow> step \<Rightarrow> est \<Rightarrow> est" where
  "common_action_to_LEAVE d e evt s =
     (let s1 = on_mb (\<lambda>m. m\<lparr>requested_LEAVE := False, requested_LEFT_SELF := False,
                              requested_LEFT_MASTER := False,
                              when_unstable := (if when_unstable m \<le> 0 then now e
                                                else when_unstable m)\<rparr>) s;
          s2 = (if zoo_35 e
                then (case member_masterpath (mb s1) of
                        Some path \<Rightarrow> emit (OutZkDelWatch path) s1
                      | None \<Rightarrow> s1)
                else s1);
          path = member_fullpath (mb s2);
          s3 = (if zoo_35 e then emit (OutZkDelWatch path) s2 else s2);
          s4 = emit (OutZkDelete path) s3
      in if zrc_delete e \<noteq> ZOK then member_fail_on_error d e (zrc_delete e) s4
         else member_set_status e evt
                (on_mb (\<lambda>m. member_reset_peers (member_reset_master (member_ref
                               (m\<lparr>pending_ZK_DELETE := True\<rparr>)))) s4))"

definition member_action_to_LEAVING :: "(est \<Rightarrow> est) \<Rightarrow> env \<Rightarrow> est \<Rightarrow> est" where
  "member_action_to_LEAVING d e s = common_action_to_LEAVE d e STEP_LEAVING s"

definition member_action_to_LEAVING_FAILING :: "(est \<Rightarrow> est) \<Rightarrow> env \<Rightarrow> est \<Rightarrow> est" where
  "member_action_to_LEAVING_FAILING d e s = common_action_to_LEAVE d e STEP_LEAVING_FAILING s"

definition member_leave_on_error :: "(est \<Rightarrow> est) \<Rightarrow> env \<Rightarrow> zrc \<Rightarrow> est \<Rightarrow> est" where
  "member_leave_on_error d e zrc s =
     (if zoo_disconnected zrc then d s else member_action_to_LEAVING_FAILING d e s)"

definition member_action_to_CREATING :: "(est \<Rightarrow> est) \<Rightarrow> env \<Rightarrow> est \<Rightarrow> est" where
  "member_action_to_CREATING d e s =
     (let s1 = on_mb (\<lambda>m. m\<lparr>requested_USE := False,
                              when_unstable := (if when_unstable m \<le> 0 then now e
                                                else when_unstable m)\<rparr>) s
      in if exiting s1 then member_action_to_NONE e s1
         else let (ok, s2) = defer_USE e False s1
              in if \<not> ok then member_action_to_FAILED e s2
                 else let s3 = emit (OutZkCreate (member_fullpath (mb s2)) (local_url e)) s2
                      in if zrc_create e \<noteq> ZOK then member_fail_on_error d e (zrc_create e) s3
                         else member_set_status e STEP_CREATING
                                (on_mb (\<lambda>m. member_ref (m\<lparr>generation_id := generation_id m + 1,
                                                            pending_ZK_CREATE := True\<rparr>)) s3))"

text \<open>
  \<^verbatim>\<open>_member_react_PEERING\<close>, which \<^verbatim>\<open>member_action_to_PEERING\<close> calls directly when the
  peers are already known (hence its forward declaration in the source).
\<close>

definition member_react_PEERING ::
  "(est \<Rightarrow> est) \<Rightarrow> env \<Rightarrow> event \<Rightarrow> string list option \<Rightarrow> est \<Rightarrow> est" where
  "member_react_PEERING d e evt ps s =
     (case evt of
        EVT_SYNC_REQ \<Rightarrow> on_mb (\<lambda>m. m\<lparr>requested_PIPEFROM := True\<rparr>) s
      | EVT_GETPEERS_DONE \<Rightarrow>
          let s1 = on_mb (\<lambda>m. (member_reset_peers m)\<lparr>peers := ps\<rparr>) s
          in if peers (mb s1) = None then member_action_to_FAILED e s1
             else member_action_to_CREATING d e s1
      | _ \<Rightarrow> s)"

definition member_action_to_PEERING :: "(est \<Rightarrow> est) \<Rightarrow> env \<Rightarrow> est \<Rightarrow> est" where
  "member_action_to_PEERING d e s =
     (let s1 = on_mb (\<lambda>m. m\<lparr>when_unstable := now e\<rparr>) s
      in case peers (mb s1) of
           Some ps \<Rightarrow>
             member_react_PEERING d e EVT_GETPEERS_DONE (Some ps)
               (member_set_status e STEP_PEERING (on_mb (\<lambda>m. m\<lparr>peers := None\<rparr>) s1))
         | None \<Rightarrow> member_set_status e STEP_PEERING (emit OutGetpeers (on_mb member_ref s1)))"

definition member_action_START :: "(est \<Rightarrow> est) \<Rightarrow> env \<Rightarrow> est \<Rightarrow> est" where
  "member_action_START d e s = member_action_to_PEERING d e s"

definition member_action_to_WATCHING :: "(est \<Rightarrow> est) \<Rightarrow> env \<Rightarrow> est \<Rightarrow> est" where
  "member_action_to_WATCHING d e s =
     (let s1 = emit (OutZkExists (member_fullpath (mb s)) (generation_id (mb s))) s
      in if zrc_exists e \<noteq> ZOK then member_leave_on_error d e (zrc_exists e) s1
         else member_set_status e STEP_WATCHING
                (on_mb (\<lambda>m. member_ref (m\<lparr>pending_ZK_EXISTS := True\<rparr>)) s1))"

definition member_action_to_LISTING :: "(est \<Rightarrow> est) \<Rightarrow> env \<Rightarrow> est \<Rightarrow> est" where
  "member_action_to_LISTING d e s =
     (let s1 = on_mb (\<lambda>m. member_reset_master (m\<lparr>requested_LEFT_MASTER := False\<rparr>)) s;
          s2 = emit (OutZkList (member_fullpath (mb s1))) s1
      in if zrc_list e \<noteq> ZOK then member_leave_on_error d e (zrc_list e) s2
         else member_set_status e STEP_LISTING
                (on_mb (\<lambda>m. member_ref
                   (m\<lparr>when_unstable := (if when_unstable m = 0 then now e else when_unstable m),
                      pending_ZK_LIST := True\<rparr>)) s2))"

definition member_action_to_ASKING :: "(est \<Rightarrow> est) \<Rightarrow> env \<Rightarrow> est \<Rightarrow> est" where
  "member_action_to_ASKING d e s =
     (case member_masterpath (mb s) of
        None \<Rightarrow> fault_if True s
      | Some path \<Rightarrow>
          let s1 = emit (OutZkGet path (generation_id (mb s))) s
          in if zrc_get e \<noteq> ZOK then member_leave_on_error d e (zrc_get e) s1
             else member_set_status e STEP_ASKING
                    (on_mb (\<lambda>m. member_ref (m\<lparr>pending_ZK_GET := True\<rparr>)) s1))"

definition member_action_to_SYNCING :: "env \<Rightarrow> est \<Rightarrow> est" where
  "member_action_to_SYNCING e s =
     (let source = master_url (mb s);
          s1 = on_mb (\<lambda>m. member_ref (m\<lparr>requested_PIPEFROM := False, pending_PIPEFROM := True,
                                         when_unstable := now e\<rparr>)) s
      in member_set_status e STEP_SYNCING
           (emit_peer e (Some (local_url e))
              (OutPipefrom (local_url e) source (db_check_type (mb s1))) s1))"

definition member_action_to_REFRESH_CHECKING_MASTER :: "env \<Rightarrow> est \<Rightarrow> est" where
  "member_action_to_REFRESH_CHECKING_MASTER e s =
     member_set_status e STEP_REFRESH_CHECKING_MASTER (emit OutGetpeers (on_mb member_ref s))"

definition member_action_to_DELAYED_CHECKING_MASTER :: "env \<Rightarrow> est \<Rightarrow> est" where
  "member_action_to_DELAYED_CHECKING_MASTER e s =
     member_set_status e STEP_DELAYED_CHECKING_MASTER s"

definition member_action_to_REFRESH_CHECKING_SLAVES :: "env \<Rightarrow> est \<Rightarrow> est" where
  "member_action_to_REFRESH_CHECKING_SLAVES e s =
     member_set_status e STEP_REFRESH_CHECKING_SLAVES (emit OutGetpeers (on_mb member_ref s))"

definition member_action_to_DELAYED_CHECKING_SLAVES :: "env \<Rightarrow> est \<Rightarrow> est" where
  "member_action_to_DELAYED_CHECKING_SLAVES e s =
     member_set_status e STEP_DELAYED_CHECKING_SLAVES s"

definition member_action_to_CHECKING_MASTER :: "env \<Rightarrow> est \<Rightarrow> est" where
  "member_action_to_CHECKING_MASTER e s =
     (let s1 = on_mb (\<lambda>m. m\<lparr>attempts_GETVERS :=
                               (if step_of m = STEP_ASKING then of_nat (getvers_attempts e)
                                else attempts_GETVERS m),
                             count_GETVERS := 1, pending_GETVERS := 1, outdated_GETVERS := 0,
                             concurrent_GETVERS := 0, errors_GETVERS := 0\<rparr>) s;
          all_peers = member_all_peers e (mb s1);
          s2 = on_mb member_ref (fault_if (all_peers_overflow (mb s1)) s1)
      in member_set_status e STEP_CHECKING_MASTER
           (emit_peer e (master_url (mb s2)) (OutGetvers (master_url (mb s2)) all_peers) s2))"

definition send_GETVERS :: "env \<Rightarrow> string \<Rightarrow> string list \<Rightarrow> est \<Rightarrow> est" where
  "send_GETVERS e all_peers ps s =
     fold (\<lambda>p s. emit_peer e (Some p) (OutGetvers (Some p) all_peers) (on_mb member_ref s)) ps s"

definition member_action_to_CHECKING_SLAVES :: "env \<Rightarrow> est \<Rightarrow> est" where
  "member_action_to_CHECKING_SLAVES e s =
     (let s1 = on_mb (\<lambda>m. m\<lparr>attempts_GETVERS :=
                               (if step_of m \<noteq> STEP_CHECKING_SLAVES then of_nat (getvers_attempts e)
                                else attempts_GETVERS m)\<rparr>) s
      in case peers (mb s1) of
           None \<Rightarrow> fault_if True s1
         | Some ps \<Rightarrow>
             let s2 = on_mb (\<lambda>m. m\<lparr>count_GETVERS := of_nat (length ps),
                                     pending_GETVERS := of_nat (length ps),
                                     concurrent_GETVERS := 0, outdated_GETVERS := 0,
                                     errors_GETVERS := 0\<rparr>) s1;
                 s3 = fault_if (all_peers_overflow (mb s2)) s2
             in member_set_status e STEP_CHECKING_SLAVES
                  (send_GETVERS e (member_all_peers e (mb s2)) ps s3))"

definition member_action_to_MASTER :: "env \<Rightarrow> est \<Rightarrow> est" where
  "member_action_to_MASTER e s =
     member_set_status e STEP_MASTER
       (snd (defer_USE e True (on_mb (\<lambda>m. m\<lparr>when_unstable := 0\<rparr>) s)))"

definition member_action_to_SLAVE :: "env \<Rightarrow> est \<Rightarrow> est" where
  "member_action_to_SLAVE e s =
     member_set_status e STEP_SLAVE (on_mb (\<lambda>m. m\<lparr>when_unstable := 0\<rparr>) s)"

definition member_finish_CHECKING_MASTER :: "(est \<Rightarrow> est) \<Rightarrow> env \<Rightarrow> est \<Rightarrow> est" where
  "member_finish_CHECKING_MASTER d e s =
     (let s1 = on_mb (\<lambda>m. m\<lparr>pending_GETVERS := pending_GETVERS m - 1\<rparr>) s
      in if pending_GETVERS (mb s1) > 0 then s1
         else let m = mb s1;
                  outdated = outdated_GETVERS m;
                  errors = errors_GETVERS m;
                  concurrent = concurrent_GETVERS m;
                  node_left = requested_LEFT_SELF m;
                  master_change = requested_LEFT_MASTER m;
                  s2 = on_mb (\<lambda>m. (member_reset_getvers m)
                                \<lparr>requested_LEFT_SELF := False, requested_LEFT_MASTER := False\<rparr>) s1
              in if requested_LEAVE (mb s2) then member_action_to_LEAVING d e s2
                 else if master_change then member_action_to_LISTING d e s2
                 else if concurrent \<noteq> 0 then member_action_to_SYNCING e s2
                 else if outdated \<noteq> 0 then member_action_to_SYNCING e s2
                 else if node_left
                      then member_action_START d e
                             (on_mb (\<lambda>m. member_reset_master (member_reset_local m)) s2)
                 else if errors \<noteq> 0
                      then (if attempts_GETVERS (mb s2) = 0
                            then member_action_to_LEAVING_FAILING d e s2
                            else member_action_to_DELAYED_CHECKING_MASTER e
                                   (on_mb (\<lambda>m. m\<lparr>attempts_GETVERS := attempts_GETVERS m - 1\<rparr>) s2))
                 else member_action_to_SLAVE e s2)"

definition member_finish_CHECKING_SLAVES :: "(est \<Rightarrow> est) \<Rightarrow> env \<Rightarrow> est \<Rightarrow> est" where
  "member_finish_CHECKING_SLAVES d e s =
     (let s1 = on_mb (\<lambda>m. m\<lparr>pending_GETVERS := pending_GETVERS m - 1\<rparr>) s
      in if pending_GETVERS (mb s1) > 0 then s1
         else let m = mb s1;
                  asked = unat (count_GETVERS m);
                  outdated = unat (outdated_GETVERS m);
                  errors = unat (errors_GETVERS m);
                  concurrent = unat (concurrent_GETVERS m);
                  node_left = requested_LEFT_SELF m;
                  s2 = on_mb (\<lambda>m. (member_reset_getvers m)
                                \<lparr>requested_LEFT_SELF := False, requested_LEFT_MASTER := False\<rparr>) s1;
                  group_size = asked + 1
              in if requested_LEAVE (mb s2) then member_action_to_LEAVING d e s2
                 else if node_left
                      then member_action_START d e
                             (on_mb (\<lambda>m. member_reset_master (member_reset_local m)) s2)
                 else if concurrent > 0 then member_action_to_LEAVING d e s2
                 else if outdated > 0 then member_action_to_LEAVING d e s2
                 else if errors > 0 \<and> errors \<ge> (group_size + 1) div 2
                      then (if attempts_GETVERS (mb s2) = 0
                            then member_action_to_LEAVING_FAILING d e s2
                            else member_action_to_DELAYED_CHECKING_SLAVES e
                                   (on_mb (\<lambda>m. m\<lparr>attempts_GETVERS := attempts_GETVERS m - 1\<rparr>) s2))
                 else member_action_to_MASTER e s2)"

end
