(* ===== verification/Election_React.thy ===== *)
theory Election_React
  imports Election_Actions Version Str
begin

text \<open>
  The reactions of the election state machine (\<^verbatim>\<open>sqliterepo/election.c\<close>): one definition
  per \<^verbatim>\<open>_member_react_*\<close>, the dispatch \<^verbatim>\<open>_member_react\<close>, \<^verbatim>\<open>transition\<close> and
  \<^verbatim>\<open>transition_error\<close>, and the completions that feed the machine with events: those of the
  ZooKeeper requests, of the exchanges of versions, of the resynchronisations and of the
  lookups of the peers.

  An abnormal event only logs a warning: the state is unchanged.  The assertions compiled under
  \<^verbatim>\<open>HAVE_EXTRA_ASSERT\<close> are not part of the reactions; theory \<^theory_text>\<open>Election_Inv\<close> states them.
\<close>

section \<open>Reactions by step\<close>

definition member_react_NONE :: "(est \<Rightarrow> est) \<Rightarrow> env \<Rightarrow> event \<Rightarrow> est \<Rightarrow> est" where
  "member_react_NONE d e evt s =
     (case evt of
        EVT_NONE \<Rightarrow>
          let s1 = on_mb (\<lambda>m. m\<lparr>requested_USE := False\<rparr>) s
          in if exiting s1 then s1 else member_action_START d e s1
      | EVT_SYNC_REQ \<Rightarrow> on_mb (\<lambda>m. m\<lparr>requested_PIPEFROM := True, requested_USE := True\<rparr>) s
      | _ \<Rightarrow> s)"

definition member_react_CREATING ::
  "(est \<Rightarrow> est) \<Rightarrow> env \<Rightarrow> event \<Rightarrow> int option \<Rightarrow> est \<Rightarrow> est" where
  "member_react_CREATING d e evt p_local_id s =
     (case evt of
        EVT_NONE \<Rightarrow>
          if is_over (now e) (last_status (mb s)) (delay_expire_pending e) \<or> requested_LEAVE (mb s)
          then member_action_to_FAILED e (on_mb (\<lambda>m. m\<lparr>pending_ZK_CREATE := False\<rparr>) s)
          else s
      | EVT_LEAVE_REQ \<Rightarrow> on_mb (\<lambda>m. m\<lparr>requested_LEAVE := True\<rparr>) s
      | EVT_SYNC_REQ \<Rightarrow> on_mb (\<lambda>m. m\<lparr>requested_PIPEFROM := True\<rparr>) s
      | EVT_CREATE_KO \<Rightarrow>
          member_action_to_FAILED e (on_mb (\<lambda>m. m\<lparr>pending_ZK_CREATE := False\<rparr>) s)
      | EVT_CREATE_OK \<Rightarrow>
          let s1 = on_mb (\<lambda>m. m\<lparr>pending_ZK_CREATE := False\<rparr>) s
          in (case p_local_id of
                None \<Rightarrow> fault_if True s1
              | Some i \<Rightarrow>
                  let s2 = on_mb (member_set_local_id i) s1
                  in if requested_LEAVE (mb s2) then member_action_to_LEAVING d e s2
                     else member_action_to_WATCHING d e s2)
      | _ \<Rightarrow> s)"

definition member_react_WATCHING :: "(est \<Rightarrow> est) \<Rightarrow> env \<Rightarrow> event \<Rightarrow> est \<Rightarrow> est" where
  "member_react_WATCHING d e evt s =
     (case evt of
        EVT_SYNC_REQ \<Rightarrow> on_mb (\<lambda>m. m\<lparr>requested_PIPEFROM := True\<rparr>) s
      | EVT_LEAVE_REQ \<Rightarrow> on_mb (\<lambda>m. m\<lparr>requested_LEAVE := True\<rparr>) s
      | EVT_LEFT_SELF \<Rightarrow> on_mb (\<lambda>m. m\<lparr>requested_LEFT_SELF := True\<rparr>) s
      | EVT_EXISTS_KO \<Rightarrow>
          member_action_to_LEAVING d e (on_mb (\<lambda>m. m\<lparr>pending_ZK_EXISTS := False\<rparr>) s)
      | EVT_EXISTS_OK \<Rightarrow>
          let s1 = on_mb (\<lambda>m. m\<lparr>pending_ZK_EXISTS := False\<rparr>) s
          in if requested_LEAVE (mb s1) then member_action_to_LEAVING d e s1
             else if requested_LEFT_SELF (mb s1)
             then member_action_START d e
                    (on_mb (\<lambda>m. (member_reset_local m)
                        \<lparr>requested_LEFT_SELF := False, requested_LEFT_MASTER := False\<rparr>) s1)
             else member_action_to_LISTING d e s1
      | _ \<Rightarrow> s)"

definition member_react_LISTING ::
  "(est \<Rightarrow> est) \<Rightarrow> env \<Rightarrow> event \<Rightarrow> int option \<Rightarrow> est \<Rightarrow> est" where
  "member_react_LISTING d e evt p_masterid s =
     (case evt of
        EVT_SYNC_REQ \<Rightarrow> on_mb (\<lambda>m. m\<lparr>requested_PIPEFROM := True\<rparr>) s
      | EVT_LEAVE_REQ \<Rightarrow> on_mb (\<lambda>m. m\<lparr>requested_LEAVE := True\<rparr>) s
      | EVT_LEFT_SELF \<Rightarrow> on_mb (\<lambda>m. m\<lparr>requested_LEFT_SELF := True\<rparr>) s
      | EVT_LIST_KO \<Rightarrow>
          member_action_to_LEAVING_FAILING d e (on_mb (\<lambda>m. m\<lparr>pending_ZK_LIST := False\<rparr>) s)
      | EVT_LIST_OK \<Rightarrow>
          let s1 = on_mb (\<lambda>m. m\<lparr>pending_ZK_LIST := False\<rparr>) s
          in if requested_LEAVE (mb s1) then member_action_to_LEAVING d e s1
             else if requested_LEFT_SELF (mb s1)
             then member_action_START d e
                    (on_mb (\<lambda>m. (member_reset_local m)
                        \<lparr>requested_LEFT_SELF := False, requested_LEFT_MASTER := False\<rparr>) s1)
             else (case p_masterid of
                     None \<Rightarrow> fault_if True s1
                   | Some i \<Rightarrow>
                       if local_id (mb s1) = i
                       then (if \<not> allow_master e
                             then member_action_to_LEAVING d e
                                    (on_mb (\<lambda>m. m\<lparr>requested_USE := True\<rparr>) s1)
                             else member_action_to_CHECKING_SLAVES e
                                    (on_mb (\<lambda>m. member_set_master_id (local_id m) m) s1))
                       else member_action_to_ASKING d e (on_mb (member_set_master_id i) s1))
      | _ \<Rightarrow> s)"

definition member_react_ASKING ::
  "(est \<Rightarrow> est) \<Rightarrow> env \<Rightarrow> event \<Rightarrow> string option \<Rightarrow> est \<Rightarrow> est" where
  "member_react_ASKING d e evt url s =
     (case evt of
        EVT_SYNC_REQ \<Rightarrow> on_mb (\<lambda>m. m\<lparr>requested_PIPEFROM := True\<rparr>) s
      | EVT_LEAVE_REQ \<Rightarrow> on_mb (\<lambda>m. m\<lparr>requested_LEAVE := True\<rparr>) s
      | EVT_LEFT_SELF \<Rightarrow> on_mb (\<lambda>m. m\<lparr>requested_LEFT_SELF := True\<rparr>) s
      | EVT_LEFT_MASTER \<Rightarrow> on_mb (\<lambda>m. m\<lparr>requested_LEFT_MASTER := True\<rparr>) s
      | EVT_MASTER_KO \<Rightarrow>
          let s1 = on_mb (\<lambda>m. m\<lparr>pending_ZK_GET := False\<rparr>) s
          in if requested_LEFT_SELF (mb s1) \<or> requested_LEAVE (mb s1)
             then member_action_to_LEAVING d e s1
             else if requested_LEFT_MASTER (mb s1) then member_action_to_LISTING d e s1
             else member_action_to_LEAVING_FAILING d e s1
      | EVT_MASTER_BAD \<Rightarrow>
          member_action_to_LEAVING_FAILING d e (on_mb (\<lambda>m. m\<lparr>pending_ZK_GET := False\<rparr>) s)
      | EVT_MASTER_OK \<Rightarrow>
          let s1 = on_mb (\<lambda>m. m\<lparr>pending_ZK_GET := False\<rparr>) s
          in if requested_LEAVE (mb s1) then member_action_to_LEAVING d e s1
             else if requested_LEFT_SELF (mb s1)
             then member_action_START d e
                    (on_mb (\<lambda>m. (member_reset_master (member_reset_local m))
                        \<lparr>requested_LEFT_SELF := False, requested_LEFT_MASTER := False\<rparr>) s1)
             else if requested_LEFT_MASTER (mb s1) then member_action_to_LISTING d e s1
             else member_action_to_CHECKING_MASTER e (on_mb (member_set_master_url url) s1)
      | _ \<Rightarrow> s)"

definition member_react_CHECKING_MASTER :: "(est \<Rightarrow> est) \<Rightarrow> env \<Rightarrow> event \<Rightarrow> est \<Rightarrow> est" where
  "member_react_CHECKING_MASTER d e evt s =
     (case evt of
        EVT_SYNC_REQ \<Rightarrow> on_mb (\<lambda>m. m\<lparr>requested_PIPEFROM := True\<rparr>) s
      | EVT_LEFT_MASTER \<Rightarrow> on_mb (\<lambda>m. m\<lparr>requested_LEFT_MASTER := True\<rparr>) s
      | EVT_LEFT_SELF \<Rightarrow> on_mb (\<lambda>m. m\<lparr>requested_LEFT_SELF := True\<rparr>) s
      | EVT_LEAVE_REQ \<Rightarrow> on_mb (\<lambda>m. m\<lparr>requested_LEAVE := True\<rparr>) s
      | EVT_GETVERS_OK \<Rightarrow> member_finish_CHECKING_MASTER d e s
      | EVT_GETVERS_OLD \<Rightarrow>
          member_finish_CHECKING_MASTER d e
            (on_mb (\<lambda>m. m\<lparr>outdated_GETVERS := outdated_GETVERS m + 1\<rparr>) s)
      | EVT_GETVERS_RACE \<Rightarrow>
          member_finish_CHECKING_MASTER d e
            (on_mb (\<lambda>m. m\<lparr>concurrent_GETVERS := concurrent_GETVERS m + 1\<rparr>) s)
      | EVT_GETVERS_KO \<Rightarrow>
          member_finish_CHECKING_MASTER d e
            (on_mb (\<lambda>m. m\<lparr>errors_GETVERS := errors_GETVERS m + 1\<rparr>) s)
      | _ \<Rightarrow> s)"

definition member_react_CHECKING_SLAVES :: "(est \<Rightarrow> est) \<Rightarrow> env \<Rightarrow> event \<Rightarrow> est \<Rightarrow> est" where
  "member_react_CHECKING_SLAVES d e evt s =
     (case evt of
        EVT_LEAVE_REQ \<Rightarrow> on_mb (\<lambda>m. m\<lparr>requested_LEAVE := True\<rparr>) s
      | EVT_LEFT_SELF \<Rightarrow> on_mb (\<lambda>m. m\<lparr>requested_LEFT_SELF := True\<rparr>) s
      | EVT_GETVERS_OK \<Rightarrow> member_finish_CHECKING_SLAVES d e s
      | EVT_GETVERS_OLD \<Rightarrow>
          member_finish_CHECKING_SLAVES d e
            (on_mb (\<lambda>m. m\<lparr>outdated_GETVERS := outdated_GETVERS m + 1\<rparr>) s)
      | EVT_GETVERS_RACE \<Rightarrow>
          member_finish_CHECKING_SLAVES d e
            (on_mb (\<lambda>m. m\<lparr>concurrent_GETVERS := concurrent_GETVERS m + 1\<rparr>) s)
      | EVT_GETVERS_KO \<Rightarrow>
          member_finish_CHECKING_SLAVES d e
            (on_mb (\<lambda>m. m\<lparr>errors_GETVERS := errors_GETVERS m + 1\<rparr>) s)
      | _ \<Rightarrow> s)"

definition member_react_LEAVING :: "(est \<Rightarrow> est) \<Rightarrow> env \<Rightarrow> event \<Rightarrow> est \<Rightarrow> est" where
  "member_react_LEAVING d e evt s =
     (case evt of
        EVT_NONE \<Rightarrow> on_mb (\<lambda>m. m\<lparr>requested_USE := \<not> exiting s\<rparr>) s
      | EVT_SYNC_REQ \<Rightarrow> on_mb (\<lambda>m. m\<lparr>requested_PIPEFROM := True, requested_USE := True\<rparr>) s
      | EVT_LEAVE_KO \<Rightarrow>
          member_action_to_LEAVING_FAILING d e (on_mb (\<lambda>m. m\<lparr>pending_ZK_DELETE := False\<rparr>) s)
      | EVT_LEAVE_OK \<Rightarrow>
          member_action_to_NONE e
            (on_mb (\<lambda>m. member_reset_master (member_reset_local
                     (m\<lparr>pending_ZK_DELETE := False\<rparr>))) s)
      | _ \<Rightarrow> s)"

definition member_react_LEAVING_FAILING :: "env \<Rightarrow> event \<Rightarrow> est \<Rightarrow> est" where
  "member_react_LEAVING_FAILING e evt s =
     (if evt = EVT_NONE then on_mb (\<lambda>m. m\<lparr>requested_USE := True\<rparr>) s
      else if evt = EVT_SYNC_REQ
      then on_mb (\<lambda>m. m\<lparr>requested_PIPEFROM := True, requested_USE := True\<rparr>) s
      else if evt = EVT_LEAVE_KO \<or> evt = EVT_LEAVE_OK
      then member_action_to_FAILED e
             (on_mb (\<lambda>m. member_reset_master (member_reset_local
                      (m\<lparr>pending_ZK_DELETE := False\<rparr>))) s)
      else s)"

definition member_react_SYNCING :: "(est \<Rightarrow> est) \<Rightarrow> env \<Rightarrow> event \<Rightarrow> est \<Rightarrow> est" where
  "member_react_SYNCING d e evt s =
     (if evt = EVT_LEAVE_REQ then on_mb (\<lambda>m. m\<lparr>requested_LEAVE := True\<rparr>) s
      else if evt = EVT_LEFT_SELF then on_mb (\<lambda>m. m\<lparr>requested_LEFT_SELF := True\<rparr>) s
      else if evt = EVT_LEFT_MASTER then on_mb (\<lambda>m. m\<lparr>requested_LEFT_MASTER := True\<rparr>) s
      else if evt = EVT_SYNC_OK \<or> evt = EVT_SYNC_KO
      then (let s1 = on_mb (\<lambda>m. m\<lparr>pending_PIPEFROM := False, db_check_type := - 1\<rparr>) s
            in if requested_LEAVE (mb s1) then member_action_to_LEAVING d e s1
               else if requested_LEFT_SELF (mb s1) then member_action_START d e s1
               else if requested_LEFT_MASTER (mb s1) then member_action_to_LISTING d e s1
               else member_action_to_SLAVE e s1)
      else s)"

definition member_react_REFRESH_CHECKING_MASTER ::
  "(est \<Rightarrow> est) \<Rightarrow> env \<Rightarrow> event \<Rightarrow> string list option \<Rightarrow> est \<Rightarrow> est" where
  "member_react_REFRESH_CHECKING_MASTER d e evt ps s =
     (case evt of
        EVT_SYNC_REQ \<Rightarrow> on_mb (\<lambda>m. m\<lparr>requested_PIPEFROM := True\<rparr>) s
      | EVT_LEAVE_REQ \<Rightarrow> on_mb (\<lambda>m. m\<lparr>requested_LEAVE := True\<rparr>) s
      | EVT_LEFT_SELF \<Rightarrow> on_mb (\<lambda>m. m\<lparr>requested_LEFT_SELF := True\<rparr>) s
      | EVT_LEFT_MASTER \<Rightarrow> on_mb (\<lambda>m. m\<lparr>requested_LEFT_MASTER := True\<rparr>) s
      | EVT_GETPEERS_DONE \<Rightarrow>
          let s1 = on_mb (\<lambda>m. (member_reset_peers m)\<lparr>peers := ps\<rparr>) s
          in if requested_LEAVE (mb s1) then member_action_to_LEAVING d e s1
             else if requested_LEFT_SELF (mb s1)
             then member_action_START d e
                    (on_mb (\<lambda>m. (member_reset_master (member_reset_local m))
                        \<lparr>requested_LEFT_SELF := False, requested_LEFT_MASTER := False,
                         requested_LEAVE := False\<rparr>) s1)
             else if requested_LEFT_MASTER (mb s1) then member_action_to_LISTING d e s1
             else if peers (mb s1) = None then member_action_to_LEAVING_FAILING d e s1
             else member_action_to_CHECKING_MASTER e s1
      | _ \<Rightarrow> s)"

definition member_react_DELAYED_CHECKING_SLAVES ::
  "(est \<Rightarrow> est) \<Rightarrow> env \<Rightarrow> event \<Rightarrow> est \<Rightarrow> est" where
  "member_react_DELAYED_CHECKING_SLAVES d e evt s =
     (case evt of
        EVT_NONE \<Rightarrow>
          if last_status (mb s) < OLDEST (now e) (getvers_delay e)
          then (if attempts_GETVERS (mb s) = 0 then member_action_to_LEAVING_FAILING d e s
                else let s1 = on_mb (\<lambda>m. m\<lparr>attempts_GETVERS := attempts_GETVERS m - 1\<rparr>) s
                     in if requested_peers_decache (mb s1)
                        then member_action_to_REFRESH_CHECKING_SLAVES e s1
                        else member_action_to_CHECKING_SLAVES e s1)
          else s
      | EVT_LEAVE_REQ \<Rightarrow>
          member_action_to_LEAVING d e (on_mb (\<lambda>m. m\<lparr>requested_LEAVE := False\<rparr>) s)
      | EVT_LEFT_SELF \<Rightarrow>
          member_action_to_CREATING d e
            (on_mb (\<lambda>m. (member_reset_master (member_reset_local m))
                \<lparr>requested_LEFT_SELF := False, requested_LEFT_MASTER := False\<rparr>) s)
      | _ \<Rightarrow> s)"

definition member_react_REFRESH_CHECKING_SLAVES ::
  "(est \<Rightarrow> est) \<Rightarrow> env \<Rightarrow> event \<Rightarrow> string list option \<Rightarrow> est \<Rightarrow> est" where
  "member_react_REFRESH_CHECKING_SLAVES d e evt ps s =
     (case evt of
        EVT_LEAVE_REQ \<Rightarrow> on_mb (\<lambda>m. m\<lparr>requested_LEAVE := True\<rparr>) s
      | EVT_LEFT_SELF \<Rightarrow> on_mb (\<lambda>m. m\<lparr>requested_LEFT_SELF := True\<rparr>) s
      | EVT_GETPEERS_DONE \<Rightarrow>
          let s1 = on_mb (\<lambda>m. (member_reset_peers m)\<lparr>peers := ps\<rparr>) s
          in if requested_LEAVE (mb s1) then member_action_to_LEAVING d e s1
             else if requested_LEFT_SELF (mb s1)
             then member_action_START d e
                    (on_mb (\<lambda>m. (member_reset_master (member_reset_local m))
                        \<lparr>requested_LEAVE := False, requested_LEFT_SELF := False,
                         requested_LEFT_MASTER := False\<rparr>) s1)
             else if peers (mb s1) = None then member_action_to_LEAVING_FAILING d e s1
             else member_action_to_CHECKING_SLAVES e s1
      | _ \<Rightarrow> s)"

definition member_react_DELAYED_CHECKING_MASTER ::
  "(est \<Rightarrow> est) \<Rightarrow> env \<Rightarrow> event \<Rightarrow> est \<Rightarrow> est" where
  "member_react_DELAYED_CHECKING_MASTER d e evt s =
     (case evt of
        EVT_NONE \<Rightarrow>
          if last_status (mb s) < OLDEST (now e) (getvers_delay e)
          then (if attempts_GETVERS (mb s) = 0 then member_action_to_LEAVING_FAILING d e s
                else let s1 = on_mb (\<lambda>m. m\<lparr>attempts_GETVERS := attempts_GETVERS m - 1\<rparr>) s
                     in if requested_peers_decache (mb s1)
                        then member_action_to_REFRESH_CHECKING_MASTER e s1
                        else member_action_to_CHECKING_MASTER e s1)
          else s
      | EVT_SYNC_REQ \<Rightarrow> on_mb (\<lambda>m. m\<lparr>requested_PIPEFROM := True\<rparr>) s
      | EVT_LEAVE_REQ \<Rightarrow>
          member_action_to_LEAVING d e (on_mb (\<lambda>m. m\<lparr>requested_LEAVE := False\<rparr>) s)
      | EVT_LEFT_SELF \<Rightarrow>
          member_action_to_CREATING d e
            (on_mb (\<lambda>m. (member_reset_master (member_reset_local m))
                \<lparr>requested_LEFT_SELF := False, requested_LEFT_MASTER := False\<rparr>) s)
      | EVT_LEFT_MASTER \<Rightarrow> member_action_to_LISTING d e s
      | _ \<Rightarrow> s)"

definition member_react_SLAVE :: "(est \<Rightarrow> est) \<Rightarrow> env \<Rightarrow> event \<Rightarrow> est \<Rightarrow> est" where
  "member_react_SLAVE d e evt s =
     (case evt of
        EVT_NONE \<Rightarrow>
          if is_over (now e) (last_atime (mb s)) (delay_expire_SLAVE e)
          then member_action_to_LEAVING d e s else s
      | EVT_LEAVE_REQ \<Rightarrow> member_action_to_LEAVING d e s
      | EVT_LEFT_SELF \<Rightarrow>
          member_action_START d e (on_mb (\<lambda>m. member_reset_master (member_reset_local m)) s)
      | EVT_LEFT_MASTER \<Rightarrow> member_action_to_LISTING d e s
      | EVT_SYNC_REQ \<Rightarrow> member_action_to_SYNCING e s
      | _ \<Rightarrow> s)"

definition member_react_MASTER :: "(est \<Rightarrow> est) \<Rightarrow> env \<Rightarrow> event \<Rightarrow> est \<Rightarrow> est" where
  "member_react_MASTER d e evt s =
     (case evt of
        EVT_NONE \<Rightarrow>
          if is_over (now e) (last_atime (mb s)) (delay_expire_MASTER e)
          then member_action_to_LEAVING d e s else s
      | EVT_LEAVE_REQ \<Rightarrow> member_action_to_LEAVING d e s
      | EVT_LEFT_SELF \<Rightarrow>
          member_action_START d e (on_mb (\<lambda>m. member_reset_master (member_reset_local m)) s)
      | _ \<Rightarrow> s)"

definition member_react_FAILED :: "(est \<Rightarrow> est) \<Rightarrow> env \<Rightarrow> event \<Rightarrow> est \<Rightarrow> est" where
  "member_react_FAILED d e evt s =
     (case evt of
        EVT_NONE \<Rightarrow>
          if is_over (now e) (last_status (mb s)) (delay_retry_FAILED e)
          then (if requested_USE (mb s) then member_action_START d e s
                else member_action_to_NONE e s)
          else s
      | EVT_LEAVE_REQ \<Rightarrow> member_action_to_NONE e (on_mb member_reset s)
      | EVT_SYNC_REQ \<Rightarrow> on_mb (\<lambda>m. m\<lparr>requested_PIPEFROM := True\<rparr>) s
      | _ \<Rightarrow> s)"

section \<open>Dispatch and transition\<close>

definition member_react :: "(est \<Rightarrow> est) \<Rightarrow> env \<Rightarrow> event \<Rightarrow> evt_arg \<Rightarrow> est \<Rightarrow> est" where
  "member_react d e evt arg s =
     (if evt = EVT_DISCONNECTED then member_action_to_NONE e (on_mb member_reset s)
      else case step_of (mb s) of
        STEP_NONE \<Rightarrow> member_react_NONE d e evt s
      | STEP_PEERING \<Rightarrow> member_react_PEERING d e evt (arg_peers arg) s
      | STEP_CREATING \<Rightarrow> member_react_CREATING d e evt (arg_id arg) s
      | STEP_WATCHING \<Rightarrow> member_react_WATCHING d e evt s
      | STEP_LISTING \<Rightarrow> member_react_LISTING d e evt (arg_id arg) s
      | STEP_ASKING \<Rightarrow> member_react_ASKING d e evt (arg_url arg) s
      | STEP_CHECKING_MASTER \<Rightarrow> member_react_CHECKING_MASTER d e evt s
      | STEP_CHECKING_SLAVES \<Rightarrow> member_react_CHECKING_SLAVES d e evt s
      | STEP_SYNCING \<Rightarrow> member_react_SYNCING d e evt s
      | STEP_DELAYED_CHECKING_MASTER \<Rightarrow> member_react_DELAYED_CHECKING_MASTER d e evt s
      | STEP_REFRESH_CHECKING_MASTER \<Rightarrow>
          member_react_REFRESH_CHECKING_MASTER d e evt (arg_peers arg) s
      | STEP_DELAYED_CHECKING_SLAVES \<Rightarrow> member_react_DELAYED_CHECKING_SLAVES d e evt s
      | STEP_REFRESH_CHECKING_SLAVES \<Rightarrow>
          member_react_REFRESH_CHECKING_SLAVES d e evt (arg_peers arg) s
      | STEP_LEAVING \<Rightarrow> member_react_LEAVING d e evt s
      | STEP_LEAVING_FAILING \<Rightarrow> member_react_LEAVING_FAILING e evt s
      | STEP_FAILED \<Rightarrow> member_react_FAILED d e evt s
      | STEP_SLAVE \<Rightarrow> member_react_SLAVE d e evt s
      | STEP_MASTER \<Rightarrow> member_react_MASTER d e evt s)"

text \<open>
  The body of \<^verbatim>\<open>transition\<close>, with the nested call on \<^verbatim>\<open>EVT_DISCONNECTED\<close> as its
  parameter \<open>d\<close>.  A nested call resets the member, so that it makes no further nested call:
  \<open>transition_disc\<close> is that call, whatever is given for its own nested calls, and
  \<open>transition\<close> uses it.  The equation of the source is the theorem \<open>transition_unfold\<close>.
\<close>

definition transition_with :: "(est \<Rightarrow> est) \<Rightarrow> env \<Rightarrow> event \<Rightarrow> evt_arg \<Rightarrow> est \<Rightarrow> est" where
  "transition_with d e evt arg s =
     (let s1 = member_log_change e evt (member_react d e evt arg) s
      in if step_of (mb s1) = STEP_NONE \<and> requested_USE (mb s1) \<and> \<not> exiting s1
         then member_log_change e EVT_NONE (member_react d e EVT_NONE NoArg) s1
         else s1)"

definition transition_disc :: "env \<Rightarrow> est \<Rightarrow> est" where
  "transition_disc e = transition_with (\<lambda>s. s) e EVT_DISCONNECTED NoArg"

definition transition :: "env \<Rightarrow> event \<Rightarrow> evt_arg \<Rightarrow> est \<Rightarrow> est" where
  "transition e evt arg s = transition_with (transition_disc e) e evt arg s"

definition transition_error :: "env \<Rightarrow> event \<Rightarrow> zrc \<Rightarrow> est \<Rightarrow> est" where
  "transition_error e evt zrc s =
     (if zoo_disconnected zrc then transition e EVT_DISCONNECTED NoArg s
      else transition e evt NoArg s)"

section \<open>Completions\<close>

definition completion_CREATING :: "env \<Rightarrow> zrc \<Rightarrow> bool \<Rightarrow> string option \<Rightarrow> est \<Rightarrow> est" where
  "completion_CREATING e zrc erange path s =
     (let local = (case path of
                     None \<Rightarrow> - 1
                   | Some p \<Rightarrow> (case extract_id erange p of (_, Some i, _) \<Rightarrow> i | _ \<Rightarrow> - 1));
          s1 = (if zrc \<noteq> ZOK then transition_error e EVT_CREATE_KO zrc s
                else transition e EVT_CREATE_OK (ArgId local) s)
      in on_mb member_unref s1)"

definition completion_WATCHING :: "env \<Rightarrow> zrc \<Rightarrow> est \<Rightarrow> est" where
  "completion_WATCHING e zrc s =
     (let s1 = (if zrc \<noteq> ZOK
                then transition_error e EVT_EXISTS_KO zrc
                       (if zrc = ZNONODE then transition e EVT_LEFT_SELF NoArg s else s)
                else transition e EVT_EXISTS_OK NoArg s)
      in on_mb member_unref s1)"

text \<open>
  \<^verbatim>\<open>completion_ASKING\<close> copies the content of the node when it has at most 256 bytes; the copy
  is then read as a C string.  The client library reports a node without any data with the
  length -1 (here \<open>None\<close>), which the code passes to \<^verbatim>\<open>memcpy\<close>.
\<close>

definition deferred_completion_ASKING :: "env \<Rightarrow> zrc \<Rightarrow> string \<Rightarrow> est \<Rightarrow> est" where
  "deferred_completion_ASKING e zrc master s =
     (let decache = on_mb (\<lambda>m. m\<lparr>requested_peers_decache := True\<rparr>);
          s1 = (if zrc \<noteq> ZOK
                then transition_error e EVT_MASTER_KO zrc
                       (if zrc = ZNONODE then transition e EVT_LEFT_MASTER NoArg s else s)
                else if master = [] \<or> \<not> url_valid e master then transition e EVT_MASTER_BAD NoArg s
                else case peers (mb s) of
                       None \<Rightarrow> transition e EVT_MASTER_BAD NoArg (decache s)
                     | Some ps \<Rightarrow>
                         if master = local_url e
                         then (case member_masterpath (mb s) of
                                 None \<Rightarrow> fault_if True s
                               | Some path \<Rightarrow>
                                   transition e EVT_MASTER_BAD NoArg (emit (OutZkDeleteRogue path) s))
                         else if \<not> oio_strv_has ps master
                         then transition e EVT_MASTER_BAD NoArg (decache s)
                         else transition e EVT_MASTER_OK (ArgUrl master) s)
      in on_mb member_unref s1)"

definition completion_ASKING :: "env \<Rightarrow> zrc \<Rightarrow> string option \<Rightarrow> est \<Rightarrow> est" where
  "completion_ASKING e zrc v s =
     (case v of
        None \<Rightarrow> fault_if True s
      | Some bytes \<Rightarrow>
          deferred_completion_ASKING e zrc
            (takeWhile (\<lambda>c. c \<noteq> CHR 0x00) (if length bytes > 256 then [] else bytes)) s)"

definition completion_LISTING :: "env \<Rightarrow> zrc \<Rightarrow> bool \<Rightarrow> string list option \<Rightarrow> est \<Rightarrow> est" where
  "completion_LISTING e zrc erange sv s =
     (let ids = (case sv of None \<Rightarrow> [] | Some names \<Rightarrow> nodev_to_int32v erange names (m_key (mb s)));
          first = (if ids \<noteq> [] then hd ids else - 1);
          zrc' = (if zrc = ZOK then (if ids \<noteq> [] then ZOK else ZNONODE) else zrc);
          s1 = (if zrc' \<noteq> ZOK then transition_error e EVT_LIST_KO zrc' s
                else transition e EVT_LIST_OK (ArgId first) s)
      in on_mb member_unref s1)"

definition completion_LEAVING :: "env \<Rightarrow> zrc \<Rightarrow> est \<Rightarrow> est" where
  "completion_LEAVING e zrc s =
     on_mb member_unref
       (if zrc = ZNONODE then transition e EVT_LEAVE_OK NoArg s
        else if zrc \<noteq> ZOK then transition_error e EVT_LEAVE_KO zrc s
        else transition e EVT_LEAVE_OK NoArg s)"

text \<open>
  \<^verbatim>\<open>_result_GETVERS\<close>: \<open>enet\<close> is the network error, \<open>vremote\<close> the versions of the peer when
  there is none, and \<open>get_version\<close> the result of the configured function of the same name on
  the local base.
\<close>

definition getvers_verdict :: "gerror \<Rightarrow> gtree \<Rightarrow> (code + gtree) \<Rightarrow> bool \<Rightarrow> gerror" where
  "getvers_verdict enet vremote get_version leaving =
     (let (err, vlocal) =
        (case enet of
           Some c \<Rightarrow> (Some c, [])
         | None \<Rightarrow>
             if leaving then (Some CODE_CONTAINER_MIGRATED, [])
             else (case get_version of
                     Inl c \<Rightarrow> (if c = CODE_CONTAINER_NOTFOUND then (Some CODE_PIPEFROM, [])
                               else (Some c, []))
                   | Inr v \<Rightarrow> (None, v)))
      in case err of
           Some c \<Rightarrow> Some c
         | None \<Rightarrow>
             (case version_validate_diff vlocal vremote of
                (Some c, _) \<Rightarrow> if c = CODE_PIPETO then None else Some c
              | (None, worst) \<Rightarrow> if worst < 0 then Some CODE_PIPEFROM else None))"

definition result_GETVERS :: "env \<Rightarrow> gerror \<Rightarrow> gtree \<Rightarrow> (code + gtree) \<Rightarrow> est \<Rightarrow> est" where
  "result_GETVERS e enet vremote get_version s =
     on_mb member_unref
       (case getvers_verdict enet vremote get_version (requested_LEAVE (mb s)) of
          None \<Rightarrow> transition e EVT_GETVERS_OK NoArg s
        | Some c \<Rightarrow>
            if c = CODE_PIPEFROM then transition e EVT_GETVERS_OLD NoArg s
            else if c = CODE_CONCURRENT then transition e EVT_GETVERS_RACE NoArg s
            else transition e EVT_GETVERS_KO NoArg
                   (if c = CODE_CONTAINER_NOTFOUND \<or> c = CODE_RANGE_NOTFOUND
                       \<or> c = CODE_USER_NOTFOUND
                    then on_mb (\<lambda>m. m\<lparr>requested_peers_decache := True\<rparr>) s else s))"

definition result_PIPEFROM :: "env \<Rightarrow> gerror \<Rightarrow> est \<Rightarrow> est" where
  "result_PIPEFROM e err s =
     on_mb member_unref
       (transition e
          (case err of None \<Rightarrow> EVT_SYNC_OK | Some c \<Rightarrow> if CODE_IS_OK c then EVT_SYNC_OK else EVT_SYNC_KO)
          NoArg s)"

text \<open>
  \<^verbatim>\<open>_worker_getpeers\<close> reads and clears \<^verbatim>\<open>requested_peers_decache\<close> under the lock, calls the
  configured \<^verbatim>\<open>get_peers\<close> without it, then takes it again: two sections.
\<close>

definition worker_getpeers_begin :: "est \<Rightarrow> bool \<times> est" where
  "worker_getpeers_begin s =
     (requested_peers_decache (mb s), on_mb (\<lambda>m. m\<lparr>requested_peers_decache := False\<rparr>) s)"

definition worker_getpeers_end :: "env \<Rightarrow> code + string list \<Rightarrow> est \<Rightarrow> est" where
  "worker_getpeers_end e res s =
     on_mb member_unref
       (case res of
          Inl c \<Rightarrow> transition e EVT_GETPEERS_DONE NoArg s
        | Inr ps \<Rightarrow> if ps = [] then transition e EVT_GETPEERS_DONE NoArg s
                    else transition e EVT_GETPEERS_DONE (ArgPeers ps) s)"

section \<open>The nested transition\<close>

lemma disconnected_react:
  "member_react d e EVT_DISCONNECTED arg = (\<lambda>s. member_action_to_NONE e (on_mb member_reset s))"
  by (rule ext) (simp add: member_react_def)

lemma disconnected_peers: "peers (mb (member_action_to_NONE e s)) = None"
  by (simp add: member_action_to_NONE_def member_set_status_def Let_def election_defs)

lemma log_event_peers: "peers (mb (member_log_event e pre evt s)) = peers (mb s)"
  by (simp add: member_log_event_def Let_def)

lemma log_change_cong: "f s = g s \<Longrightarrow> member_log_change e evt f s = member_log_change e evt g s"
  by (simp add: member_log_change_def)

lemma react_NONE_indep:
  assumes "step_of (mb s) = STEP_NONE" "peers (mb s) = None"
  shows "member_react d e EVT_NONE NoArg s = member_react d' e EVT_NONE NoArg s"
  using assms
  by (simp add: member_react_def member_react_NONE_def member_action_START_def
      member_action_to_PEERING_def Let_def on_mb_def)

lemma transition_disc_indep:
  "transition_with d e EVT_DISCONNECTED NoArg s = transition_with d' e EVT_DISCONNECTED NoArg s"
proof -
  let ?s1 = "member_log_change e EVT_DISCONNECTED 
    (\<lambda>s. member_action_to_NONE e (on_mb member_reset s)) s"
  have p: "peers (mb ?s1) = None"
    by (simp add: member_log_change_def Let_def log_event_peers disconnected_peers)
  have r: "step_of (mb ?s1) = STEP_NONE \<Longrightarrow>
      member_log_change e EVT_NONE (member_react d e EVT_NONE NoArg) ?s1
    = member_log_change e EVT_NONE (member_react d' e EVT_NONE NoArg) ?s1"
    by (intro log_change_cong react_NONE_indep p)
  show ?thesis
    using r by (simp add: transition_with_def disconnected_react Let_def)
qed

section \<open>Properties\<close>

text \<open>
  The state machine calls itself: on a ZooKeeper error that tells the session is lost, an
  action calls \<^verbatim>\<open>transition(member, EVT_DISCONNECTED, NULL)\<close>.  The recursion is well founded:
  \<open>transition\<close> satisfies the recursive equation of the source, with itself as the nested call.
\<close>

theorem transition_unfold:
  "transition e evt arg s
   = transition_with (\<lambda>s'. transition e EVT_DISCONNECTED NoArg s') e evt arg s"
proof -
  have "transition e EVT_DISCONNECTED NoArg = transition_disc e"
    by (rule ext) (simp add: transition_def transition_disc_def
        transition_disc_indep [of "transition_with (\<lambda>s. s) e EVT_DISCONNECTED NoArg" e _ "\<lambda>s. s"])
  then show ?thesis by (simp add: transition_def)
qed

text \<open>
  The verdict on the versions of a peer, as the local member receives them: with both
  versions at hand the member counts the answer as good exactly when it is behind on no table
  both have, as outdated exactly when it is behind on one and ahead on none, and as a race
  exactly when it is ahead on one and behind on another.
\<close>

theorem getvers_verdict_spec:
  "getvers_verdict None vremote (Inr vlocal) False =
     (if behind vlocal vremote
      then (if ahead vlocal vremote then Some CODE_CONCURRENT else Some CODE_PIPEFROM)
      else None)"
  using vcmp.verdict [of vlocal vremote] by (simp add: getvers_verdict_def)

end
