(* ===== verification/Election_Inv.thy ===== *)
theory Election_Inv
  imports Election_React
begin

text \<open>
  The invariant of a member of an election and its preservation by every action of the
  state machine, given a nested transition that establishes it.  Theory
  \<^theory_text>\<open>Election_Safety\<close> extends this to the reactions and to the reachable states.
\<close>

section \<open>The invariant\<close>

text \<open>
  A request is pending exactly in the step that waits for it (the \<^verbatim>\<open>pending_*\<close> conditions of
  the \<^verbatim>\<open>_member_assert_*\<close> functions).
\<close>

definition pend_inv :: "member \<Rightarrow> bool" where
  "pend_inv m \<longleftrightarrow>
     (pending_PIPEFROM m \<longleftrightarrow> step_of m = STEP_SYNCING)
     \<and> (pending_ZK_CREATE m \<longleftrightarrow> step_of m = STEP_CREATING)
     \<and> (pending_ZK_EXISTS m \<longleftrightarrow> step_of m = STEP_WATCHING)
     \<and> (pending_ZK_LIST m \<longleftrightarrow> step_of m = STEP_LISTING)
     \<and> (pending_ZK_GET m \<longleftrightarrow> step_of m = STEP_ASKING)
     \<and> (pending_ZK_DELETE m \<longleftrightarrow> step_of m = STEP_LEAVING \<or> step_of m = STEP_LEAVING_FAILING)"

text \<open>
  The counters of the exchange of versions are zero out of the two checking steps; in those
  steps some answers are pending, and the bad answers counted so far and the pending ones are
  together at most the requests sent.
\<close>

definition getvers_inv :: "member \<Rightarrow> bool" where
  "getvers_inv m \<longleftrightarrow>
     (case step_of m of
        STEP_CHECKING_MASTER \<Rightarrow>
          count_GETVERS m = 1 \<and> pending_GETVERS m = 1 \<and> outdated_GETVERS m = 0
          \<and> concurrent_GETVERS m = 0 \<and> errors_GETVERS m = 0
      | STEP_CHECKING_SLAVES \<Rightarrow>
          pending_GETVERS m \<noteq> 0
          \<and> unat (outdated_GETVERS m) + unat (concurrent_GETVERS m) + unat (errors_GETVERS m)
              + unat (pending_GETVERS m) \<le> unat (count_GETVERS m)
      | _ \<Rightarrow> \<not> member_has_getvers m)"

definition slave_ids :: "member \<Rightarrow> bool" where
  "slave_ids m \<longleftrightarrow> flag_local_id m \<and> flag_master_id m \<and> master_id m \<noteq> local_id m \<and> master_url m \<noteq> None"

definition master_ids :: "member \<Rightarrow> bool" where
  "master_ids m \<longleftrightarrow> flag_local_id m \<and> flag_master_id m \<and> master_id m = local_id m \<and> master_url m = None"

definition no_master :: "member \<Rightarrow> bool" where
  "no_master m \<longleftrightarrow> \<not> flag_master_id m \<and> master_url m = None"

definition ids_inv :: "member \<Rightarrow> bool" where
  "ids_inv m \<longleftrightarrow>
     (case step_of m of
        STEP_NONE \<Rightarrow> True | STEP_PEERING \<Rightarrow> True | STEP_CREATING \<Rightarrow> True
      | STEP_WATCHING \<Rightarrow> flag_local_id m
      | STEP_LISTING \<Rightarrow> flag_local_id m \<and> no_master m
      | STEP_ASKING \<Rightarrow>
          flag_local_id m \<and> flag_master_id m \<and> master_id m \<noteq> local_id m \<and> master_url m = None
      | STEP_LEAVING \<Rightarrow> flag_local_id m \<and> no_master m
      | STEP_LEAVING_FAILING \<Rightarrow> flag_local_id m \<and> no_master m
      | STEP_FAILED \<Rightarrow> \<not> flag_local_id m \<and> no_master m
      | STEP_CHECKING_MASTER \<Rightarrow> slave_ids m | STEP_SYNCING \<Rightarrow> slave_ids m
      | STEP_DELAYED_CHECKING_MASTER \<Rightarrow> slave_ids m | STEP_REFRESH_CHECKING_MASTER \<Rightarrow> slave_ids m
      | STEP_SLAVE \<Rightarrow> slave_ids m
      | STEP_CHECKING_SLAVES \<Rightarrow> master_ids m
      | STEP_DELAYED_CHECKING_SLAVES \<Rightarrow> master_ids m | STEP_REFRESH_CHECKING_SLAVES \<Rightarrow> master_ids m
      | STEP_MASTER \<Rightarrow> master_ids m)"

text \<open>A member out of NONE, MASTER and SLAVE knows since when it is unstable.\<close>

definition unstable_inv :: "member \<Rightarrow> bool" where
  "unstable_inv m \<longleftrightarrow> 0 \<le> when_unstable m
     \<and> (STATUS_FINAL (step_of m) \<longrightarrow> when_unstable m = 0)
     \<and> (\<not> STATUS_FINAL (step_of m) \<and> step_of m \<noteq> STEP_NONE \<longrightarrow> when_unstable m > 0)"

definition requests_inv :: "member \<Rightarrow> bool" where
  "requests_inv m \<longleftrightarrow>
     (step_of m = STEP_DELAYED_CHECKING_MASTER \<or> step_of m = STEP_DELAYED_CHECKING_SLAVES
      \<longrightarrow> \<not> requested_LEFT_MASTER m \<and> \<not> requested_LEFT_SELF m \<and> \<not> requested_LEAVE m)"

definition member_inv :: "member \<Rightarrow> bool" where
  "member_inv m \<longleftrightarrow> pend_inv m \<and> getvers_inv m \<and> ids_inv m \<and> unstable_inv m \<and> requests_inv m
     \<and> peers m \<noteq> Some []"

text \<open>Nothing is pending and no exchange of versions is counted.\<close>

definition quiet :: "member \<Rightarrow> bool" where
  "quiet m \<longleftrightarrow> \<not> member_has_action m \<and> \<not> member_has_getvers m"

definition est_ok :: "est \<Rightarrow> bool" where
  "est_ok s \<longleftrightarrow> crashed s \<or> member_inv (mb s)"

text \<open>The arguments the completions give to the events.\<close>

definition arg_ok :: "event \<Rightarrow> evt_arg \<Rightarrow> bool" where
  "arg_ok evt arg \<longleftrightarrow>
     (case evt of
        EVT_CREATE_OK \<Rightarrow> arg_id arg \<noteq> None
      | EVT_LIST_OK \<Rightarrow> arg_id arg \<noteq> None
      | EVT_MASTER_OK \<Rightarrow> arg_url arg \<noteq> None
      | EVT_GETPEERS_DONE \<Rightarrow> arg_peers arg \<noteq> Some []
      | _ \<Rightarrow> True)"

lemmas inv_defs = member_inv_def pend_inv_def getvers_inv_def ids_inv_def unstable_inv_def
  requests_inv_def quiet_def member_has_action_def member_has_getvers_def slave_ids_def
  master_ids_def no_master_def STATUS_FINAL_def less_eq_step_def est_ok_def word_gt_0

section \<open>The member after each elementary operation\<close>

lemma mb_set_status [simp]:
  "mb (member_set_status e post s) =
     (mb s)\<lparr>last_status := (if step_of (mb s) \<noteq> post then now e else last_status (mb s)),
            step_of := post\<rparr>"
  by (simp add: member_set_status_def Let_def election_defs)

lemma set_status_frame [simp]:
  "crashed (member_set_status e post s) = crashed s"
  "exiting (member_set_status e post s) = exiting s"
  by (simp_all add: member_set_status_def Let_def election_defs)

lemma on_mb_simps [simp]:
  "mb (on_mb f s) = f (mb s)" "crashed (on_mb f s) = crashed s" "exiting (on_mb f s) = exiting s"
  "outs (on_mb f s) = outs s" "queues_of (on_mb f s) = queues_of s"
  by (simp_all add: on_mb_def)

lemma emit_simps [simp]:
  "mb (emit x s) = mb s" "crashed (emit x s) = crashed s" "exiting (emit x s) = exiting s"
  "outs (emit x s) = outs s @ [x]" "queues_of (emit x s) = queues_of s"
  "mb (emit_peer e t x s) = mb s" "crashed (emit_peer e t x s) = crashed s"
  "exiting (emit_peer e t x s) = exiting s"
  "outs (emit_peer e t x s) = outs s @ [x]" "queues_of (emit_peer e t x s) = queues_of s"
  by (simp_all add: emit_def emit_peer_def)

lemma fault_if_simps [simp]:
  "mb (fault_if b s) = mb s" "crashed (fault_if b s) = (crashed s \<or> b)"
  "exiting (fault_if b s) = exiting s" "outs (fault_if b s) = outs s"
  "queues_of (fault_if b s) = queues_of s"
  by (simp_all add: fault_if_def)

lemma send_USE_simps [simp]:
  "mb (send_USE e a b ps s) = mb s" "crashed (send_USE e a b ps s) = crashed s"
  "exiting (send_USE e a b ps s) = exiting s" "queues_of (send_USE e a b ps s) = queues_of s"
  "outs (send_USE e a b ps s) = outs s @ map (\<lambda>p. OutUse p a b) ps"
  by (induction ps arbitrary: s) (simp_all add: send_USE_def)

lemma send_GETVERS_simps [simp]:
  "mb (send_GETVERS e a ps s) = (mb s)\<lparr>refcount := refcount (mb s) + of_nat (length ps)\<rparr>"
  "crashed (send_GETVERS e a ps s) = crashed s" "exiting (send_GETVERS e a ps s) = exiting s"
  "queues_of (send_GETVERS e a ps s) = queues_of s"
  "outs (send_GETVERS e a ps s) = outs s @ map (\<lambda>p. OutGetvers (Some p) a) ps"
  by (induction ps arbitrary: s) (simp_all add: send_GETVERS_def member_ref_def)

lemma defer_USE_True [simp]: "fst (defer_USE e b s) = True"
  by (simp add: defer_USE_def Let_def split: option.splits)

lemma mb_defer_USE [simp]:
  "mb (snd (defer_USE e b s)) =
     (mb s)\<lparr>last_USE := (if (b \<or> now e - last_USE (mb s) \<ge> G_TIME_SPAN_SECOND)
                              \<and> peers (mb s) \<noteq> None
                         then now e else last_USE (mb s))\<rparr>"
  by (auto simp: defer_USE_def Let_def split: option.splits)

lemma defer_USE_frame [simp]:
  "exiting (snd (defer_USE e b s)) = exiting s" "queues_of (snd (defer_USE e b s)) = queues_of s"
  "crashed s \<Longrightarrow> crashed (snd (defer_USE e b s))"
  by (auto simp: defer_USE_def Let_def split: option.splits)

lemma log_event_simps [simp]:
  "step_of (mb (member_log_event e pre evt s)) = step_of (mb s)"
  "crashed (member_log_event e pre evt s) = crashed s"
  "exiting (member_log_event e pre evt s) = exiting s"
  "outs (member_log_event e pre evt s) = outs s"
  "queues_of (member_log_event e pre evt s) = queues_of s"
  by (simp_all add: member_log_event_def Let_def)

section \<open>The invariant after each action\<close>

text \<open>What the actions rely on for the nested transition on \<^verbatim>\<open>EVT_DISCONNECTED\<close>.\<close>

definition disc_ok :: "(est \<Rightarrow> est) \<Rightarrow> bool" where
  "disc_ok d \<longleftrightarrow> (\<forall>s. est_ok (d s))"

lemma disc_okD: "disc_ok d \<Longrightarrow> est_ok (d s)"
  by (simp add: disc_ok_def)

lemma to_NONE_ok: "quiet (mb s) \<Longrightarrow> est_ok (member_action_to_NONE e s)"
  by (simp add: member_action_to_NONE_def inv_defs member_macros)

lemma to_FAILED_ok:
  "quiet (mb s) \<Longrightarrow> when_unstable (mb s) > 0 \<Longrightarrow> est_ok (member_action_to_FAILED e s)"
  by (simp add: member_action_to_FAILED_def inv_defs member_macros)

lemma fail_on_error_ok:
  "disc_ok d \<Longrightarrow> quiet (mb s) \<Longrightarrow> when_unstable (mb s) > 0 \<Longrightarrow> est_ok (member_fail_on_error d e z s)"
  by (simp add: member_fail_on_error_def to_FAILED_ok disc_okD)

lemma to_LEAVE_ok:
  assumes "disc_ok d" "now e > 0" "quiet (mb s)" "flag_local_id (mb s)"
    and "st = STEP_LEAVING \<or> st = STEP_LEAVING_FAILING"
  shows "est_ok (common_action_to_LEAVE d e st s)"
proof -
  have fail: "quiet (mb s') \<Longrightarrow> when_unstable (mb s') > 0 \<Longrightarrow> est_ok (member_fail_on_error d e z s')"
    for s' z using assms(1) by (rule fail_on_error_ok)
  show ?thesis
    unfolding common_action_to_LEAVE_def Let_def
    using assms(2-5)
    by (auto intro!: fail split: option.splits)
       (auto simp: inv_defs member_macros split: option.splits)
qed

lemma to_CREATING_ok:
  assumes "disc_ok d" "now e > 0" "quiet (mb s)" "peers (mb s) \<noteq> Some []"
  shows "est_ok (member_action_to_CREATING d e s)"
proof -
  have fail: "quiet (mb s') \<Longrightarrow> when_unstable (mb s') > 0 \<Longrightarrow> est_ok (member_fail_on_error d e z s')"
    for s' z using assms(1) by (rule fail_on_error_ok)
  show ?thesis
    unfolding member_action_to_CREATING_def Let_def split_beta
    using assms(2-4)
    by (auto intro!: fail to_NONE_ok to_FAILED_ok)
       (auto simp: inv_defs member_macros)
qed

lemma react_PEERING_done_ok:
  assumes "disc_ok d" "now e > 0" "quiet (mb s)" "when_unstable (mb s) > 0" "ps \<noteq> Some []"
  shows "est_ok (member_react_PEERING d e EVT_GETPEERS_DONE ps s)"
  unfolding member_react_PEERING_def Let_def
  using assms
  by (auto intro!: to_CREATING_ok to_FAILED_ok) (auto simp: inv_defs member_macros)

lemma to_PEERING_ok:
  assumes "disc_ok d" "now e > 0" "quiet (mb s)" "peers (mb s) \<noteq> Some []"
  shows "est_ok (member_action_to_PEERING d e s)"
  unfolding member_action_to_PEERING_def Let_def
  using assms
  by (auto intro!: react_PEERING_done_ok split: option.splits) (auto simp: inv_defs member_macros)

lemmas START_ok = to_PEERING_ok [folded member_action_START_def]

lemma leave_on_error_ok:
  "disc_ok d \<Longrightarrow> now e > 0 \<Longrightarrow> quiet (mb s) \<Longrightarrow> flag_local_id (mb s) \<Longrightarrow>
     est_ok (member_leave_on_error d e z s)"
  by (simp add: member_leave_on_error_def member_action_to_LEAVING_FAILING_def to_LEAVE_ok disc_okD)

lemma to_WATCHING_ok:
  assumes "disc_ok d" "now e > 0" "quiet (mb s)" "flag_local_id (mb s)"
    and "when_unstable (mb s) > 0" "peers (mb s) \<noteq> Some []"
  shows "est_ok (member_action_to_WATCHING d e s)"
  unfolding member_action_to_WATCHING_def Let_def
  using assms by (auto intro!: leave_on_error_ok) (auto simp: inv_defs member_macros)

lemma to_LISTING_ok:
  assumes "disc_ok d" "now e > 0" "quiet (mb s)" "flag_local_id (mb s)"
    and "when_unstable (mb s) \<ge> 0" "peers (mb s) \<noteq> Some []"
  shows "est_ok (member_action_to_LISTING d e s)"
proof -
  have "quiet (mb (on_mb (\<lambda>m. member_reset_master (m\<lparr>requested_LEFT_MASTER := False\<rparr>)) s))"
    using assms(3) by (simp add: inv_defs member_macros)
  then show ?thesis
    unfolding member_action_to_LISTING_def Let_def
    using assms by (auto intro!: leave_on_error_ok) (auto simp: inv_defs member_macros)
qed

lemma to_ASKING_ok:
  assumes "disc_ok d" "now e > 0" "quiet (mb s)" "flag_local_id (mb s)" "flag_master_id (mb s)"
    and "master_id (mb s) \<noteq> local_id (mb s)" "master_url (mb s) = None"
    and "when_unstable (mb s) > 0" "peers (mb s) \<noteq> Some []"
  shows "est_ok (member_action_to_ASKING d e s)"
  unfolding member_action_to_ASKING_def Let_def
  using assms
  by (auto intro!: leave_on_error_ok split: option.splits) (auto simp: inv_defs member_macros)

lemma to_SYNCING_ok:
  assumes "now e > 0" "quiet (mb s)" "slave_ids (mb s)" "peers (mb s) \<noteq> Some []"
  shows "est_ok (member_action_to_SYNCING e s)"
  unfolding member_action_to_SYNCING_def Let_def
  using assms by (simp add: inv_defs member_macros)

lemma to_REFRESH_CM_ok:
  assumes "quiet (mb s)" "slave_ids (mb s)" "when_unstable (mb s) > 0" "peers (mb s) \<noteq> Some []"
  shows "est_ok (member_action_to_REFRESH_CHECKING_MASTER e s)"
  unfolding member_action_to_REFRESH_CHECKING_MASTER_def
  using assms by (simp add: inv_defs member_macros)

lemma to_REFRESH_CS_ok:
  assumes "quiet (mb s)" "master_ids (mb s)" "when_unstable (mb s) > 0" "peers (mb s) \<noteq> Some []"
  shows "est_ok (member_action_to_REFRESH_CHECKING_SLAVES e s)"
  unfolding member_action_to_REFRESH_CHECKING_SLAVES_def
  using assms by (simp add: inv_defs member_macros)

lemma to_DELAYED_CM_ok:
  assumes "quiet (mb s)" "slave_ids (mb s)" "when_unstable (mb s) > 0" "peers (mb s) \<noteq> Some []"
    and "\<not> requested_LEFT_MASTER (mb s)" "\<not> requested_LEFT_SELF (mb s)" "\<not> requested_LEAVE (mb s)"
  shows "est_ok (member_action_to_DELAYED_CHECKING_MASTER e s)"
  unfolding member_action_to_DELAYED_CHECKING_MASTER_def
  using assms by (simp add: inv_defs)

lemma to_DELAYED_CS_ok:
  assumes "quiet (mb s)" "master_ids (mb s)" "when_unstable (mb s) > 0" "peers (mb s) \<noteq> Some []"
    and "\<not> requested_LEFT_MASTER (mb s)" "\<not> requested_LEFT_SELF (mb s)" "\<not> requested_LEAVE (mb s)"
  shows "est_ok (member_action_to_DELAYED_CHECKING_SLAVES e s)"
  unfolding member_action_to_DELAYED_CHECKING_SLAVES_def
  using assms by (simp add: inv_defs)

lemma to_CM_ok:
  assumes "quiet (mb s)" "slave_ids (mb s)" "when_unstable (mb s) > 0" "peers (mb s) \<noteq> Some []"
  shows "est_ok (member_action_to_CHECKING_MASTER e s)"
  unfolding member_action_to_CHECKING_MASTER_def Let_def
  using assms by (simp add: inv_defs member_macros)

lemma word8_of_nat_small: "n < 63 \<Longrightarrow> unat (of_nat n :: guint8) = n"
  by (simp add: unat_of_nat)

lemma word8_of_nat_pos: "0 < n \<Longrightarrow> n < 63 \<Longrightarrow> (of_nat n :: guint8) \<noteq> 0"
  using word8_of_nat_small [of n] by (metis not_less0 unat_0)

lemma to_CS_ok:
  assumes "quiet (mb s)" "master_ids (mb s)" "when_unstable (mb s) > 0" "peers (mb s) \<noteq> Some []"
  shows "est_ok (member_action_to_CHECKING_SLAVES e s)"
proof (cases "peers (mb s)")
  case None
  then show ?thesis by (simp add: member_action_to_CHECKING_SLAVES_def Let_def est_ok_def)
next
  case (Some ps)
  show ?thesis
  proof (cases "length ps < 63")
    case True
    with Some assms show ?thesis
      by (simp add: member_action_to_CHECKING_SLAVES_def Let_def inv_defs member_macros
          word8_of_nat_small word8_of_nat_pos)
  next
    case False
    with Some show ?thesis
      by (simp add: member_action_to_CHECKING_SLAVES_def Let_def est_ok_def all_peers_overflow_def
          peer_list_def)
  qed
qed

lemma to_MASTER_ok:
  assumes "quiet (mb s)" "master_ids (mb s)" "peers (mb s) \<noteq> Some []"
  shows "est_ok (member_action_to_MASTER e s)"
  unfolding member_action_to_MASTER_def
  using assms by (simp add: inv_defs member_macros)

lemma to_SLAVE_ok:
  assumes "quiet (mb s)" "slave_ids (mb s)" "peers (mb s) \<noteq> Some []"
  shows "est_ok (member_action_to_SLAVE e s)"
  unfolding member_action_to_SLAVE_def
  using assms by (simp add: inv_defs member_macros)

section \<open>The invariant after each reaction\<close>

lemma word8_succ: "unat (w :: guint8) < 255 \<Longrightarrow> unat (w + 1) = unat w + 1"
  by (simp add: unat_word_ariths)

lemma finish_CM_ok:
  assumes "disc_ok d" "now e > 0" "slave_ids (mb s)" "when_unstable (mb s) > 0"
    and "\<not> pending_PIPEFROM (mb s) \<and> \<not> pending_ZK_CREATE (mb s) \<and> \<not> pending_ZK_EXISTS (mb s)
         \<and> \<not> pending_ZK_LIST (mb s) \<and> \<not> pending_ZK_GET (mb s) \<and> \<not> pending_ZK_DELETE (mb s)"
    and "pending_GETVERS (mb s) = 1" "peers (mb s) \<noteq> Some []"
  shows "est_ok (member_finish_CHECKING_MASTER d e s)"
proof -
  define s2 where "s2 = on_mb (\<lambda>m. (member_reset_getvers m)
     \<lparr>requested_LEFT_SELF := False, requested_LEFT_MASTER := False\<rparr>)
     (on_mb (\<lambda>m. m\<lparr>pending_GETVERS := pending_GETVERS m - 1\<rparr>) s)"
  have s2: "quiet (mb s2)" "slave_ids (mb s2)" "when_unstable (mb s2) > 0" "peers (mb s2) \<noteq> Some []"
    "flag_local_id (mb s2)" "\<not> requested_LEFT_MASTER (mb s2)" "\<not> requested_LEFT_SELF (mb s2)"
    using assms by (simp_all add: s2_def inv_defs member_macros)
  let ?r = "on_mb (\<lambda>m. member_reset_master (member_reset_local m)) s2"
  have r: "quiet (mb ?r)" "peers (mb ?r) \<noteq> Some []"
    using s2 by (simp_all add: inv_defs member_macros)
  let ?a = "on_mb (\<lambda>m. m\<lparr>attempts_GETVERS := attempts_GETVERS m - 1\<rparr>) s2"
  have a: "\<not> requested_LEAVE (mb s2) \<Longrightarrow> est_ok (member_action_to_DELAYED_CHECKING_MASTER e ?a)"
    by (rule to_DELAYED_CM_ok) (use s2 in \<open>simp_all add: inv_defs member_macros\<close>)
  show ?thesis
    unfolding member_finish_CHECKING_MASTER_def Let_def s2_def [symmetric]
    using assms s2 r a
    by (simp add: member_action_to_LEAVING_def member_action_to_LEAVING_FAILING_def to_LEAVE_ok
        to_LISTING_ok to_SYNCING_ok START_ok to_SLAVE_ok)
qed

lemma finish_CS_ok:
  assumes "disc_ok d" "now e > 0" "master_ids (mb s)" "when_unstable (mb s) > 0"
    and "\<not> pending_PIPEFROM (mb s) \<and> \<not> pending_ZK_CREATE (mb s) \<and> \<not> pending_ZK_EXISTS (mb s)
         \<and> \<not> pending_ZK_LIST (mb s) \<and> \<not> pending_ZK_GET (mb s) \<and> \<not> pending_ZK_DELETE (mb s)"
    and "pending_GETVERS (mb s) \<noteq> 0" "peers (mb s) \<noteq> Some []" "step_of (mb s) = STEP_CHECKING_SLAVES"
    and "unat (outdated_GETVERS (mb s)) + unat (concurrent_GETVERS (mb s))
           + unat (errors_GETVERS (mb s)) + unat (pending_GETVERS (mb s))
         \<le> unat (count_GETVERS (mb s)) + 1"
  shows "est_ok (member_finish_CHECKING_SLAVES d e s)"
proof -
  let ?s1 = "on_mb (\<lambda>m. m\<lparr>pending_GETVERS := pending_GETVERS m - 1\<rparr>) s"
  define s2 where "s2 = on_mb (\<lambda>m. (member_reset_getvers m)
     \<lparr>requested_LEFT_SELF := False, requested_LEFT_MASTER := False\<rparr>) ?s1"
  have s2: "quiet (mb s2)" "master_ids (mb s2)" "when_unstable (mb s2) > 0" "peers (mb s2) \<noteq> Some []"
    "flag_local_id (mb s2)" "\<not> requested_LEFT_MASTER (mb s2)" "\<not> requested_LEFT_SELF (mb s2)"
    using assms by (simp_all add: s2_def inv_defs member_macros)
  let ?r = "on_mb (\<lambda>m. member_reset_master (member_reset_local m)) s2"
  have r: "quiet (mb ?r)" "peers (mb ?r) \<noteq> Some []"
    using s2 by (simp_all add: inv_defs member_macros)
  let ?a = "on_mb (\<lambda>m. m\<lparr>attempts_GETVERS := attempts_GETVERS m - 1\<rparr>) s2"
  have a: "\<not> requested_LEAVE (mb s2) \<Longrightarrow> est_ok (member_action_to_DELAYED_CHECKING_SLAVES e ?a)"
    by (rule to_DELAYED_CS_ok) (use s2 in \<open>simp_all add: inv_defs member_macros\<close>)
  have wait: "est_ok ?s1" if "pending_GETVERS (mb s) - 1 \<noteq> 0"
  proof -
    have "unat (pending_GETVERS (mb s) - 1) = unat (pending_GETVERS (mb s)) - 1"
      "0 < unat (pending_GETVERS (mb s))"
      using assms(6) by (simp_all add: word8_pred_nonzero word_gt_0 unat_gt_0)
    with assms that show ?thesis by (simp add: inv_defs) linarith
  qed
  show ?thesis
    unfolding member_finish_CHECKING_SLAVES_def Let_def s2_def [symmetric]
    using assms s2 r a wait
    by (simp add: member_action_to_LEAVING_def member_action_to_LEAVING_FAILING_def to_LEAVE_ok
        START_ok to_MASTER_ok word_gt_0)
qed

text \<open>Flags that the invariant does not constrain.\<close>

lemma inv_free_fields [simp]:
  "member_inv (m\<lparr>requested_PIPEFROM := b\<rparr>) = member_inv m"
  "member_inv (m\<lparr>requested_USE := b\<rparr>) = member_inv m"
  "member_inv (m\<lparr>requested_peers_decache := b\<rparr>) = member_inv m"
  "member_inv (m\<lparr>refcount := n\<rparr>) = member_inv m"
  "member_inv (m\<lparr>last_atime := t\<rparr>) = member_inv m"
  "member_inv (m\<lparr>db_check_type := i\<rparr>) = member_inv m"
  "member_inv (m\<lparr>log_index := w, m_log := l\<rparr>) = member_inv m"
  by (cases "step_of m"; simp add: inv_defs)+

lemma inv_request_flags:
  assumes "member_inv m" "step_of m \<noteq> STEP_DELAYED_CHECKING_MASTER"
    and "step_of m \<noteq> STEP_DELAYED_CHECKING_SLAVES"
  shows "member_inv (m\<lparr>requested_LEAVE := b\<rparr>)" "member_inv (m\<lparr>requested_LEFT_SELF := b\<rparr>)"
    "member_inv (m\<lparr>requested_LEFT_MASTER := b\<rparr>)"
  using assms by (cases "step_of m"; simp add: inv_defs)+

lemma est_okI: "member_inv (mb s) \<Longrightarrow> est_ok s"
  by (simp add: est_ok_def)

lemmas act_ok = to_NONE_ok to_FAILED_ok to_LEAVE_ok to_CREATING_ok START_ok to_WATCHING_ok
  to_LISTING_ok to_ASKING_ok to_SYNCING_ok to_REFRESH_CM_ok to_REFRESH_CS_ok to_CM_ok to_CS_ok
  to_SLAVE_ok finish_CM_ok finish_CS_ok

lemmas leave_defs = member_action_to_LEAVING_def member_action_to_LEAVING_FAILING_def

end
