(* ===== verification/Election_Frame.thy ===== *)
theory Election_Frame
  imports Election_Inv
begin

text \<open>
  The frame of a transition: whatever the reaction, the member keeps its key and stays in the
  queue of its step, the other members keep their places in the queues, and each request sent
  with the member as the context of its completion takes one reference on the member.  The
  relation \<open>est_step\<close> gathers these facts; it is reflexive and transitive, and every action
  and reaction satisfies it.
\<close>

section \<open>Frame relation\<close>

text \<open>The references taken by a message: one when a completion will come back for it.\<close>

fun ref_weight :: "env \<Rightarrow> outmsg \<Rightarrow> nat" where
  "ref_weight e OutGetpeers = 1"
| "ref_weight e (OutGetvers _ _) = 1"
| "ref_weight e (OutPipefrom _ _ _) = 1"
| "ref_weight e (OutZkCreate _ _) = (if zrc_create e = ZOK then 1 else 0)"
| "ref_weight e (OutZkExists _ _) = (if zrc_exists e = ZOK then 1 else 0)"
| "ref_weight e (OutZkList _) = (if zrc_list e = ZOK then 1 else 0)"
| "ref_weight e (OutZkGet _ _) = (if zrc_get e = ZOK then 1 else 0)"
| "ref_weight e (OutZkDelete _) = (if zrc_delete e = ZOK then 1 else 0)"
| "ref_weight e _ = 0"

definition refs_of :: "env \<Rightarrow> outmsg list \<Rightarrow> nat" where
  "refs_of e os = sum_list (map (ref_weight e) os)"

definition est_wf :: "(step \<Rightarrow> string list) \<Rightarrow> est \<Rightarrow> bool" where
  "est_wf f s \<longleftrightarrow> queues_rep (queues_of s) f \<and> m_key (mb s) \<in> set (f (step_of (mb s)))"

definition same_others :: "string \<Rightarrow> (step \<Rightarrow> string list) \<Rightarrow> (step \<Rightarrow> string list) \<Rightarrow> bool" where
  "same_others k f f' \<longleftrightarrow> (\<forall>st. removeAll k (f' st) = removeAll k (f st))"

definition est_step :: "env \<Rightarrow> est \<Rightarrow> est \<Rightarrow> bool" where
  "est_step e s s' \<longleftrightarrow>
     m_key (mb s') = m_key (mb s) \<and> exiting s' = exiting s \<and> (crashed s \<longrightarrow> crashed s')
     \<and> (\<exists>os. outs s' = outs s @ os
            \<and> refcount (mb s') = refcount (mb s) + of_nat (refs_of e os))
     \<and> (\<forall>f. est_wf f s \<longrightarrow> (\<exists>f'. est_wf f' s' \<and> same_others (m_key (mb s)) f f'))"

lemma refs_of_append [simp]: "refs_of e (a @ b) = refs_of e a + refs_of e b"
  by (simp add: refs_of_def)

lemma refs_of_Nil [simp]: "refs_of e [] = 0"
  by (simp add: refs_of_def)

lemma refs_of_Cons [simp]: "refs_of e (a # b) = ref_weight e a + refs_of e b"
  by (simp add: refs_of_def)

lemma refs_of_USE [simp]: "refs_of e (map (\<lambda>p. OutUse p a b) ps) = 0"
  by (induction ps) simp_all

lemma refs_of_GETVERS [simp]: "refs_of e (map (\<lambda>p. OutGetvers (Some p) a) ps) = length ps"
  by (induction ps) simp_all

lemma same_others_refl [simp]: "same_others k f f"
  by (simp add: same_others_def)

lemma same_others_trans: "same_others k f g \<Longrightarrow> same_others k g h \<Longrightarrow> same_others k f h"
  by (simp add: same_others_def)

lemma est_step_refl [simp]: "est_step e s s"
  unfolding est_step_def by (auto intro: exI [of _ "[]"])

lemma est_step_trans:
  assumes "est_step e a b" "est_step e b c"
  shows "est_step e a c"
proof -
  obtain os1 where 1: "outs b = outs a @ os1" "refcount (mb b) = refcount (mb a) + of_nat (refs_of e os1)"
    using assms(1) by (auto simp: est_step_def)
  obtain os2 where 2: "outs c = outs b @ os2" "refcount (mb c) = refcount (mb b) + of_nat (refs_of e os2)"
    using assms(2) by (auto simp: est_step_def)
  have "\<exists>os. outs c = outs a @ os \<and> refcount (mb c) = refcount (mb a) + of_nat (refs_of e os)"
    using 1 2 by (intro exI [of _ "os1 @ os2"]) simp
  moreover have "\<exists>f'. est_wf f' c \<and> same_others (m_key (mb a)) f f'" if "est_wf f a" for f
    using assms that unfolding est_step_def by (metis same_others_trans)
  ultimately show ?thesis using assms unfolding est_step_def by simp
qed

lemma est_stepI:
  assumes "m_key (mb s') = m_key (mb s)" "exiting s' = exiting s" "crashed s \<longrightarrow> crashed s'"
    and "outs s' = outs s @ os" "refcount (mb s') = refcount (mb s) + of_nat (refs_of e os)"
    and "step_of (mb s') = step_of (mb s)" "queues_of s' = queues_of s"
  shows "est_step e s s'"
proof -
  have "est_wf f s' = est_wf f s" for f using assms by (simp add: est_wf_def)
  then show ?thesis unfolding est_step_def using assms by auto
qed

lemma outs_set_status:
  "outs (member_set_status e st s)
   = outs s @ (if STATUS_FINAL st \<or> st = STEP_NONE then [OutSignal (m_key (mb s))] else [])"
  by (simp add: member_set_status_def Let_def election_defs)

lemma queues_set_status:
  "queues_of (member_set_status e st s)
   = DEQUE_add st (m_key (mb s)) (DEQUE_remove (step_of (mb s)) (m_key (mb s)) (queues_of s))"
  by (simp add: member_set_status_def Let_def election_defs)

lemma est_step_set_status: "est_step e s (member_set_status e st s)"
proof -
  let ?k = "m_key (mb s)" and ?st = "step_of (mb s)"
  have "est_wf (dq_move (\<lambda>k xs. xs @ [k]) ?st st ?k f) (member_set_status e st s)
      \<and> same_others ?k f (dq_move (\<lambda>k xs. xs @ [k]) ?st st ?k f)" if "est_wf f s" for f
    using that equeues.move_rep [of "queues_of s" f ?k ?st st] equeues.move_others [of ?k ?st st f]
      equeues.move_members [of "queues_of s" f ?k ?st st]
    by (auto simp: est_wf_def queues_set_status same_others_def)
  then show ?thesis
    unfolding est_step_def by (auto simp: outs_set_status)
qed

text \<open>Building blocks, in the form that appends one operation to a chain.\<close>

lemma step_set_status: "est_step e a s \<Longrightarrow> est_step e a (member_set_status e st s)"
  by (rule est_step_trans [OF _ est_step_set_status])

lemma step_on_mb:
  assumes "est_step e a s" "m_key (g (mb s)) = m_key (mb s)" "step_of (g (mb s)) = step_of (mb s)"
    and "refcount (g (mb s)) = refcount (mb s)"
  shows "est_step e a (on_mb g s)"
  by (rule est_step_trans [OF assms(1) est_stepI [where os = "[]"]]) (use assms in simp_all)

lemma step_emit: "est_step e a s \<Longrightarrow> ref_weight e x = 0 \<Longrightarrow> est_step e a (emit x s)"
  by (erule est_step_trans, rule est_stepI [where os = "[x]"]) simp_all

lemma step_fault: "est_step e a s \<Longrightarrow> est_step e a (fault_if b s)"
  by (erule est_step_trans, rule est_stepI [where os = "[]"]) simp_all

text \<open>A request whose completion refers to the member, with the reference it takes.\<close>

lemma step_request:
  assumes "est_step e a s" "ref_weight e x = 1"
    and "m_key (g (mb s)) = m_key (mb s)" "step_of (g (mb s)) = step_of (mb s)"
    and "refcount (g (mb s)) = refcount (mb s) + 1"
  shows "est_step e a (on_mb g (emit x s))" "est_step e a (emit x (on_mb g s))"
    "est_step e a (emit_peer e t x (on_mb g s))"
  by (rule est_step_trans [OF assms(1) est_stepI [where os = "[x]"]]; use assms in simp)+

lemma step_defer_USE: "est_step e a s \<Longrightarrow> est_step e a (snd (defer_USE e b s))"
proof (erule est_step_trans)
  show "est_step e s (snd (defer_USE e b s))"
    unfolding defer_USE_def Let_def
    by (auto split: option.splits intro!: est_stepI [where os = "map (\<lambda>p. OutUse p _ b) _"])
qed

text \<open>What the frame relies on for the nested transition.\<close>

definition disc_step :: "env \<Rightarrow> (est \<Rightarrow> est) \<Rightarrow> bool" where
  "disc_step e d \<longleftrightarrow> (\<forall>s. est_step e s (d s))"

lemma step_disc: "disc_step e d \<Longrightarrow> est_step e a s \<Longrightarrow> est_step e a (d s)"
  by (auto simp: disc_step_def intro: est_step_trans)

section \<open>Frame of the actions\<close>

lemmas frame_simps = member_macros

lemma step_to_NONE: "est_step e a s \<Longrightarrow> est_step e a (member_action_to_NONE e s)"
  unfolding member_action_to_NONE_def by (intro step_set_status step_on_mb) (simp_all add: frame_simps)

lemma step_to_FAILED: "est_step e a s \<Longrightarrow> est_step e a (member_action_to_FAILED e s)"
  unfolding member_action_to_FAILED_def by (intro step_set_status step_on_mb) (simp_all add: frame_simps)

lemma step_fail_on_error:
  "disc_step e d \<Longrightarrow> est_step e a s \<Longrightarrow> est_step e a (member_fail_on_error d e z s)"
  by (simp add: member_fail_on_error_def step_to_FAILED step_disc)

lemma step_to_LEAVE:
  assumes "disc_step e d" "est_step e a s"
  shows "est_step e a (common_action_to_LEAVE d e st s)"
proof -
  let ?s1 = "on_mb (\<lambda>m. m\<lparr>requested_LEAVE := False, requested_LEFT_SELF := False,
     requested_LEFT_MASTER := False,
     when_unstable := (if when_unstable m \<le> 0 then now e else when_unstable m)\<rparr>) s"
  have s1: "est_step e a ?s1" by (intro step_on_mb assms) simp_all
  define s3 where "s3 = (let s2 = (if zoo_35 e
      then (case member_masterpath (mb ?s1) of Some path \<Rightarrow> emit (OutZkDelWatch path) ?s1 | None \<Rightarrow> ?s1)
      else ?s1) in if zoo_35 e then emit (OutZkDelWatch (member_fullpath (mb s2))) s2 else s2)"
  have s3: "est_step e a s3"
    unfolding s3_def Let_def using s1 by (auto intro!: step_emit split: option.splits)
  let ?p = "member_fullpath (mb ?s1)"
  have eq: "common_action_to_LEAVE d e st s =
    (if zrc_delete e \<noteq> ZOK then member_fail_on_error d e (zrc_delete e) (emit (OutZkDelete ?p) s3)
     else member_set_status e st
       (on_mb (\<lambda>m. member_reset_peers (member_reset_master (member_ref
          (m\<lparr>pending_ZK_DELETE := True\<rparr>)))) (emit (OutZkDelete ?p) s3)))"
    by (simp add: common_action_to_LEAVE_def Let_def s3_def split: option.splits)
  show ?thesis
    unfolding eq
    by (auto intro!: step_fail_on_error step_emit step_set_status step_request s3 assms
        simp: frame_simps)
qed

lemma step_LEAVING:
  assumes "disc_step e d" "est_step e a s"
  shows "est_step e a (member_action_to_LEAVING d e s)"
    "est_step e a (member_action_to_LEAVING_FAILING d e s)"
  using assms by (simp_all add: leave_defs step_to_LEAVE)

lemma step_leave_on_error:
  "disc_step e d \<Longrightarrow> est_step e a s \<Longrightarrow> est_step e a (member_leave_on_error d e z s)"
  by (simp add: member_leave_on_error_def step_LEAVING step_disc)

lemma step_to_CREATING:
  assumes "disc_step e d" "est_step e a s"
  shows "est_step e a (member_action_to_CREATING d e s)"
proof -
  let ?s1 = "on_mb (\<lambda>m. m\<lparr>requested_USE := False,
     when_unstable := (if when_unstable m \<le> 0 then now e else when_unstable m)\<rparr>) s"
  have "est_step e a ?s1" by (intro step_on_mb assms) simp_all
  then show ?thesis
    unfolding member_action_to_CREATING_def Let_def split_beta
    by (auto intro!: step_to_NONE step_to_FAILED step_fail_on_error step_emit step_set_status
        step_request step_defer_USE assms simp: frame_simps)
qed

lemma step_react_PEERING:
  assumes "disc_step e d" "est_step e a s"
  shows "est_step e a (member_react_PEERING d e evt ps s)"
proof -
  have "est_step e a (on_mb (\<lambda>m. (member_reset_peers m)\<lparr>peers := ps\<rparr>) s)"
    by (intro step_on_mb assms) (simp_all add: frame_simps)
  then show ?thesis
    unfolding member_react_PEERING_def Let_def
    by (auto intro!: step_to_FAILED step_to_CREATING step_on_mb assms split: event.splits)
qed

lemma step_to_PEERING:
  assumes "disc_step e d" "est_step e a s"
  shows "est_step e a (member_action_to_PEERING d e s)"
proof -
  have "est_step e a (on_mb (\<lambda>m. m\<lparr>when_unstable := now e\<rparr>) s)"
    by (intro step_on_mb assms) simp_all
  then show ?thesis
    unfolding member_action_to_PEERING_def Let_def
    by (auto intro!: step_react_PEERING step_set_status step_request assms split: option.splits
        simp: frame_simps) (auto intro!: step_on_mb)
qed

lemma step_START: "disc_step e d \<Longrightarrow> est_step e a s \<Longrightarrow> est_step e a (member_action_START d e s)"
  by (simp add: member_action_START_def step_to_PEERING)

lemma step_to_WATCHING:
  "disc_step e d \<Longrightarrow> est_step e a s \<Longrightarrow> est_step e a (member_action_to_WATCHING d e s)"
  unfolding member_action_to_WATCHING_def Let_def
  by (auto intro!: step_leave_on_error step_emit step_set_status step_request simp: frame_simps)

lemma step_to_LISTING:
  assumes "disc_step e d" "est_step e a s"
  shows "est_step e a (member_action_to_LISTING d e s)"
proof -
  have "est_step e a (on_mb (\<lambda>m. member_reset_master (m\<lparr>requested_LEFT_MASTER := False\<rparr>)) s)"
    by (intro step_on_mb assms) (simp_all add: frame_simps)
  then show ?thesis
    unfolding member_action_to_LISTING_def Let_def
    by (auto intro!: step_leave_on_error step_emit step_set_status step_request assms
        simp: frame_simps)
qed

lemma step_to_ASKING:
  "disc_step e d \<Longrightarrow> est_step e a s \<Longrightarrow> est_step e a (member_action_to_ASKING d e s)"
  unfolding member_action_to_ASKING_def Let_def
  by (auto intro!: step_leave_on_error step_emit step_set_status step_request step_fault
      split: option.splits simp: frame_simps)

lemma step_to_SYNCING: "est_step e a s \<Longrightarrow> est_step e a (member_action_to_SYNCING e s)"
  unfolding member_action_to_SYNCING_def Let_def
  by (intro step_set_status step_request) (simp_all add: frame_simps)

lemma step_to_REFRESH:
  assumes "est_step e a s"
  shows "est_step e a (member_action_to_REFRESH_CHECKING_MASTER e s)"
    "est_step e a (member_action_to_REFRESH_CHECKING_SLAVES e s)"
  unfolding member_action_to_REFRESH_CHECKING_MASTER_def member_action_to_REFRESH_CHECKING_SLAVES_def
  by (intro step_set_status step_request assms; simp add: frame_simps)+

lemma step_to_DELAYED:
  assumes "est_step e a s"
  shows "est_step e a (member_action_to_DELAYED_CHECKING_MASTER e s)"
    "est_step e a (member_action_to_DELAYED_CHECKING_SLAVES e s)"
  unfolding member_action_to_DELAYED_CHECKING_MASTER_def member_action_to_DELAYED_CHECKING_SLAVES_def
  by (intro step_set_status assms)+

lemma step_send_GETVERS: "est_step e a s \<Longrightarrow> est_step e a (send_GETVERS e al ps s)"
  by (erule est_step_trans, rule est_stepI [where os = "map (\<lambda>p. OutGetvers (Some p) al) ps"]) simp_all

lemma step_to_CM: 
  assumes "est_step e a s"
  shows "est_step e a (member_action_to_CHECKING_MASTER e s)"
  unfolding member_action_to_CHECKING_MASTER_def Let_def
  by (intro step_set_status step_request step_fault step_on_mb assms) (simp_all add: frame_simps)

lemma step_to_CS:
  assumes "est_step e a s"
  shows "est_step e a (member_action_to_CHECKING_SLAVES e s)"
proof -
  let ?s1 = "on_mb (\<lambda>m. m\<lparr>attempts_GETVERS :=
     (if step_of m \<noteq> STEP_CHECKING_SLAVES then of_nat (getvers_attempts e) else attempts_GETVERS m)\<rparr>) s"
  have "est_step e a ?s1" by (intro step_on_mb assms) simp_all
  then show ?thesis
    unfolding member_action_to_CHECKING_SLAVES_def Let_def
    by (auto intro!: step_set_status step_send_GETVERS step_fault split: option.splits)
       (auto intro!: step_on_mb step_fault)
qed

lemma step_to_MASTER:
  assumes "est_step e a s"
  shows "est_step e a (member_action_to_MASTER e s)"
  unfolding member_action_to_MASTER_def
  by (intro step_set_status step_defer_USE step_on_mb assms) simp_all

lemma step_to_SLAVE:
  assumes "est_step e a s"
  shows "est_step e a (member_action_to_SLAVE e s)"
  unfolding member_action_to_SLAVE_def by (intro step_set_status step_on_mb assms) simp_all

lemmas step_actions = step_to_NONE step_to_FAILED step_LEAVING step_to_CREATING step_START
  step_to_WATCHING step_to_LISTING step_to_ASKING step_to_SYNCING step_to_REFRESH step_to_DELAYED
  step_to_CM step_to_CS step_to_MASTER step_to_SLAVE step_on_mb step_fault

lemma step_finish_CM:
  assumes "disc_step e d" "est_step e a s"
  shows "est_step e a (member_finish_CHECKING_MASTER d e s)"
  unfolding member_finish_CHECKING_MASTER_def Let_def
  by (auto intro!: step_actions assms simp: frame_simps)

lemma step_finish_CS:
  assumes "disc_step e d" "est_step e a s"
  shows "est_step e a (member_finish_CHECKING_SLAVES d e s)"
  unfolding member_finish_CHECKING_SLAVES_def Let_def
  by (auto intro!: step_actions assms simp: frame_simps)

section \<open>Frame of the reactions and of the transitions\<close>

lemmas react_defs = member_react_NONE_def member_react_CREATING_def
  member_react_WATCHING_def member_react_LISTING_def member_react_ASKING_def
  member_react_CHECKING_MASTER_def member_react_CHECKING_SLAVES_def member_react_LEAVING_def
  member_react_LEAVING_FAILING_def member_react_SYNCING_def
  member_react_REFRESH_CHECKING_MASTER_def member_react_DELAYED_CHECKING_SLAVES_def
  member_react_REFRESH_CHECKING_SLAVES_def member_react_DELAYED_CHECKING_MASTER_def
  member_react_SLAVE_def member_react_MASTER_def member_react_FAILED_def

lemma step_react:
  assumes "disc_step e d" "est_step e a s"
  shows "est_step e a (member_react d e evt arg s)"
proof (cases "evt = EVT_DISCONNECTED")
  case True
  then show ?thesis
    by (auto simp: member_react_def frame_simps intro!: step_actions assms)
next
  case False
  then show ?thesis
    using assms
    by (cases "step_of (mb s)"; cases evt; simp add: member_react_def react_defs Let_def)
       (auto intro!: step_actions step_finish_CM step_finish_CS step_react_PEERING
        simp: frame_simps Let_def split: option.splits)
qed

lemma step_log_change:
  assumes "est_step e s (g s)"
  shows "est_step e s (member_log_change e evt g s)"
proof -
  have "est_step e s (member_log_event e pre evt (g s))" for pre
    by (rule est_step_trans [OF assms est_stepI [where os = "[]"]])
       (simp_all add: member_log_event_def Let_def)
  with assms show ?thesis by (simp add: member_log_change_def Let_def)
qed

lemma step_transition_with:
  assumes "disc_step e d"
  shows "est_step e s (transition_with d e evt arg s)"
proof -
  have "est_step e s' (member_log_change e ev (member_react d e ev ar) s')" for ev ar s'
    by (intro step_log_change step_react assms est_step_refl)
  then show ?thesis
    unfolding transition_with_def Let_def by (auto intro: est_step_trans)
qed

lemma disc_step_id: "disc_step e (\<lambda>s. s)"
  by (simp add: disc_step_def)

lemma disc_step_transition: "disc_step e (transition_disc e)"
  unfolding disc_step_def transition_disc_def by (intro allI step_transition_with disc_step_id)

lemma step_transition: "est_step e s (transition e evt arg s)"
  unfolding transition_def by (rule step_transition_with [OF disc_step_transition])

end
