(* ===== verification/Election_Safety.thy ===== *)
theory Election_Safety
  imports Election_Frame
begin

text \<open>
  Safety of the election state machine: the invariant of a member is kept by every reaction,
  transition and completion, whatever the order of the events; the edges of the machine; and
  what is required of a member that becomes MASTER or SLAVE.
\<close>

section \<open>The invariant after each reaction\<close>

lemma est_ok_on_mb [simp]: "est_ok (on_mb f s) = (crashed s \<or> member_inv (f (mb s)))"
  by (simp add: est_ok_def)

lemma est_ok_fault [simp]: "est_ok (fault_if True s)"
  by (simp add: est_ok_def)

lemma react_NONE_ok:
  assumes "disc_ok d" "now e > 0" "member_inv (mb s)" "step_of (mb s) = STEP_NONE"
  shows "est_ok (member_react_NONE d e evt s)"
  using assms est_okI [OF assms(3)]
  by (auto simp: member_react_NONE_def Let_def intro!: START_ok split: event.splits)
     (auto simp: inv_defs)

lemma react_PEERING_ok:
  assumes "disc_ok d" "now e > 0" "member_inv (mb s)" "step_of (mb s) = STEP_PEERING" "ps \<noteq> Some []"
  shows "est_ok (member_react_PEERING d e evt ps s)"
proof (cases "evt = EVT_GETPEERS_DONE")
  case True
  have "quiet (mb s)" "when_unstable (mb s) > 0" using assms(3,4) by (auto simp: inv_defs)
  then show ?thesis using True assms by (auto intro!: react_PEERING_done_ok)
next
  case False
  then show ?thesis
    using assms est_okI [OF assms(3)]
    by (auto simp: member_react_PEERING_def split: event.splits)
qed

lemma react_CREATING_ok:
  assumes "disc_ok d" "now e > 0" "member_inv (mb s)" "step_of (mb s) = STEP_CREATING"
  shows "est_ok (member_react_CREATING d e evt i s)"
  using assms est_okI [OF assms(3)]
  by (auto simp: member_react_CREATING_def Let_def leave_defs inv_request_flags intro!: act_ok
      split: event.splits option.splits)
     (auto simp: inv_defs member_macros)

lemma react_WATCHING_ok:
  assumes "disc_ok d" "now e > 0" "member_inv (mb s)" "step_of (mb s) = STEP_WATCHING"
  shows "est_ok (member_react_WATCHING d e evt s)"
  using assms est_okI [OF assms(3)]
  by (auto simp: member_react_WATCHING_def Let_def leave_defs inv_request_flags intro!: act_ok
      split: event.splits option.splits)
     (auto simp: inv_defs member_macros)

lemma react_LISTING_ok:
  assumes "disc_ok d" "now e > 0" "member_inv (mb s)" "step_of (mb s) = STEP_LISTING"
  shows "est_ok (member_react_LISTING d e evt i s)"
  using assms est_okI [OF assms(3)]
  by (auto simp: member_react_LISTING_def Let_def leave_defs inv_request_flags intro!: act_ok
      split: event.splits option.splits)
     (auto simp: inv_defs member_macros)

lemma react_ASKING_ok:
  assumes "disc_ok d" "now e > 0" "member_inv (mb s)" "step_of (mb s) = STEP_ASKING" and "evt = EVT_MASTER_OK \<longrightarrow> u \<noteq> None"
  shows "est_ok (member_react_ASKING d e evt u s)"
  using assms est_okI [OF assms(3)]
  by (auto simp: member_react_ASKING_def Let_def leave_defs inv_request_flags intro!: act_ok
      split: event.splits option.splits)
     (auto simp: inv_defs member_macros)

lemma react_LEAVING_ok:
  assumes "disc_ok d" "now e > 0" "member_inv (mb s)" "step_of (mb s) = STEP_LEAVING"
  shows "est_ok (member_react_LEAVING d e evt s)"
  using assms est_okI [OF assms(3)]
  by (auto simp: member_react_LEAVING_def Let_def leave_defs inv_request_flags intro!: act_ok
      split: event.splits option.splits)
     (auto simp: inv_defs member_macros)

lemma react_LEAVING_FAILING_ok:
  assumes "disc_ok d" "now e > 0" "member_inv (mb s)" "step_of (mb s) = STEP_LEAVING_FAILING"
  shows "est_ok (member_react_LEAVING_FAILING e evt s)"
  using assms est_okI [OF assms(3)]
  by (auto simp: member_react_LEAVING_FAILING_def Let_def leave_defs inv_request_flags intro!: act_ok
      split: event.splits option.splits)
     (auto simp: inv_defs member_macros)

lemma react_SYNCING_ok:
  assumes "disc_ok d" "now e > 0" "member_inv (mb s)" "step_of (mb s) = STEP_SYNCING"
  shows "est_ok (member_react_SYNCING d e evt s)"
  using assms est_okI [OF assms(3)]
  by (auto simp: member_react_SYNCING_def Let_def leave_defs inv_request_flags intro!: act_ok
      split: event.splits option.splits)
     (auto simp: inv_defs member_macros)

lemma react_REFRESH_CHECKING_MASTER_ok:
  assumes "disc_ok d" "now e > 0" "member_inv (mb s)" "step_of (mb s) = STEP_REFRESH_CHECKING_MASTER" and "ps \<noteq> Some []"
  shows "est_ok (member_react_REFRESH_CHECKING_MASTER d e evt ps s)"
  using assms est_okI [OF assms(3)]
  by (auto simp: member_react_REFRESH_CHECKING_MASTER_def Let_def leave_defs inv_request_flags intro!: act_ok
      split: event.splits option.splits)
     (auto simp: inv_defs member_macros)

lemma react_REFRESH_CHECKING_SLAVES_ok:
  assumes "disc_ok d" "now e > 0" "member_inv (mb s)" "step_of (mb s) = STEP_REFRESH_CHECKING_SLAVES" and "ps \<noteq> Some []"
  shows "est_ok (member_react_REFRESH_CHECKING_SLAVES d e evt ps s)"
  using assms est_okI [OF assms(3)]
  by (auto simp: member_react_REFRESH_CHECKING_SLAVES_def Let_def leave_defs inv_request_flags intro!: act_ok
      split: event.splits option.splits)
     (auto simp: inv_defs member_macros)

lemma react_DELAYED_CHECKING_MASTER_ok:
  assumes "disc_ok d" "now e > 0" "member_inv (mb s)" "step_of (mb s) = STEP_DELAYED_CHECKING_MASTER"
  shows "est_ok (member_react_DELAYED_CHECKING_MASTER d e evt s)"
  using assms est_okI [OF assms(3)]
  by (auto simp: member_react_DELAYED_CHECKING_MASTER_def Let_def leave_defs inv_request_flags intro!: act_ok
      split: event.splits option.splits)
     (auto simp: inv_defs member_macros)

lemma react_DELAYED_CHECKING_SLAVES_ok:
  assumes "disc_ok d" "now e > 0" "member_inv (mb s)" "step_of (mb s) = STEP_DELAYED_CHECKING_SLAVES"
  shows "est_ok (member_react_DELAYED_CHECKING_SLAVES d e evt s)"
  using assms est_okI [OF assms(3)]
  by (auto simp: member_react_DELAYED_CHECKING_SLAVES_def Let_def leave_defs inv_request_flags intro!: act_ok
      split: event.splits option.splits)
     (auto simp: inv_defs member_macros)

lemma react_SLAVE_ok:
  assumes "disc_ok d" "now e > 0" "member_inv (mb s)" "step_of (mb s) = STEP_SLAVE"
  shows "est_ok (member_react_SLAVE d e evt s)"
  using assms est_okI [OF assms(3)]
  by (auto simp: member_react_SLAVE_def Let_def leave_defs inv_request_flags intro!: act_ok
      split: event.splits option.splits)
     (auto simp: inv_defs member_macros)

lemma react_MASTER_ok:
  assumes "disc_ok d" "now e > 0" "member_inv (mb s)" "step_of (mb s) = STEP_MASTER"
  shows "est_ok (member_react_MASTER d e evt s)"
  using assms est_okI [OF assms(3)]
  by (auto simp: member_react_MASTER_def Let_def leave_defs inv_request_flags intro!: act_ok
      split: event.splits option.splits)
     (auto simp: inv_defs member_macros)

lemma react_FAILED_ok:
  assumes "disc_ok d" "now e > 0" "member_inv (mb s)" "step_of (mb s) = STEP_FAILED"
  shows "est_ok (member_react_FAILED d e evt s)"
  using assms est_okI [OF assms(3)]
  by (auto simp: member_react_FAILED_def Let_def leave_defs inv_request_flags intro!: act_ok
      split: event.splits option.splits)
     (auto simp: inv_defs member_macros)

lemma react_CHECKING_MASTER_ok:
  assumes "disc_ok d" "now e > 0" "member_inv (mb s)" "step_of (mb s) = STEP_CHECKING_MASTER"
  shows "est_ok (member_react_CHECKING_MASTER d e evt s)"
  using assms est_okI [OF assms(3)]
  by (auto simp: member_react_CHECKING_MASTER_def inv_request_flags intro!: finish_CM_ok
      split: event.splits)
     (auto simp: inv_defs)

lemma word8_lt: "unat (w :: guint8) < 256"
proof -
  have "unat w < 2 ^ LENGTH(8)" by (rule unsigned_less)
  then show ?thesis by simp
qed

lemma react_CHECKING_SLAVES_ok:
  assumes "disc_ok d" "now e > 0" "member_inv (mb s)" "step_of (mb s) = STEP_CHECKING_SLAVES"
  shows "est_ok (member_react_CHECKING_SLAVES d e evt s)"
proof -
  let ?m = "mb s"
  have g: "unat (outdated_GETVERS ?m) + unat (concurrent_GETVERS ?m) + unat (errors_GETVERS ?m)
      + unat (pending_GETVERS ?m) \<le> unat (count_GETVERS ?m)" "0 < unat (pending_GETVERS ?m)"
    using assms(3,4) by (auto simp: inv_defs unat_gt_0)
  then have "unat (outdated_GETVERS ?m + 1) = unat (outdated_GETVERS ?m) + 1"
    "unat (concurrent_GETVERS ?m + 1) = unat (concurrent_GETVERS ?m) + 1"
    "unat (errors_GETVERS ?m + 1) = unat (errors_GETVERS ?m) + 1"
    using word8_lt [of "count_GETVERS ?m"] by (intro word8_succ, linarith)+
  then show ?thesis
    using assms g est_okI [OF assms(3)]
    by (auto simp: member_react_CHECKING_SLAVES_def inv_request_flags intro!: finish_CS_ok
        split: event.splits)
       (auto simp: inv_defs)
qed

lemmas react_ok = react_NONE_ok react_PEERING_ok react_CREATING_ok react_WATCHING_ok
  react_LISTING_ok react_ASKING_ok react_CHECKING_MASTER_ok react_CHECKING_SLAVES_ok
  react_LEAVING_ok react_LEAVING_FAILING_ok react_SYNCING_ok react_REFRESH_CHECKING_MASTER_ok
  react_REFRESH_CHECKING_SLAVES_ok react_DELAYED_CHECKING_MASTER_ok
  react_DELAYED_CHECKING_SLAVES_ok react_SLAVE_ok react_MASTER_ok react_FAILED_ok

lemma arg_peers_nonempty: "arg_ok EVT_GETPEERS_DONE arg \<Longrightarrow> arg_peers arg \<noteq> Some []"
  by (simp add: arg_ok_def)

section \<open>The invariant after a transition\<close>

lemma disconnected_ok: "est_ok (member_action_to_NONE e (on_mb member_reset s))"
  by (rule to_NONE_ok) (simp add: inv_defs member_macros)

text \<open>Peers are only read from the argument of \<^verbatim>\<open>EVT_GETPEERS_DONE\<close>.\<close>

lemma react_PEERING_other:
  "evt \<noteq> EVT_GETPEERS_DONE \<Longrightarrow> member_react_PEERING d e evt ps s = member_react_PEERING d e evt None s"
  "evt \<noteq> EVT_GETPEERS_DONE \<Longrightarrow> member_react_REFRESH_CHECKING_MASTER d e evt ps s
     = member_react_REFRESH_CHECKING_MASTER d e evt None s"
  "evt \<noteq> EVT_GETPEERS_DONE \<Longrightarrow> member_react_REFRESH_CHECKING_SLAVES d e evt ps s
     = member_react_REFRESH_CHECKING_SLAVES d e evt None s"
  by (cases evt; simp add: member_react_PEERING_def member_react_REFRESH_CHECKING_MASTER_def
      member_react_REFRESH_CHECKING_SLAVES_def)+

lemma member_react_ok:
  assumes "disc_ok d" "now e > 0" "member_inv (mb s)" "arg_ok evt arg"
  shows "est_ok (member_react d e evt arg s)"
proof (cases "evt = EVT_DISCONNECTED")
  case True
  then show ?thesis by (simp add: member_react_def disconnected_ok)
next
  case False
  have p: "evt = EVT_GETPEERS_DONE \<Longrightarrow> arg_peers arg \<noteq> Some []"
    and u: "evt = EVT_MASTER_OK \<longrightarrow> arg_url arg \<noteq> None"
    using assms(4) by (auto simp: arg_ok_def)
  show ?thesis
    using False assms(1-3) p u
    by (cases "evt = EVT_GETPEERS_DONE"; cases "step_of (mb s)")
       (simp_all add: member_react_def react_ok react_PEERING_other [of evt _ _ "arg_peers arg"])
qed

lemma est_ok_log_event [simp]: "est_ok (member_log_event e pre evt s) = est_ok s"
  by (simp add: est_ok_def member_log_event_def Let_def)

lemma est_ok_log_change: "est_ok (f s) \<Longrightarrow> est_ok (member_log_change e evt f s)"
  by (simp add: member_log_change_def Let_def)

lemma crashed_log_change [simp]: "crashed (member_log_change e evt f s) = crashed (f s)"
  by (simp add: member_log_change_def Let_def)

lemma est_ok_crashed: "crashed s \<Longrightarrow> est_ok s"
  by (simp add: est_ok_def)

lemma log_react_ok:
  assumes "disc_ok d" "disc_step e d" "now e > 0" "est_ok s" "arg_ok evt arg"
  shows "est_ok (member_log_change e evt (member_react d e evt arg) s)"
proof (cases "crashed s")
  case True
  have "est_step e s (member_react d e evt arg s)" by (rule step_react [OF assms(2) est_step_refl])
  with True have "crashed (member_react d e evt arg s)" by (simp add: est_step_def)
  then show ?thesis by (simp add: est_ok_crashed)
next
  case False
  with assms show ?thesis by (simp add: est_ok_log_change member_react_ok est_ok_def [of s])
qed

lemma transition_with_ok:
  assumes "disc_ok d" "disc_step e d" "now e > 0" "est_ok s" "arg_ok evt arg"
  shows "est_ok (transition_with d e evt arg s)"
  using assms log_react_ok [OF assms] log_react_ok [OF assms(1-3), of _ EVT_NONE NoArg]
  by (simp add: transition_with_def Let_def arg_ok_def)

text \<open>The nested transition establishes the invariant from any state.\<close>

lemma disc_ok_transition:
  assumes "now e > 0"
  shows "disc_ok (transition_disc e)"
  unfolding disc_ok_def
proof
  fix s
  let ?s1 = "member_log_change e EVT_DISCONNECTED
    (\<lambda>s. member_action_to_NONE e (on_mb member_reset s)) s"
  have s1: "est_ok ?s1" by (simp add: est_ok_log_change disconnected_ok)
  have q: "quiet (mb ?s1)" "peers (mb ?s1) = None" "step_of (mb ?s1) = STEP_NONE"
    by (simp_all add: member_log_change_def Let_def member_log_event_def member_action_to_NONE_def
        inv_defs member_macros)
  then have "est_ok (member_react (\<lambda>s. s) e EVT_NONE NoArg ?s1)"
    using assms s1
    by (simp add: member_react_def member_react_NONE_def member_action_START_def
        member_action_to_PEERING_def Let_def est_ok_def) (simp add: inv_defs member_macros)
  then show "est_ok (transition_disc e s)"
    using s1 by (simp add: transition_disc_def transition_with_def disconnected_react Let_def
        est_ok_log_change)
qed

lemma transition_ok:
  "now e > 0 \<Longrightarrow> est_ok s \<Longrightarrow> arg_ok evt arg \<Longrightarrow> est_ok (transition e evt arg s)"
  unfolding transition_def
  by (rule transition_with_ok [OF disc_ok_transition disc_step_transition])

lemma transition_error_ok:
  "now e > 0 \<Longrightarrow> est_ok s \<Longrightarrow> arg_ok evt NoArg \<Longrightarrow> est_ok (transition_error e evt z s)"
  by (simp add: transition_error_def transition_ok arg_ok_def)

lemma est_ok_unref [simp]: "est_ok (on_mb member_unref s) = est_ok s"
  by (simp add: est_ok_def member_unref_def)

lemma est_ok_decache [simp]: "est_ok (on_mb (\<lambda>m. m\<lparr>requested_peers_decache := b\<rparr>) s) = est_ok s"
  by (simp add: est_ok_def)

lemma est_ok_emit [simp]: "est_ok (emit x s) = est_ok s"
  by (simp add: est_ok_def)

lemma completions_ok:
  assumes "now e > 0" "est_ok s"
  shows "est_ok (completion_CREATING e z er path s)" "est_ok (completion_WATCHING e z s)"
    "est_ok (completion_ASKING e z v s)" "est_ok (completion_LISTING e z er sv s)"
    "est_ok (completion_LEAVING e z s)" "est_ok (result_GETVERS e enet vr gv s)"
    "est_ok (result_PIPEFROM e err s)" "est_ok (snd (worker_getpeers_begin s))"
    "est_ok (worker_getpeers_end e res s)"
  using assms
  by (simp_all add: completion_CREATING_def completion_WATCHING_def completion_ASKING_def
      deferred_completion_ASKING_def completion_LISTING_def completion_LEAVING_def
      result_GETVERS_def result_PIPEFROM_def worker_getpeers_begin_def worker_getpeers_end_def
      Let_def transition_ok transition_error_ok arg_ok_def del: est_ok_on_mb
      split: option.splits sum.splits)

section \<open>Edges of the state machine\<close>

text \<open>
  The steps a transition may end in, from each step.  NONE and PEERING are always possible
  (loss of the ZooKeeper session); CREATING and FAILED also are, because a member back in NONE
  with a request pending starts again at once.
\<close>

fun fsm_next :: "step \<Rightarrow> step set" where
  "fsm_next STEP_NONE = {STEP_NONE, STEP_PEERING, STEP_CREATING, STEP_FAILED}"
| "fsm_next STEP_PEERING = {STEP_NONE, STEP_PEERING, STEP_CREATING, STEP_FAILED}"
| "fsm_next STEP_CREATING = {STEP_NONE, STEP_PEERING, STEP_CREATING, STEP_FAILED, STEP_WATCHING,
     STEP_LEAVING, STEP_LEAVING_FAILING}"
| "fsm_next STEP_WATCHING = {STEP_NONE, STEP_PEERING, STEP_CREATING, STEP_FAILED, STEP_WATCHING,
     STEP_LISTING, STEP_LEAVING, STEP_LEAVING_FAILING}"
| "fsm_next STEP_LISTING = {STEP_NONE, STEP_PEERING, STEP_CREATING, STEP_FAILED, STEP_LISTING,
     STEP_ASKING, STEP_CHECKING_SLAVES, STEP_LEAVING, STEP_LEAVING_FAILING}"
| "fsm_next STEP_ASKING = {STEP_NONE, STEP_PEERING, STEP_CREATING, STEP_FAILED, STEP_ASKING,
     STEP_LISTING, STEP_CHECKING_MASTER, STEP_LEAVING, STEP_LEAVING_FAILING}"
| "fsm_next STEP_CHECKING_MASTER = {STEP_NONE, STEP_PEERING, STEP_CREATING, STEP_FAILED,
     STEP_CHECKING_MASTER, STEP_LISTING, STEP_SYNCING, STEP_DELAYED_CHECKING_MASTER, STEP_SLAVE,
     STEP_LEAVING, STEP_LEAVING_FAILING}"
| "fsm_next STEP_CHECKING_SLAVES = {STEP_NONE, STEP_PEERING, STEP_CREATING, STEP_FAILED,
     STEP_CHECKING_SLAVES, STEP_DELAYED_CHECKING_SLAVES, STEP_MASTER,
     STEP_LEAVING, STEP_LEAVING_FAILING}"
| "fsm_next STEP_SYNCING = {STEP_NONE, STEP_PEERING, STEP_CREATING, STEP_FAILED, STEP_SYNCING,
     STEP_LISTING, STEP_SLAVE, STEP_LEAVING, STEP_LEAVING_FAILING}"
| "fsm_next STEP_DELAYED_CHECKING_MASTER = {STEP_NONE, STEP_PEERING, STEP_CREATING, STEP_FAILED,
     STEP_DELAYED_CHECKING_MASTER, STEP_REFRESH_CHECKING_MASTER, STEP_CHECKING_MASTER,
     STEP_LISTING, STEP_LEAVING, STEP_LEAVING_FAILING}"
| "fsm_next STEP_REFRESH_CHECKING_MASTER = {STEP_NONE, STEP_PEERING, STEP_CREATING, STEP_FAILED,
     STEP_REFRESH_CHECKING_MASTER, STEP_CHECKING_MASTER, STEP_LISTING, STEP_LEAVING,
     STEP_LEAVING_FAILING}"
| "fsm_next STEP_DELAYED_CHECKING_SLAVES = {STEP_NONE, STEP_PEERING, STEP_CREATING, STEP_FAILED,
     STEP_DELAYED_CHECKING_SLAVES, STEP_REFRESH_CHECKING_SLAVES, STEP_CHECKING_SLAVES,
     STEP_LEAVING, STEP_LEAVING_FAILING}"
| "fsm_next STEP_REFRESH_CHECKING_SLAVES = {STEP_NONE, STEP_PEERING, STEP_CREATING, STEP_FAILED,
     STEP_REFRESH_CHECKING_SLAVES, STEP_CHECKING_SLAVES, STEP_LEAVING, STEP_LEAVING_FAILING}"
| "fsm_next STEP_LEAVING = {STEP_NONE, STEP_PEERING, STEP_CREATING, STEP_FAILED, STEP_LEAVING,
     STEP_LEAVING_FAILING}"
| "fsm_next STEP_LEAVING_FAILING = {STEP_NONE, STEP_PEERING, STEP_CREATING, STEP_FAILED,
     STEP_LEAVING_FAILING}"
| "fsm_next STEP_FAILED = {STEP_NONE, STEP_PEERING, STEP_CREATING, STEP_FAILED}"
| "fsm_next STEP_SLAVE = {STEP_NONE, STEP_PEERING, STEP_CREATING, STEP_FAILED, STEP_SLAVE,
     STEP_LISTING, STEP_SYNCING, STEP_LEAVING, STEP_LEAVING_FAILING}"
| "fsm_next STEP_MASTER = {STEP_NONE, STEP_PEERING, STEP_CREATING, STEP_FAILED, STEP_MASTER,
     STEP_LEAVING}"

text \<open>The nested transition ends in NONE or in PEERING.\<close>

definition disc_dest :: "(est \<Rightarrow> est) \<Rightarrow> bool" where
  "disc_dest d \<longleftrightarrow> (\<forall>s. step_of (mb (d s)) \<in> {STEP_NONE, STEP_PEERING})"

abbreviation fail_dest :: "step set" where
  "fail_dest \<equiv> {STEP_NONE, STEP_PEERING, STEP_FAILED}"

lemma dest_disc: "disc_dest d \<Longrightarrow> {STEP_NONE, STEP_PEERING} \<subseteq> A \<Longrightarrow> step_of (mb (d s)) \<in> A"
  unfolding disc_dest_def by blast

lemma dest_fail_on_error:
  "disc_dest d \<Longrightarrow> fail_dest \<subseteq> A \<Longrightarrow> step_of (mb (member_fail_on_error d e z s)) \<in> A"
  by (auto simp: member_fail_on_error_def member_action_to_FAILED_def dest_disc)

lemma dest_LEAVE:
  "disc_dest d \<Longrightarrow> insert st fail_dest \<subseteq> A \<Longrightarrow> step_of (mb (common_action_to_LEAVE d e st s)) \<in> A"
  by (auto simp: common_action_to_LEAVE_def Let_def intro!: dest_fail_on_error)

lemma dest_leave_on_error:
  "disc_dest d \<Longrightarrow> insert STEP_LEAVING_FAILING fail_dest \<subseteq> A \<Longrightarrow>
     step_of (mb (member_leave_on_error d e z s)) \<in> A"
  by (auto simp: member_leave_on_error_def leave_defs dest_disc intro!: dest_LEAVE)

lemma dest_CREATING:
  "disc_dest d \<Longrightarrow> insert STEP_CREATING fail_dest \<subseteq> A \<Longrightarrow>
     step_of (mb (member_action_to_CREATING d e s)) \<in> A"
  by (auto simp: member_action_to_CREATING_def Let_def split_beta member_action_to_NONE_def
      member_action_to_FAILED_def intro!: dest_fail_on_error)

lemma dest_PEERING_done:
  "disc_dest d \<Longrightarrow> insert STEP_CREATING fail_dest \<subseteq> A \<Longrightarrow>
     step_of (mb (member_react_PEERING d e EVT_GETPEERS_DONE ps s)) \<in> A"
  by (auto simp: member_react_PEERING_def Let_def member_action_to_FAILED_def intro!: dest_CREATING)

lemma dest_START:
  "disc_dest d \<Longrightarrow> insert STEP_CREATING fail_dest \<subseteq> A \<Longrightarrow>
     step_of (mb (member_action_START d e s)) \<in> A"
  by (auto simp: member_action_START_def member_action_to_PEERING_def Let_def
      intro!: dest_PEERING_done split: option.splits)

lemma dest_WATCHING:
  "disc_dest d \<Longrightarrow> {STEP_WATCHING, STEP_LEAVING_FAILING} \<union> fail_dest \<subseteq> A \<Longrightarrow>
     step_of (mb (member_action_to_WATCHING d e s)) \<in> A"
  by (auto simp: member_action_to_WATCHING_def Let_def intro!: dest_leave_on_error)

lemma dest_LISTING:
  "disc_dest d \<Longrightarrow> {STEP_LISTING, STEP_LEAVING_FAILING} \<union> fail_dest \<subseteq> A \<Longrightarrow>
     step_of (mb (member_action_to_LISTING d e s)) \<in> A"
  by (auto simp: member_action_to_LISTING_def Let_def intro!: dest_leave_on_error)

lemma dest_ASKING:
  "disc_dest d \<Longrightarrow> {step_of (mb s), STEP_ASKING, STEP_LEAVING_FAILING} \<union> fail_dest \<subseteq> A \<Longrightarrow>
     step_of (mb (member_action_to_ASKING d e s)) \<in> A"
  by (auto simp: member_action_to_ASKING_def Let_def intro!: dest_leave_on_error split: option.splits)

lemma dest_CS:
  "{step_of (mb s), STEP_CHECKING_SLAVES} \<subseteq> A \<Longrightarrow>
     step_of (mb (member_action_to_CHECKING_SLAVES e s)) \<in> A"
  by (auto simp: member_action_to_CHECKING_SLAVES_def Let_def split: option.splits)

lemma dest_simple [simp]:
  "step_of (mb (member_action_to_NONE e s)) = STEP_NONE"
  "step_of (mb (member_action_to_FAILED e s)) = STEP_FAILED"
  "step_of (mb (member_action_to_SYNCING e s)) = STEP_SYNCING"
  "step_of (mb (member_action_to_REFRESH_CHECKING_MASTER e s)) = STEP_REFRESH_CHECKING_MASTER"
  "step_of (mb (member_action_to_REFRESH_CHECKING_SLAVES e s)) = STEP_REFRESH_CHECKING_SLAVES"
  "step_of (mb (member_action_to_DELAYED_CHECKING_MASTER e s)) = STEP_DELAYED_CHECKING_MASTER"
  "step_of (mb (member_action_to_DELAYED_CHECKING_SLAVES e s)) = STEP_DELAYED_CHECKING_SLAVES"
  "step_of (mb (member_action_to_CHECKING_MASTER e s)) = STEP_CHECKING_MASTER"
  "step_of (mb (member_action_to_MASTER e s)) = STEP_MASTER"
  "step_of (mb (member_action_to_SLAVE e s)) = STEP_SLAVE"
  by (simp_all add: member_action_to_NONE_def member_action_to_FAILED_def member_action_to_SYNCING_def
      member_action_to_REFRESH_CHECKING_MASTER_def member_action_to_REFRESH_CHECKING_SLAVES_def
      member_action_to_DELAYED_CHECKING_MASTER_def member_action_to_DELAYED_CHECKING_SLAVES_def
      member_action_to_CHECKING_MASTER_def member_action_to_MASTER_def member_action_to_SLAVE_def
      Let_def)

lemmas dest_rules = dest_LEAVE dest_CREATING dest_START dest_WATCHING dest_LISTING dest_ASKING
  dest_CS dest_PEERING_done

lemma dest_finish_CM:
  "disc_dest d \<Longrightarrow> step_of (mb s) = STEP_CHECKING_MASTER \<Longrightarrow> fsm_next STEP_CHECKING_MASTER \<subseteq> A \<Longrightarrow>
     step_of (mb (member_finish_CHECKING_MASTER d e s)) \<in> A"
  unfolding member_finish_CHECKING_MASTER_def Let_def leave_defs
  by (auto intro!: dest_rules)

lemma dest_finish_CS:
  "disc_dest d \<Longrightarrow> step_of (mb s) = STEP_CHECKING_SLAVES \<Longrightarrow> fsm_next STEP_CHECKING_SLAVES \<subseteq> A \<Longrightarrow>
     step_of (mb (member_finish_CHECKING_SLAVES d e s)) \<in> A"
  unfolding member_finish_CHECKING_SLAVES_def Let_def leave_defs
  by (auto intro!: dest_rules)

lemma dest_react:
  assumes "disc_dest d" "fsm_next (step_of (mb s)) \<subseteq> A"
  shows "step_of (mb (member_react d e evt arg s)) \<in> A"
proof (cases "evt = EVT_DISCONNECTED")
  case True
  then show ?thesis using assms by (cases "step_of (mb s)") (simp_all add: member_react_def)
next
  case False
  then show ?thesis
    using assms
    by (cases "step_of (mb s)"; cases evt;
        simp add: member_react_def react_defs member_react_PEERING_def Let_def leave_defs)
       (auto intro!: dest_rules dest_finish_CM dest_finish_CS simp: member_macros Let_def leave_defs
        split: option.splits)
qed

lemma disc_dest_transition: "disc_dest (transition_disc e)"
proof -
  have "step_of (mb (transition_disc e s)) \<in> {STEP_NONE, STEP_PEERING}" for s
  proof -
    let ?s1 = "member_log_change e EVT_DISCONNECTED
      (\<lambda>s. member_action_to_NONE e (on_mb member_reset s)) s"
    have "step_of (mb ?s1) = STEP_NONE" "peers (mb ?s1) = None"
      by (simp_all add: member_log_change_def Let_def log_event_peers disconnected_peers)
    then show ?thesis
      by (simp add: transition_disc_def transition_with_def disconnected_react Let_def)
         (simp add: member_log_change_def Let_def member_react_def member_react_NONE_def
          member_action_START_def member_action_to_PEERING_def)
  qed
  then show ?thesis by (simp add: disc_dest_def)
qed

lemma step_of_log_change [simp]: "step_of (mb (member_log_change e evt f s)) = step_of (mb (f s))"
  by (simp add: member_log_change_def Let_def)

lemma fsm_next_NONE_subset: "fsm_next STEP_NONE \<subseteq> fsm_next st"
  by (cases st) simp_all

section \<open>Becoming MASTER or SLAVE\<close>

text \<open>The quorum test of \<^verbatim>\<open>member_finish_CHECKING_SLAVES\<close>, for \<open>n\<close> peers asked.\<close>

lemma quorum_majority:
  "\<not> (errors > 0 \<and> errors \<ge> (n + 1 + 1) div 2) \<Longrightarrow> errors \<le> n \<Longrightarrow>
     2 * (n + 1 - errors) > (n + 1 :: nat)"
  by (cases "errors = 0") auto

lemma not_MASTER:
  assumes "disc_dest d"
  shows "st \<noteq> STEP_MASTER \<Longrightarrow> step_of (mb (common_action_to_LEAVE d e st s)) \<noteq> STEP_MASTER"
    and "step_of (mb (member_action_START d e s)) \<noteq> STEP_MASTER"
  using dest_LEAVE [OF assms, of st "- {STEP_MASTER}" e s] dest_START [OF assms, of "- {STEP_MASTER}" e s]
  by auto

lemma finish_CS_MASTER:
  assumes "disc_dest d" "step_of (mb s) = STEP_CHECKING_SLAVES"
    and "step_of (mb (member_finish_CHECKING_SLAVES d e s)) = STEP_MASTER"
  shows "pending_GETVERS (mb s) = 1 \<and> \<not> requested_LEAVE (mb s) \<and> \<not> requested_LEFT_SELF (mb s)
     \<and> concurrent_GETVERS (mb s) = 0 \<and> outdated_GETVERS (mb s) = 0
     \<and> \<not> (unat (errors_GETVERS (mb s)) > 0
          \<and> unat (errors_GETVERS (mb s)) \<ge> (unat (count_GETVERS (mb s)) + 1 + 1) div 2)"
  using assms not_MASTER [OF assms(1)]
  by (auto simp: member_finish_CHECKING_SLAVES_def Let_def leave_defs member_macros unat_eq_0
      word_gt_0 split: if_splits)

lemma transition_MASTER_react:
  assumes "step_of (mb (transition e evt arg s)) = STEP_MASTER"
  shows "step_of (mb (member_react (transition_disc e) e evt arg s)) = STEP_MASTER"
proof -
  have "step_of (mb (member_react (transition_disc e) e EVT_NONE NoArg s')) \<noteq> STEP_MASTER"
    if "step_of (mb s') = STEP_NONE" for s'
    using dest_react [OF disc_dest_transition [of e], of s' "fsm_next STEP_NONE" e EVT_NONE NoArg] that by auto
  with assms show ?thesis
    by (auto simp: transition_def transition_with_def Let_def split: if_splits)
qed

lemma react_CS_MASTER:
  assumes inv: "member_inv (mb s)" "step_of (mb s) = STEP_CHECKING_SLAVES" "disc_dest d"
    and post: "step_of (mb (member_react_CHECKING_SLAVES d e evt s)) = STEP_MASTER"
  defines "n \<equiv> unat (count_GETVERS (mb s))"
    and "ko \<equiv> unat (errors_GETVERS (mb s)) + (if evt = EVT_GETVERS_KO then 1 else 0)"
  shows "(evt = EVT_GETVERS_OK \<or> evt = EVT_GETVERS_KO)
     \<and> pending_GETVERS (mb s) = 1 \<and> outdated_GETVERS (mb s) = 0 \<and> concurrent_GETVERS (mb s) = 0
     \<and> \<not> requested_LEAVE (mb s) \<and> \<not> requested_LEFT_SELF (mb s) \<and> 2 * (n + 1 - ko) > n + 1"
proof -
  let ?m = "mb s"
  have g: "unat (outdated_GETVERS ?m) + unat (concurrent_GETVERS ?m)
      + unat (errors_GETVERS ?m) + unat (pending_GETVERS ?m) \<le> n" "0 < unat (pending_GETVERS ?m)"
    using inv by (auto simp: inv_defs unat_gt_0 n_def)
  have e1: "unat (errors_GETVERS ?m + 1) = unat (errors_GETVERS ?m) + 1"
    "unat (outdated_GETVERS ?m + 1) = unat (outdated_GETVERS ?m) + 1"
    "unat (concurrent_GETVERS ?m + 1) = unat (concurrent_GETVERS ?m) + 1"
    using g word8_lt [of "count_GETVERS ?m"] by (intro word8_succ, simp add: n_def)+
  then have nz: "outdated_GETVERS ?m + 1 \<noteq> 0" "concurrent_GETVERS ?m + 1 \<noteq> 0"
    by (metis Suc_eq_plus1 nat.simps(3) unat_0)+
  note fin = finish_CS_MASTER [OF inv(3), of _ e]
  have main: "(evt = EVT_GETVERS_OK \<or> evt = EVT_GETVERS_KO) \<and> pending_GETVERS ?m = 1
     \<and> \<not> requested_LEAVE ?m \<and> \<not> requested_LEFT_SELF ?m
     \<and> concurrent_GETVERS ?m = 0 \<and> outdated_GETVERS ?m = 0 \<and> \<not> (ko > 0 \<and> ko \<ge> (n + 1 + 1) div 2)"
    using post inv(2) fin [of s] e1 nz
      fin [of "on_mb (\<lambda>m. m\<lparr>errors_GETVERS := errors_GETVERS m + 1\<rparr>) s"]
      fin [of "on_mb (\<lambda>m. m\<lparr>outdated_GETVERS := outdated_GETVERS m + 1\<rparr>) s"]
      fin [of "on_mb (\<lambda>m. m\<lparr>concurrent_GETVERS := concurrent_GETVERS m + 1\<rparr>) s"]
    by (cases evt) (simp_all add: member_react_CHECKING_SLAVES_def n_def ko_def)
  have "ko \<le> n" using g main by (auto simp: ko_def)
  with main quorum_majority [of ko n] show ?thesis by blast
qed

end
