(* ===== verification/Election_Nominal.thy ===== *)
theory Election_Nominal
  imports Election_Safety
begin

text \<open>
  The nominal paths of an election, event by event: the start, the creation of the node, the
  listing of the siblings, then the exchange of versions with the slaves or with the master;
  and the exchanges of versions that fail.
\<close>

section \<open>Nominal paths\<close>

text \<open>Up to its log, a transition that does not end in NONE is its reaction.\<close>

lemma transition_react:
  assumes "step_of (mb (member_react (transition_disc e) e evt arg s)) \<noteq> STEP_NONE"
  shows "\<exists>li lg. mb (transition e evt arg s) =
    (mb (member_react (transition_disc e) e evt arg s))\<lparr>log_index := li, m_log := lg\<rparr>"
proof -
  let ?r = "member_react (transition_disc e) e evt arg s"
  have "transition e evt arg s = member_log_change e evt (member_react (transition_disc e) e evt arg) s"
    using assms by (simp add: transition_def transition_with_def Let_def)
  moreover have "mb (member_log_change e evt (member_react (transition_disc e) e evt arg) s) = mb ?r
      \<or> (\<exists>li lg. mb (member_log_change e evt (member_react (transition_disc e) e evt arg) s)
             = (mb ?r)\<lparr>log_index := li, m_log := lg\<rparr>)"
    by (auto simp: member_log_change_def Let_def member_log_event_def)
  moreover have "mb ?r = (mb ?r)\<lparr>log_index := log_index (mb ?r), m_log := m_log (mb ?r)\<rparr>" by simp
  ultimately show ?thesis by metis
qed

text \<open>No request of the outside is pending on the member.\<close>

definition undisturbed :: "member \<Rightarrow> bool" where
  "undisturbed m \<longleftrightarrow> \<not> requested_LEAVE m \<and> \<not> requested_LEFT_SELF m \<and> \<not> requested_LEFT_MASTER m"

definition zk_up :: "env \<Rightarrow> bool" where
  "zk_up e \<longleftrightarrow> zrc_create e = ZOK \<and> zrc_exists e = ZOK \<and> zrc_list e = ZOK \<and> zrc_get e = ZOK"

definition at_step :: "step \<Rightarrow> string \<Rightarrow> string list \<Rightarrow> est \<Rightarrow> bool" where
  "at_step st k ps s \<longleftrightarrow> step_of (mb s) = st \<and> m_key (mb s) = k \<and> peers (mb s) = Some ps
     \<and> undisturbed (mb s) \<and> \<not> exiting s"

lemma exiting_transition [simp]: "exiting (transition e evt arg s) = exiting s"
  using step_transition [of e s evt arg] by (simp add: est_step_def)

lemma nominal_start:
  assumes "at_step STEP_NONE k ps s" "zk_up e"
  shows "at_step STEP_CREATING k ps (transition e EVT_NONE NoArg s)"
proof -
  let ?r = "member_react (transition_disc e) e EVT_NONE NoArg s"
  have r: "step_of (mb ?r) = STEP_CREATING \<and> m_key (mb ?r) = k \<and> peers (mb ?r) = Some ps
      \<and> undisturbed (mb ?r)"
    using assms
    by (simp add: at_step_def member_react_def member_react_NONE_def Let_def member_action_START_def
        member_action_to_PEERING_def member_react_PEERING_def member_action_to_CREATING_def split_beta
        zk_up_def undisturbed_def member_macros)
  then obtain li lg where "mb (transition e EVT_NONE NoArg s) = (mb ?r)\<lparr>log_index := li, m_log := lg\<rparr>"
    using transition_react [of e EVT_NONE NoArg s] by auto
  with r assms(1) show ?thesis by (simp add: at_step_def undisturbed_def)
qed

lemma nominal_created:
  assumes "at_step STEP_CREATING k ps s" "zk_up e"
  shows "at_step STEP_WATCHING k ps (transition e EVT_CREATE_OK (ArgId i) s)
    \<and> local_id (mb (transition e EVT_CREATE_OK (ArgId i) s)) = i"
proof -
  let ?r = "member_react (transition_disc e) e EVT_CREATE_OK (ArgId i) s"
  have r: "step_of (mb ?r) = STEP_WATCHING \<and> m_key (mb ?r) = k \<and> peers (mb ?r) = Some ps
      \<and> undisturbed (mb ?r) \<and> local_id (mb ?r) = i"
    using assms
    by (simp add: at_step_def member_react_def member_react_CREATING_def Let_def
        member_action_to_WATCHING_def zk_up_def undisturbed_def member_macros)
  then obtain li lg where
    "mb (transition e EVT_CREATE_OK (ArgId i) s) = (mb ?r)\<lparr>log_index := li, m_log := lg\<rparr>"
    using transition_react [of e EVT_CREATE_OK "ArgId i" s] by auto
  with r assms(1) show ?thesis by (simp add: at_step_def undisturbed_def)
qed

lemma nominal_watched:
  assumes "at_step STEP_WATCHING k ps s" "zk_up e"
  shows "at_step STEP_LISTING k ps (transition e EVT_EXISTS_OK NoArg s)
    \<and> local_id (mb (transition e EVT_EXISTS_OK NoArg s)) = local_id (mb s)"
proof -
  let ?r = "member_react (transition_disc e) e EVT_EXISTS_OK NoArg s"
  have r: "step_of (mb ?r) = STEP_LISTING \<and> m_key (mb ?r) = k \<and> peers (mb ?r) = Some ps
      \<and> undisturbed (mb ?r) \<and> local_id (mb ?r) = local_id (mb s)"
    using assms
    by (simp add: at_step_def member_react_def member_react_WATCHING_def Let_def
        member_action_to_LISTING_def zk_up_def undisturbed_def member_macros)
  then obtain li lg where
    "mb (transition e EVT_EXISTS_OK NoArg s) = (mb ?r)\<lparr>log_index := li, m_log := lg\<rparr>"
    using transition_react [of e EVT_EXISTS_OK NoArg s] by auto
  with r assms(1) show ?thesis by (simp add: at_step_def undisturbed_def)
qed

text \<open>The candidate asks its \<open>n\<close> peers: no bad answer so far and \<open>j\<close> answers to come.\<close>

definition checking_slaves :: "string \<Rightarrow> string list \<Rightarrow> nat \<Rightarrow> est \<Rightarrow> bool" where
  "checking_slaves k ps j s \<longleftrightarrow> at_step STEP_CHECKING_SLAVES k ps s
     \<and> pending_GETVERS (mb s) = of_nat j \<and> count_GETVERS (mb s) = of_nat (length ps)
     \<and> outdated_GETVERS (mb s) = 0 \<and> concurrent_GETVERS (mb s) = 0 \<and> errors_GETVERS (mb s) = 0"

lemma nominal_listed:
  assumes "at_step STEP_LISTING k ps s" "allow_master e" "local_id (mb s) = i"
  shows "checking_slaves k ps (length ps) (transition e EVT_LIST_OK (ArgId i) s)"
proof -
  let ?r = "member_react (transition_disc e) e EVT_LIST_OK (ArgId i) s"
  have r: "step_of (mb ?r) = STEP_CHECKING_SLAVES \<and> m_key (mb ?r) = k \<and> peers (mb ?r) = Some ps
      \<and> undisturbed (mb ?r) \<and> pending_GETVERS (mb ?r) = of_nat (length ps)
      \<and> count_GETVERS (mb ?r) = of_nat (length ps)
      \<and> outdated_GETVERS (mb ?r) = 0 \<and> concurrent_GETVERS (mb ?r) = 0 \<and> errors_GETVERS (mb ?r) = 0"
    using assms
    by (simp add: at_step_def member_react_def member_react_LISTING_def Let_def
        member_action_to_CHECKING_SLAVES_def undisturbed_def member_macros)
  then obtain li lg where
    "mb (transition e EVT_LIST_OK (ArgId i) s) = (mb ?r)\<lparr>log_index := li, m_log := lg\<rparr>"
    using transition_react [of e EVT_LIST_OK "ArgId i" s] by auto
  with r assms(1) show ?thesis by (simp add: at_step_def undisturbed_def checking_slaves_def)
qed

lemma nominal_answer:
  assumes "checking_slaves k ps (Suc j) s" "Suc j < 63"
  shows "if j = 0 then step_of (mb (transition e EVT_GETVERS_OK NoArg s)) = STEP_MASTER
         else checking_slaves k ps j (transition e EVT_GETVERS_OK NoArg s)"
proof -
  let ?r = "member_react (transition_disc e) e EVT_GETVERS_OK NoArg s"
  have w: "(of_nat (Suc j) - 1 :: guint8) = of_nat j" by simp
  have z: "(of_nat j :: guint8) = 0 \<longleftrightarrow> j = 0" using word8_of_nat_pos [of j] assms(2) by auto
  have r: "if j = 0 then step_of (mb ?r) = STEP_MASTER
      else step_of (mb ?r) = STEP_CHECKING_SLAVES \<and> m_key (mb ?r) = k \<and> peers (mb ?r) = Some ps
      \<and> undisturbed (mb ?r) \<and> pending_GETVERS (mb ?r) = of_nat j
      \<and> count_GETVERS (mb ?r) = of_nat (length ps)
      \<and> outdated_GETVERS (mb ?r) = 0 \<and> concurrent_GETVERS (mb ?r) = 0 \<and> errors_GETVERS (mb ?r) = 0"
    using assms(1) w z
    by (simp add: checking_slaves_def at_step_def member_react_def member_react_CHECKING_SLAVES_def
        Let_def member_finish_CHECKING_SLAVES_def undisturbed_def member_macros word_gt_0)
  then obtain li lg where
    "mb (transition e EVT_GETVERS_OK NoArg s) = (mb ?r)\<lparr>log_index := li, m_log := lg\<rparr>"
    using transition_react [of e EVT_GETVERS_OK NoArg s] by (auto split: if_splits)
  with r assms(1) show ?thesis
    by (cases "j = 0") (simp_all add: at_step_def undisturbed_def checking_slaves_def)
qed

text \<open>The path of a follower: the node of the master is read and its versions compared.\<close>

lemma nominal_listed_other:
  assumes "at_step STEP_LISTING k ps s" "zk_up e" "local_id (mb s) \<noteq> i"
  shows "at_step STEP_ASKING k ps (transition e EVT_LIST_OK (ArgId i) s)
    \<and> flag_master_id (mb (transition e EVT_LIST_OK (ArgId i) s))"
proof -
  let ?r = "member_react (transition_disc e) e EVT_LIST_OK (ArgId i) s"
  have r: "step_of (mb ?r) = STEP_ASKING \<and> m_key (mb ?r) = k \<and> peers (mb ?r) = Some ps
      \<and> undisturbed (mb ?r) \<and> flag_master_id (mb ?r)"
    using assms
    by (simp add: at_step_def member_react_def member_react_LISTING_def Let_def
        member_action_to_ASKING_def member_masterpath_def undisturbed_def member_macros zk_up_def)
  then obtain li lg where
    "mb (transition e EVT_LIST_OK (ArgId i) s) = (mb ?r)\<lparr>log_index := li, m_log := lg\<rparr>"
    using transition_react [of e EVT_LIST_OK "ArgId i" s] by auto
  with r assms(1) show ?thesis by (simp add: at_step_def undisturbed_def)
qed

lemma nominal_asked:
  assumes "at_step STEP_ASKING k ps s"
  shows "at_step STEP_CHECKING_MASTER k ps (transition e EVT_MASTER_OK (ArgUrl u) s)
    \<and> pending_GETVERS (mb (transition e EVT_MASTER_OK (ArgUrl u) s)) = 1
    \<and> master_url (mb (transition e EVT_MASTER_OK (ArgUrl u) s)) = Some u
    \<and> \<not> member_has_getvers ((mb (transition e EVT_MASTER_OK (ArgUrl u) s))
         \<lparr>pending_GETVERS := 0, count_GETVERS := 0\<rparr>)"
proof -
  let ?r = "member_react (transition_disc e) e EVT_MASTER_OK (ArgUrl u) s"
  have r: "step_of (mb ?r) = STEP_CHECKING_MASTER \<and> m_key (mb ?r) = k \<and> peers (mb ?r) = Some ps
      \<and> undisturbed (mb ?r) \<and> pending_GETVERS (mb ?r) = 1 \<and> master_url (mb ?r) = Some u
      \<and> outdated_GETVERS (mb ?r) = 0 \<and> concurrent_GETVERS (mb ?r) = 0 \<and> errors_GETVERS (mb ?r) = 0"
    using assms
    by (simp add: at_step_def member_react_def member_react_ASKING_def Let_def
        member_action_to_CHECKING_MASTER_def undisturbed_def member_macros)
  then obtain li lg where
    "mb (transition e EVT_MASTER_OK (ArgUrl u) s) = (mb ?r)\<lparr>log_index := li, m_log := lg\<rparr>"
    using transition_react [of e EVT_MASTER_OK "ArgUrl u" s] by auto
  with r assms(1) show ?thesis by (simp add: at_step_def undisturbed_def member_has_getvers_def)
qed

lemma nominal_checked:
  assumes "at_step STEP_CHECKING_MASTER k ps s" "pending_GETVERS (mb s) = 1"
    and "\<not> member_has_getvers ((mb s)\<lparr>pending_GETVERS := 0, count_GETVERS := 0\<rparr>)"
  shows "step_of (mb (transition e EVT_GETVERS_OK NoArg s)) = STEP_SLAVE
    \<and> master_url (mb (transition e EVT_GETVERS_OK NoArg s)) = master_url (mb s)"
proof -
  let ?r = "member_react (transition_disc e) e EVT_GETVERS_OK NoArg s"
  have r: "step_of (mb ?r) = STEP_SLAVE \<and> master_url (mb ?r) = master_url (mb s)"
    using assms
    by (simp add: at_step_def member_react_def member_react_CHECKING_MASTER_def Let_def
        member_finish_CHECKING_MASTER_def member_action_to_SLAVE_def undisturbed_def member_macros
        member_has_getvers_def word_gt_0)
  then obtain li lg where
    "mb (transition e EVT_GETVERS_OK NoArg s) = (mb ?r)\<lparr>log_index := li, m_log := lg\<rparr>"
    using transition_react [of e EVT_GETVERS_OK NoArg s] by auto
  with r show ?thesis by simp
qed

text \<open>The completions of the nominal path, as the events they raise.\<close>

lemma at_step_unref [simp]: "at_step st k ps (on_mb member_unref s) = at_step st k ps s"
  by (simp add: at_step_def member_unref_def undisturbed_def)

lemma checking_slaves_unref [simp]:
  "checking_slaves k ps j (on_mb member_unref s) = checking_slaves k ps j s"
  by (simp add: checking_slaves_def) (simp add: member_unref_def)

lemma completion_CREATING_nominal:
  assumes "0 \<le> i" "i < 2 ^ 31" "k = [] \<or> last k \<noteq> CHR ''-''"
  shows "completion_CREATING e ZOK False (Some (k @ ''-'' @ fmt_010d i)) s
    = on_mb member_unref (transition e EVT_CREATE_OK (ArgId i) s)"
  using extract_id_nonneg [OF assms] by (simp add: completion_CREATING_def Let_def)

definition good_answer :: "env \<Rightarrow> gtree \<Rightarrow> gtree \<Rightarrow> est \<Rightarrow> est" where
  "good_answer e vremote vlocal s = result_GETVERS e None vremote (Inr vlocal) s"

lemma getvers_good:
  "\<not> behind vl vr \<Longrightarrow> getvers_verdict None vr (Inr vl) False = None"
  using vcmp.verdict [of vl vr] by (simp add: getvers_verdict_def)

lemma good_answer_nominal:
  "\<not> behind vl vr \<Longrightarrow> \<not> requested_LEAVE (mb s) \<Longrightarrow>
     good_answer e vr vl s = on_mb member_unref (transition e EVT_GETVERS_OK NoArg s)"
  by (simp add: good_answer_def result_GETVERS_def getvers_good)

lemma good_answers_MASTER:
  assumes "checking_slaves k ps j s" "0 < j" "j < 63" "\<not> behind vl vr"
  shows "step_of (mb ((good_answer e vr vl ^^ j) s)) = STEP_MASTER"
  using assms
proof (induction j arbitrary: s)
  case (Suc j)
  have l: "\<not> requested_LEAVE (mb s)"
    using Suc.prems(1) by (simp add: checking_slaves_def at_step_def undisturbed_def)
  let ?s = "on_mb member_unref (transition e EVT_GETVERS_OK NoArg s)"
  have g: "good_answer e vr vl s = ?s" by (rule good_answer_nominal [OF Suc.prems(4) l])
  show ?case
  proof (cases "j = 0")
    case True
    then show ?thesis
      using nominal_answer [of k ps j s e] Suc.prems g by (simp add: member_unref_def)
  next
    case False
    then have "checking_slaves k ps j ?s"
      using nominal_answer [of k ps j s e] Suc.prems by simp
    from Suc.IH [OF this] False Suc.prems g show ?thesis by (simp add: funpow_swap1)
  qed
qed simp

section \<open>Failing exchanges of versions\<close>

text \<open>\<open>j\<close> answers are to come, all the others were errors.\<close>

definition failing_slaves :: "string \<Rightarrow> string list \<Rightarrow> guint8 \<Rightarrow> nat \<Rightarrow> est \<Rightarrow> bool" where
  "failing_slaves k ps a j s \<longleftrightarrow> at_step STEP_CHECKING_SLAVES k ps s
     \<and> pending_GETVERS (mb s) = of_nat j \<and> count_GETVERS (mb s) = of_nat (length ps)
     \<and> outdated_GETVERS (mb s) = 0 \<and> concurrent_GETVERS (mb s) = 0
     \<and> errors_GETVERS (mb s) = of_nat (length ps - j) \<and> attempts_GETVERS (mb s) = a
     \<and> \<not> requested_peers_decache (mb s)"

text \<open>The member waits before a new exchange, \<open>a\<close> attempts being left.\<close>

definition retrying :: "string \<Rightarrow> string list \<Rightarrow> guint8 \<Rightarrow> est \<Rightarrow> bool" where
  "retrying k ps a s \<longleftrightarrow> at_step STEP_DELAYED_CHECKING_SLAVES k ps s
     \<and> attempts_GETVERS (mb s) = a \<and> \<not> requested_peers_decache (mb s)"

lemma failing_answer:
  assumes "failing_slaves k ps a (Suc j) s" "Suc j \<le> length ps" "length ps < 63" "a \<noteq> 0"
  shows "if j = 0 then retrying k ps (a - 1) (transition e EVT_GETVERS_KO NoArg s)
           \<and> last_status (mb (transition e EVT_GETVERS_KO NoArg s)) = now e
         else failing_slaves k ps a j (transition e EVT_GETVERS_KO NoArg s)"
proof -
  let ?r = "member_react (transition_disc e) e EVT_GETVERS_KO NoArg s"
  let ?n = "length ps"
  have w: "(of_nat (?n - Suc j) + 1 :: guint8) = of_nat (?n - j)"
    using assms(2) by (metis Suc_diff_Suc Suc_le_lessD add.commute of_nat_Suc)
  have z: "(of_nat j :: guint8) = 0 \<longleftrightarrow> j = 0"
    using word8_of_nat_pos [of j] assms(2,3) by auto
  have q: "(of_nat ?n :: guint8) \<noteq> 0" "unat (of_nat ?n :: guint8) = ?n"
    using word8_of_nat_pos [of ?n] word8_of_nat_small [of ?n] assms(2,3) by auto
  have h: "Suc (?n div 2) \<le> ?n" "ps \<noteq> []" using assms(2) by auto
  have r: "if j = 0
      then step_of (mb ?r) = STEP_DELAYED_CHECKING_SLAVES \<and> m_key (mb ?r) = k \<and> peers (mb ?r) = Some ps
        \<and> undisturbed (mb ?r) \<and> attempts_GETVERS (mb ?r) = a - 1 \<and> \<not> requested_peers_decache (mb ?r)
        \<and> last_status (mb ?r) = now e
      else step_of (mb ?r) = STEP_CHECKING_SLAVES \<and> m_key (mb ?r) = k \<and> peers (mb ?r) = Some ps
        \<and> undisturbed (mb ?r) \<and> pending_GETVERS (mb ?r) = of_nat j \<and> count_GETVERS (mb ?r) = of_nat ?n
        \<and> outdated_GETVERS (mb ?r) = 0 \<and> concurrent_GETVERS (mb ?r) = 0
        \<and> errors_GETVERS (mb ?r) = of_nat (?n - j) \<and> attempts_GETVERS (mb ?r) = a
        \<and> \<not> requested_peers_decache (mb ?r)"
    using assms(1,4) w z q h
    by (cases "j = 0")
       (simp_all add: failing_slaves_def at_step_def member_react_def member_react_CHECKING_SLAVES_def
        Let_def member_finish_CHECKING_SLAVES_def member_action_to_DELAYED_CHECKING_SLAVES_def
        undisturbed_def member_macros word_gt_0 del: of_nat_diff)
  then obtain li lg where
    "mb (transition e EVT_GETVERS_KO NoArg s) = (mb ?r)\<lparr>log_index := li, m_log := lg\<rparr>"
    using transition_react [of e EVT_GETVERS_KO NoArg s] by (auto split: if_splits)
  with r assms(1) show ?thesis
    by (cases "j = 0")
       (simp_all add: at_step_def undisturbed_def failing_slaves_def retrying_def)
qed

lemma retry_start:
  assumes "retrying k ps a s" "a \<noteq> 0" "last_status (mb s) < OLDEST (now e) (getvers_delay e)"
  shows "failing_slaves k ps (of_nat (getvers_attempts e)) (length ps) (transition e EVT_NONE NoArg s)"
proof -
  let ?r = "member_react (transition_disc e) e EVT_NONE NoArg s"
  have r: "step_of (mb ?r) = STEP_CHECKING_SLAVES \<and> m_key (mb ?r) = k \<and> peers (mb ?r) = Some ps
      \<and> undisturbed (mb ?r) \<and> pending_GETVERS (mb ?r) = of_nat (length ps)
      \<and> count_GETVERS (mb ?r) = of_nat (length ps) \<and> outdated_GETVERS (mb ?r) = 0
      \<and> concurrent_GETVERS (mb ?r) = 0 \<and> errors_GETVERS (mb ?r) = 0
      \<and> attempts_GETVERS (mb ?r) = of_nat (getvers_attempts e) \<and> \<not> requested_peers_decache (mb ?r)"
    using assms
    by (simp add: retrying_def at_step_def member_react_def member_react_DELAYED_CHECKING_SLAVES_def
        Let_def member_action_to_CHECKING_SLAVES_def undisturbed_def member_macros)
  then obtain li lg where
    "mb (transition e EVT_NONE NoArg s) = (mb ?r)\<lparr>log_index := li, m_log := lg\<rparr>"
    using transition_react [of e EVT_NONE NoArg s] by auto
  with r assms(1) show ?thesis
    by (simp add: at_step_def undisturbed_def failing_slaves_def retrying_def)
qed

lemma failing_answers:
  assumes "failing_slaves k ps a j s" "0 < j" "j \<le> length ps" "length ps < 63" "a \<noteq> 0"
  shows "retrying k ps (a - 1) ((transition e EVT_GETVERS_KO NoArg ^^ j) s)
    \<and> last_status (mb ((transition e EVT_GETVERS_KO NoArg ^^ j) s)) = now e"
  using assms
proof (induction j arbitrary: s)
  case (Suc j)
  let ?s = "transition e EVT_GETVERS_KO NoArg s"
  note step = failing_answer [OF Suc.prems(1,3,4,5), of e]
  show ?case
  proof (cases "j = 0")
    case True
    with step show ?thesis by simp
  next
    case False
    with step have "failing_slaves k ps a j ?s" by simp
    from Suc.IH [OF this] False Suc.prems show ?thesis by (simp add: funpow_swap1)
  qed
qed simp

text \<open>One round: the delay is over, a new exchange starts, and every peer fails to answer.\<close>

definition failing_round :: "nat \<Rightarrow> env \<Rightarrow> est \<Rightarrow> est" where
  "failing_round n e s = (transition e EVT_GETVERS_KO NoArg ^^ n) (transition e EVT_NONE NoArg s)"

lemma failing_round_retrying:
  assumes "retrying k ps a s" "a \<noteq> 0" "ps \<noteq> []" "length ps < 63"
    and "last_status (mb s) < OLDEST (now e) (getvers_delay e)"
    and "2 \<le> getvers_attempts e" "getvers_attempts e < 63"
  shows "retrying k ps (of_nat (getvers_attempts e) - 1) (failing_round (length ps) e s)
    \<and> last_status (mb (failing_round (length ps) e s)) = now e"
proof -
  have "(of_nat (getvers_attempts e) :: guint8) \<noteq> 0"
    using assms(6,7) by (intro word8_of_nat_pos) auto
  with failing_answers [OF retry_start [OF assms(1,2,5)]] assms(3,4) show ?thesis
    by (simp add: failing_round_def)
qed

text \<open>Clocks that let the delay pass between two rounds.\<close>

fun spaced :: "time \<Rightarrow> env list \<Rightarrow> bool" where
  "spaced t [] = True"
| "spaced t (e # es) \<longleftrightarrow> t < OLDEST (now e) (getvers_delay e) \<and> spaced (now e) es"

lemma failing_rounds:
  assumes "retrying k ps a s" "a \<noteq> 0" "ps \<noteq> []" "length ps < 63"
    and "spaced (last_status (mb s)) es"
    and "list_all (\<lambda>e. 2 \<le> getvers_attempts e \<and> getvers_attempts e < 63) es"
  shows "\<exists>a'. a' \<noteq> 0 \<and> retrying k ps a' (fold (failing_round (length ps)) es s)"
  using assms
proof (induction es arbitrary: s a)
  case (Cons e es)
  have r: "retrying k ps (of_nat (getvers_attempts e) - 1) (failing_round (length ps) e s)"
    "last_status (mb (failing_round (length ps) e s)) = now e"
    using failing_round_retrying [OF Cons.prems(1-4), of e] Cons.prems(5,6) by auto
  obtain n where n: "getvers_attempts e = Suc n" "0 < n" "n < 63"
    using Cons.prems(6) by (cases "getvers_attempts e") auto
  then have "(of_nat (getvers_attempts e) - 1 :: guint8) \<noteq> 0"
    using word8_of_nat_pos [of n] by simp
  from Cons.IH [OF r(1) this Cons.prems(3,4)] r(2) Cons.prems(5,6) show ?case by simp
qed auto

end
