(* ===== verification/Election_Faults.thy ===== *)
theory Election_Faults
  imports Election_Safety
begin

text \<open>
  When a reaction leaves the defined behaviour of C, and what a reaction does to the peers of
  its member.
\<close>

section \<open>Faults\<close>

text \<open>
  The conditions under which a reaction dereferences a NULL pointer or writes out of an array:
  every other reaction leaves the flag \<open>crashed\<close> as it is.
\<close>

definition short_peers :: "string list option \<Rightarrow> bool" where
  "short_peers po \<longleftrightarrow> (case po of None \<Rightarrow> True | Some ps \<Rightarrow> length ps < 63)"

definition disc_safe :: "(est \<Rightarrow> est) \<Rightarrow> bool" where
  "disc_safe d \<longleftrightarrow> (\<forall>s. crashed (d s) = crashed s)"

lemma short_None [simp]: "short_peers None"
  by (simp add: short_peers_def)

lemma overflow_iff: "all_peers_overflow m \<longleftrightarrow> \<not> short_peers (peers m)"
  by (auto simp: short_peers_def all_peers_overflow_def peer_list_def split: option.splits)

lemma crashed_defer_USE: "short_peers (peers (mb s)) \<Longrightarrow> crashed (snd (defer_USE e b s)) = crashed s"
  by (auto simp: defer_USE_def Let_def overflow_iff split: option.splits)

lemma crashed_simple [simp]:
  "crashed (member_action_to_NONE e s) = crashed s"
  "crashed (member_action_to_FAILED e s) = crashed s"
  "crashed (member_action_to_SYNCING e s) = crashed s"
  "crashed (member_action_to_REFRESH_CHECKING_MASTER e s) = crashed s"
  "crashed (member_action_to_REFRESH_CHECKING_SLAVES e s) = crashed s"
  "crashed (member_action_to_DELAYED_CHECKING_MASTER e s) = crashed s"
  "crashed (member_action_to_DELAYED_CHECKING_SLAVES e s) = crashed s"
  "crashed (member_action_to_SLAVE e s) = crashed s"
  by (simp_all add: member_action_to_NONE_def member_action_to_FAILED_def member_action_to_SYNCING_def
      member_action_to_REFRESH_CHECKING_MASTER_def member_action_to_REFRESH_CHECKING_SLAVES_def
      member_action_to_DELAYED_CHECKING_MASTER_def member_action_to_DELAYED_CHECKING_SLAVES_def
      member_action_to_SLAVE_def Let_def)

lemma crashed_errors:
  assumes "disc_safe d"
  shows "crashed (member_fail_on_error d e z s) = crashed s"
    "crashed (common_action_to_LEAVE d e st s) = crashed s"
    "crashed (member_leave_on_error d e z s) = crashed s"
proof -
  show 1: "crashed (member_fail_on_error d e z s) = crashed s" for s z
    using assms by (simp add: member_fail_on_error_def disc_safe_def)
  show 2: "crashed (common_action_to_LEAVE d e st s) = crashed s" for s st
    by (simp add: common_action_to_LEAVE_def Let_def 1 split: option.splits)
  show "crashed (member_leave_on_error d e z s) = crashed s"
    using assms by (simp add: member_leave_on_error_def leave_defs 2 disc_safe_def)
qed

lemma crashed_CREATING:
  assumes "disc_safe d" "short_peers (peers (mb s))"
  shows "crashed (member_action_to_CREATING d e s) = crashed s"
  using assms
  by (simp add: member_action_to_CREATING_def Let_def split_beta crashed_errors crashed_defer_USE)

lemma crashed_PEERING_done:
  assumes "disc_safe d" "short_peers po"
  shows "crashed (member_react_PEERING d e EVT_GETPEERS_DONE po s) = crashed s"
  using assms by (simp add: member_react_PEERING_def Let_def crashed_CREATING)

lemma crashed_START:
  assumes "disc_safe d" "short_peers (peers (mb s))"
  shows "crashed (member_action_START d e s) = crashed s"
  using assms
  by (auto simp: member_action_START_def member_action_to_PEERING_def Let_def crashed_PEERING_done
      split: option.splits)

lemma crashed_requests:
  assumes "disc_safe d"
  shows "crashed (member_action_to_WATCHING d e s) = crashed s"
    "crashed (member_action_to_LISTING d e s) = crashed s"
    "flag_master_id (mb s) \<Longrightarrow> crashed (member_action_to_ASKING d e s) = crashed s"
  using assms
  by (simp_all add: member_action_to_WATCHING_def member_action_to_LISTING_def
      member_action_to_ASKING_def Let_def crashed_errors member_masterpath_def)

lemma crashed_checks:
  assumes "short_peers (peers (mb s))"
  shows "crashed (member_action_to_CHECKING_MASTER e s) = crashed s"
    "peers (mb s) \<noteq> None \<Longrightarrow> crashed (member_action_to_CHECKING_SLAVES e s) = crashed s"
    "crashed (member_action_to_MASTER e s) = crashed s"
  using assms
  by (auto simp: member_action_to_CHECKING_MASTER_def member_action_to_CHECKING_SLAVES_def
      member_action_to_MASTER_def Let_def overflow_iff crashed_defer_USE split: option.splits)

lemmas crashed_actions = crashed_errors crashed_CREATING crashed_START crashed_requests crashed_checks
  leave_defs

lemma crashed_finish:
  assumes "disc_safe d" "short_peers (peers (mb s))"
  shows "crashed (member_finish_CHECKING_MASTER d e s) = crashed s"
    "crashed (member_finish_CHECKING_SLAVES d e s) = crashed s"
  using assms
  by (auto simp: member_finish_CHECKING_MASTER_def member_finish_CHECKING_SLAVES_def Let_def
      crashed_actions member_macros)

lemma crashed_react:
  assumes "disc_safe d" "member_inv (mb s)" "arg_ok evt arg" "short_peers (arg_peers arg)"
    and "short_peers (peers (mb s))"
    and "step_of (mb s) = STEP_LISTING \<or> step_of (mb s) = STEP_DELAYED_CHECKING_SLAVES
         \<Longrightarrow> peers (mb s) \<noteq> None"
  shows "crashed (member_react d e evt arg s) = crashed s"
  using assms
  by (cases "step_of (mb s)"; cases evt;
      simp add: member_react_def react_defs member_react_PEERING_def Let_def arg_ok_def)
     (auto simp: crashed_actions crashed_finish member_macros Let_def split: option.splits)

lemma disc_safe_transition: "disc_safe (transition_disc e)"
proof -
  have "crashed (transition_disc e s) = crashed s" for s
  proof -
    let ?s1 = "member_log_change e EVT_DISCONNECTED
      (\<lambda>s. member_action_to_NONE e (on_mb member_reset s)) s"
    have "peers (mb ?s1) = None" "crashed ?s1 = crashed s"
      by (simp_all add: member_log_change_def Let_def log_event_peers disconnected_peers)
    then show ?thesis
      by (simp add: transition_disc_def transition_with_def disconnected_react Let_def)
         (simp add: member_react_def member_react_NONE_def Let_def member_action_START_def
          member_action_to_PEERING_def)
  qed
  then show ?thesis by (simp add: disc_safe_def)
qed

text \<open>A reaction keeps the peers, forgets them, or takes those it is given.\<close>

definition disc_short :: "(est \<Rightarrow> est) \<Rightarrow> bool" where
  "disc_short d \<longleftrightarrow> (\<forall>s. short_peers (peers (mb (d s))))"

lemma peers_errors:
  assumes "disc_short d"
  shows "short_peers (peers (mb (member_fail_on_error d e z s)))"
    "short_peers (peers (mb (common_action_to_LEAVE d e st s)))"
    "short_peers (peers (mb (member_leave_on_error d e z s)))"
proof -
  show 1: "short_peers (peers (mb (member_fail_on_error d e z s)))" for s z
    using assms by (simp add: member_fail_on_error_def disc_short_def member_action_to_FAILED_def member_macros)
  show 2: "short_peers (peers (mb (common_action_to_LEAVE d e st s)))" for s st
    by (simp add: common_action_to_LEAVE_def Let_def 1 member_macros)
  show "short_peers (peers (mb (member_leave_on_error d e z s)))"
    using assms by (simp add: member_leave_on_error_def leave_defs 2 disc_short_def)
qed

lemma peers_CREATING:
  "disc_short d \<Longrightarrow> short_peers (peers (mb s)) \<Longrightarrow>
     short_peers (peers (mb (member_action_to_CREATING d e s)))"
  by (simp add: member_action_to_CREATING_def Let_def split_beta peers_errors
      member_action_to_NONE_def member_action_to_FAILED_def member_macros)

lemma peers_PEERING_done:
  "disc_short d \<Longrightarrow> short_peers po \<Longrightarrow>
     short_peers (peers (mb (member_react_PEERING d e EVT_GETPEERS_DONE po s)))"
  by (simp add: member_react_PEERING_def Let_def peers_CREATING member_action_to_FAILED_def member_macros)

lemma peers_START:
  "disc_short d \<Longrightarrow> short_peers (peers (mb s)) \<Longrightarrow> short_peers (peers (mb (member_action_START d e s)))"
  by (auto simp: member_action_START_def member_action_to_PEERING_def Let_def peers_PEERING_done
      member_macros split: option.splits)

lemma peers_requests:
  assumes "disc_short d" "short_peers (peers (mb s))"
  shows "short_peers (peers (mb (member_action_to_WATCHING d e s)))"
    "short_peers (peers (mb (member_action_to_LISTING d e s)))"
    "short_peers (peers (mb (member_action_to_ASKING d e s)))"
    "short_peers (peers (mb (member_action_to_CHECKING_SLAVES e s)))"
  using assms
  by (auto simp: member_action_to_WATCHING_def member_action_to_LISTING_def member_action_to_ASKING_def
      member_action_to_CHECKING_SLAVES_def Let_def peers_errors member_macros split: option.splits)

lemma peers_simple [simp]:
  "peers (mb (member_action_to_NONE e s)) = None" "peers (mb (member_action_to_FAILED e s)) = None"
  "peers (mb (member_action_to_SYNCING e s)) = peers (mb s)"
  "peers (mb (member_action_to_REFRESH_CHECKING_MASTER e s)) = peers (mb s)"
  "peers (mb (member_action_to_REFRESH_CHECKING_SLAVES e s)) = peers (mb s)"
  "peers (mb (member_action_to_DELAYED_CHECKING_MASTER e s)) = peers (mb s)"
  "peers (mb (member_action_to_DELAYED_CHECKING_SLAVES e s)) = peers (mb s)"
  "peers (mb (member_action_to_CHECKING_MASTER e s)) = peers (mb s)"
  "peers (mb (member_action_to_MASTER e s)) = peers (mb s)"
  "peers (mb (member_action_to_SLAVE e s)) = peers (mb s)"
  by (simp_all add: member_action_to_NONE_def member_action_to_FAILED_def member_action_to_SYNCING_def
      member_action_to_REFRESH_CHECKING_MASTER_def member_action_to_REFRESH_CHECKING_SLAVES_def
      member_action_to_DELAYED_CHECKING_MASTER_def member_action_to_DELAYED_CHECKING_SLAVES_def
      member_action_to_CHECKING_MASTER_def member_action_to_MASTER_def member_action_to_SLAVE_def
      member_macros Let_def)

lemmas peers_actions = peers_errors peers_CREATING peers_START peers_requests leave_defs

lemma peers_finish:
  assumes "disc_short d" "short_peers (peers (mb s))"
  shows "short_peers (peers (mb (member_finish_CHECKING_MASTER d e s)))"
    "short_peers (peers (mb (member_finish_CHECKING_SLAVES d e s)))"
  using assms
  by (simp_all add: member_finish_CHECKING_MASTER_def member_finish_CHECKING_SLAVES_def Let_def
      peers_actions member_macros)

lemma peers_react:
  assumes "disc_short d" "short_peers (peers (mb s))" "short_peers (arg_peers arg)"
  shows "short_peers (peers (mb (member_react d e evt arg s)))"
  using assms
  by (cases "step_of (mb s)"; cases evt;
      simp add: member_react_def react_defs member_react_PEERING_def Let_def)
     (auto simp: peers_actions peers_finish member_macros Let_def split: option.splits)

lemma disc_short_transition: "disc_short (transition_disc e)"
proof -
  have "peers (mb (transition_disc e s)) = None" for s
  proof -
    let ?s1 = "member_log_change e EVT_DISCONNECTED
      (\<lambda>s. member_action_to_NONE e (on_mb member_reset s)) s"
    have p: "peers (mb ?s1) = None"
      by (simp add: member_log_change_def Let_def log_event_peers disconnected_peers)
    then have "peers (mb (member_log_change e EVT_NONE (member_react (\<lambda>s. s) e EVT_NONE NoArg) ?s1)) = None"
      by (simp add: member_log_change_def [of e EVT_NONE] Let_def log_event_peers member_react_def
          member_react_NONE_def member_action_START_def member_action_to_PEERING_def member_macros)
    with p show ?thesis
      by (simp add: transition_disc_def transition_with_def disconnected_react Let_def)
  qed
  then show ?thesis by (simp add: disc_short_def)
qed

lemma transition_crashed:
  assumes "now e > 0" "member_inv (mb s)" "\<not> crashed s" "arg_ok evt arg"
    and "short_peers (arg_peers arg)" "short_peers (peers (mb s))"
    and "step_of (mb s) = STEP_LISTING \<or> step_of (mb s) = STEP_DELAYED_CHECKING_SLAVES
         \<Longrightarrow> peers (mb s) \<noteq> None"
  shows "\<not> crashed (transition e evt arg s)"
proof -
  let ?d = "transition_disc e"
  let ?s1 = "member_log_change e evt (member_react ?d e evt arg) s"
  have c: "\<not> crashed ?s1"
    using crashed_react [OF disc_safe_transition assms(2,4-7)] assms(3) by simp
  have "est_ok ?s1"
    using log_react_ok [OF disc_ok_transition [OF assms(1)] disc_step_transition assms(1) est_okI assms(4)]
      assms(2) by simp
  with c have inv: "member_inv (mb ?s1)" by (simp add: est_ok_def)
  have p: "short_peers (peers (mb ?s1))"
    using peers_react [OF disc_short_transition assms(6,5)]
    by (simp add: member_log_change_def Let_def log_event_peers)
  have "\<not> crashed (member_react ?d e EVT_NONE NoArg ?s1)" if "step_of (mb ?s1) = STEP_NONE"
    using crashed_react [OF disc_safe_transition inv, of EVT_NONE NoArg] p that c
    by (simp add: arg_ok_def)
  with c show ?thesis by (simp add: transition_def transition_with_def Let_def)
qed

text \<open>How a member that lists the nodes becomes a candidate.\<close>

lemma LISTING_to_CS:
  assumes "step_of (mb s) = STEP_LISTING"
    and "step_of (mb (transition e evt arg s)) = STEP_CHECKING_SLAVES"
  shows "evt = EVT_LIST_OK \<and> arg_id arg = Some (local_id (mb s))"
proof -
  let ?d = "transition_disc e"
  let ?A = "- {STEP_CHECKING_SLAVES}"
  note dd = disc_dest_transition [of e]
  have "step_of (mb (member_react ?d e EVT_NONE NoArg s')) \<noteq> STEP_CHECKING_SLAVES"
    if "step_of (mb s') = STEP_NONE" for s'
    using dest_react [OF dd, of s' "fsm_next STEP_NONE" e EVT_NONE NoArg] that by auto
  then have r: "step_of (mb (member_react ?d e evt arg s)) = STEP_CHECKING_SLAVES"
    using assms(2) by (auto simp: transition_def transition_with_def Let_def split: if_splits)
  have n1: "step_of (mb (common_action_to_LEAVE ?d e st s')) \<noteq> STEP_CHECKING_SLAVES"
    if "st \<noteq> STEP_CHECKING_SLAVES" for st s'
    using that dest_LEAVE [OF dd, of st ?A e s'] by auto
  have n2: "step_of (mb (member_action_START ?d e s')) \<noteq> STEP_CHECKING_SLAVES" for s'
    using dest_START [OF dd, of ?A e s'] by auto
  have n3: "step_of (mb (member_action_to_ASKING ?d e s')) \<noteq> STEP_CHECKING_SLAVES"
    if "step_of (mb s') = STEP_LISTING" for s'
    using that dest_ASKING [OF dd, of s' ?A e] by auto
  have n4: "step_of (member_set_master_id i m) = step_of m" for i m
    by (simp add: member_macros)
  show ?thesis
    using r assms(1)
    by (cases evt) (auto simp: member_react_def member_react_LISTING_def Let_def leave_defs n1 n2 n3 n4 split: if_splits option.splits)
qed

end
