(* ===== verification/Election_Props.thy ===== *)
theory Election_Props
  imports Election_Nominal Election_Faults
begin

text \<open>
  Properties of the election state machine: what becoming MASTER requires, which sibling may
  try, that the nominal paths do reach MASTER and SLAVE, the frame of a transition, and the
  paths on which the code departs from its own assertions.  The section on examples defines
  the concrete environment and members the witnesses run on.
\<close>

section \<open>Examples\<close>

definition env0 :: env where
  "env0 = \<lparr>now = 2000000, real_ms = 7, zrc_create = ZOK, zrc_exists = ZOK, zrc_list = ZOK,
     zrc_get = ZOK, zrc_delete = ZOK, zoo_35 = False, peering_accepts = (\<lambda>_. True),
     url_valid = (\<lambda>_. True), local_url = ''A'', allow_master = True, getvers_attempts = 5,
     getvers_delay = 100, delay_expire_pending = 60, delay_expire_SLAVE = 30,
     delay_expire_MASTER = 40, delay_expire_NONE = 50, delay_retry_FAILED = 10\<rparr>"

definition member0 :: member where
  "member0 = new_member ''AB'' (Some 0) 5 9 (Some [''B'', ''C''])"

definition est_of :: "member \<Rightarrow> est" where
  "est_of m = \<lparr>mb = m, queues_of = DEQUE_add (step_of m) (m_key m) queues_empty, exiting = False,
     notify = False, outs = [], crashed = False\<rparr>"

text \<open>A member waiting for the last of two answers of its slaves.\<close>

definition member_CS :: member where
  "member_CS = member0\<lparr>step_of := STEP_CHECKING_SLAVES, when_unstable := 8, local_id := 7,
     flag_local_id := True, master_id := 7, flag_master_id := True, attempts_GETVERS := 5,
     count_GETVERS := 2, pending_GETVERS := 1\<rparr>"

text \<open>A member that listed the nodes, one that resynchronises, one that refreshes its peers.\<close>

definition member_LISTING :: member where
  "member_LISTING = member0\<lparr>step_of := STEP_LISTING, when_unstable := 8, local_id := 7,
     flag_local_id := True, pending_ZK_LIST := True\<rparr>"

definition member_SYNCING :: member where
  "member_SYNCING = member0\<lparr>step_of := STEP_SYNCING, when_unstable := 8, local_id := 7,
     flag_local_id := True, master_id := 3, flag_master_id := True, master_url := Some ''B'',
     pending_PIPEFROM := True, requested_LEFT_SELF := True\<rparr>"

definition member_REFRESH :: member where
  "member_REFRESH = member0\<lparr>step_of := STEP_REFRESH_CHECKING_MASTER, when_unstable := 8, local_id := 7,
     flag_local_id := True, master_id := 3, flag_master_id := True, master_url := Some ''B'',
     requested_LEFT_MASTER := True\<rparr>"

definition member_DELAYED :: member where
  "member_DELAYED = member0\<lparr>step_of := STEP_DELAYED_CHECKING_SLAVES, when_unstable := 8, local_id := 7,
     flag_local_id := True, master_id := 7, flag_master_id := True, attempts_GETVERS := 4\<rparr>"

lemmas example_defs = env0_def member0_def est_of_def member_CS_def new_member_def
  member_LISTING_def member_SYNCING_def member_REFRESH_def member_DELAYED_def

lemma est_of_simps [simp]:
  "mb (est_of m) = m" "crashed (est_of m) = False" "exiting (est_of m) = False" "outs (est_of m) = []"
  by (simp_all add: est_of_def)

lemma member_CS_simps [simp]:
  "m_key member_CS = ''AB''" "step_of member_CS = STEP_CHECKING_SLAVES"
  "peers member_CS = Some [''B'', ''C'']"
  by (simp_all add: example_defs)

lemma member_CS_inv: "member_inv member_CS"
  by (simp add: inv_defs example_defs)

lemma examples_inv:
  "member_inv member_LISTING" "member_inv member_SYNCING" "member_inv member_REFRESH"
  "member_inv member_DELAYED"
  by (simp_all add: inv_defs example_defs)

lemma nodev_7: "nodev_to_int32v False [''AB-0000000007''] ''AB'' = [7]"
  by (simp add: nodev_to_int32v_def has_prefix_def extract_id_7)

lemma not_behind_Nil: "\<not> behind [] v"
  by (simp add: behind_def)

lemma zk_up_env0: "zk_up env0"
  by (simp add: zk_up_def env0_def)

section \<open>Properties\<close>

text \<open>
  C1: no member becomes MASTER without a quorum: the only way in is the last answer of an
  exchange of versions with the slaves, during which nobody asked the member to leave, its node
  did not vanish, no answer showed the local base outdated or concurrent, and the members of
  the group whose answer is good (the local one included) are a strict majority.
\<close>

theorem master_needs_quorum:
  assumes "member_inv (mb s)" "step_of (mb s) \<noteq> STEP_MASTER"
    and post: "step_of (mb (transition e evt arg s)) = STEP_MASTER"
  defines "n \<equiv> unat (count_GETVERS (mb s))"
    and "ko \<equiv> unat (errors_GETVERS (mb s)) + (if evt = EVT_GETVERS_KO then 1 else 0)"
  shows "step_of (mb s) = STEP_CHECKING_SLAVES \<and> (evt = EVT_GETVERS_OK \<or> evt = EVT_GETVERS_KO)
     \<and> pending_GETVERS (mb s) = 1 \<and> outdated_GETVERS (mb s) = 0 \<and> concurrent_GETVERS (mb s) = 0
     \<and> \<not> requested_LEAVE (mb s) \<and> \<not> requested_LEFT_SELF (mb s)
     \<and> 2 * (n + 1 - ko) > n + 1"
proof -
  let ?d = "transition_disc e"
  have r: "step_of (mb (member_react ?d e evt arg s)) = STEP_MASTER"
    by (rule transition_MASTER_react [OF post])
  have "STEP_MASTER \<in> fsm_next (step_of (mb s))"
    using dest_react [OF disc_dest_transition [of e], of s "fsm_next (step_of (mb s))" e evt arg] r
    by simp
  then have st: "step_of (mb s) = STEP_CHECKING_SLAVES"
    using assms(2) by (cases "step_of (mb s)") auto
  with r have "step_of (mb (member_react_CHECKING_SLAVES ?d e evt s)) = STEP_MASTER"
    by (auto simp: member_react_def split: if_splits)
  from react_CS_MASTER [OF assms(1) st disc_dest_transition this] st show ?thesis
    by (simp add: n_def ko_def)
qed

theorem master_needs_quorum_witness:
  "step_of (mb (transition env0 EVT_GETVERS_OK NoArg (est_of member_CS))) = STEP_MASTER
   \<and> pending_GETVERS member_CS = 1
   \<and> 2 * (unat (count_GETVERS member_CS) + 1 - unat (errors_GETVERS member_CS)) > 3"
proof -
  have m: "mb (est_of member_CS) = member_CS" by (simp add: est_of_def)
  have "checking_slaves ''AB'' [''B'', ''C''] (Suc 0) (est_of member_CS)"
    by (simp add: checking_slaves_def at_step_def undisturbed_def example_defs)
  then have "step_of (mb (transition env0 EVT_GETVERS_OK NoArg (est_of member_CS))) = STEP_MASTER"
    using nominal_answer [of _ _ 0] by simp
  with master_needs_quorum [of "est_of member_CS" env0 EVT_GETVERS_OK NoArg] member_CS_inv
  show ?thesis by (simp add: m) (simp add: example_defs)
qed

text \<open>
  C12: the nominal election ends: a new member whose ZooKeeper requests succeed, whose node has
  the least number of the listing and whose peers (at most 62) all answer with versions the
  local base is not behind of, is MASTER after the last answer.
\<close>

theorem nominal_master:
  assumes "at_step STEP_NONE k ps s" "ps \<noteq> []" "length ps < 63"
    and "zk_up e" "allow_master e" "0 \<le> i" "i < 2 ^ 31" "k = [] \<or> last k \<noteq> CHR ''-''"
    and "nodev_to_int32v False sv k = i # rest" "\<not> behind vl vr"
  shows "step_of (mb ((good_answer e vr vl ^^ length ps)
      (completion_LISTING e ZOK False (Some sv)
        (completion_WATCHING e ZOK
          (completion_CREATING e ZOK False (Some (k @ ''-'' @ fmt_010d i))
            (transition e EVT_NONE NoArg s)))))) = STEP_MASTER"
proof -
  let ?s1 = "transition e EVT_NONE NoArg s"
  let ?s2 = "completion_CREATING e ZOK False (Some (k @ ''-'' @ fmt_010d i)) ?s1"
  let ?s3 = "completion_WATCHING e ZOK ?s2"
  let ?s4 = "completion_LISTING e ZOK False (Some sv) ?s3"
  have 1: "at_step STEP_CREATING k ps ?s1" by (rule nominal_start [OF assms(1,4)])
  have 2: "at_step STEP_WATCHING k ps ?s2 \<and> local_id (mb ?s2) = i"
    using nominal_created [OF 1 assms(4), of i] completion_CREATING_nominal [OF assms(6-8)]
    by (simp add: member_unref_def)
  have 3: "at_step STEP_LISTING k ps ?s3 \<and> local_id (mb ?s3) = i"
    using nominal_watched [of k ps ?s2 e] 2 assms(4)
    by (simp add: completion_WATCHING_def member_unref_def)
  then have "m_key (mb ?s3) = k" by (simp add: at_step_def)
  then have 4: "checking_slaves k ps (length ps) ?s4"
    using nominal_listed [of k ps ?s3 e i] 3 assms(5,9)
    by (simp add: completion_LISTING_def Let_def)
  show ?thesis by (rule good_answers_MASTER [OF 4]) (use assms in auto)
qed

theorem nominal_master_witness:
  "step_of (mb ((good_answer env0 [] [] ^^ 2)
      (completion_LISTING env0 ZOK False (Some [''AB-0000000007''])
        (completion_WATCHING env0 ZOK
          (completion_CREATING env0 ZOK False (Some (''AB-'' @ fmt_010d 7))
            (transition env0 EVT_NONE NoArg (est_of member0))))))) = STEP_MASTER"
proof -
  have "at_step STEP_NONE ''AB'' [''B'', ''C''] (est_of member0)"
    by (simp add: at_step_def undisturbed_def) (simp add: example_defs)
  from nominal_master [OF this _ _ zk_up_env0 _ _ _ _ nodev_7, of "[]" "[]"]
  show ?thesis by (simp add: not_behind_Nil eval_nat_numeral) (simp add: env0_def)
qed

text \<open>
  C13: and so does the election of a follower: with the same events but another node first in
  the listing, whose content is the address of a known peer, the member is SLAVE of that peer.
\<close>

theorem nominal_slave:
  assumes "at_step STEP_LISTING k ps s" "zk_up e" "nodev_to_int32v False sv k = i # rest"
    and "local_id (mb s) \<noteq> i" "u \<in> set ps" "u \<noteq> []" "length u \<le> 256" "CHR 0x00 \<notin> set u"
    and "url_valid e u" "u \<noteq> local_url e" "\<not> behind vl vr"
  shows "step_of (mb (good_answer e vr vl (completion_ASKING e ZOK (Some u)
            (completion_LISTING e ZOK False (Some sv) s)))) = STEP_SLAVE
    \<and> master_url (mb (good_answer e vr vl (completion_ASKING e ZOK (Some u)
            (completion_LISTING e ZOK False (Some sv) s)))) = Some u"
proof -
  let ?s1 = "completion_LISTING e ZOK False (Some sv) s"
  let ?s2 = "completion_ASKING e ZOK (Some u) ?s1"
  have "m_key (mb s) = k" using assms(1) by (simp add: at_step_def)
  then have 1: "at_step STEP_ASKING k ps ?s1"
    using nominal_listed_other [OF assms(1,2,4)] assms(3) by (simp add: completion_LISTING_def Let_def)
  then have p: "peers (mb ?s1) = Some ps" by (simp add: at_step_def)
  have t: "takeWhile (\<lambda>c. c \<noteq> CHR 0x00) u = u" using assms(8) by (auto simp: takeWhile_eq_all_conv)
  have s2: "?s2 = on_mb member_unref (transition e EVT_MASTER_OK (ArgUrl u) ?s1)"
    using p assms(5-10) oio_strv_has_mem [OF assms(5)]
    by (simp add: completion_ASKING_def t deferred_completion_ASKING_def Let_def)
  note a = nominal_asked [OF 1, of e u]
  have 2: "at_step STEP_CHECKING_MASTER k ps ?s2" "pending_GETVERS (mb ?s2) = 1"
    "master_url (mb ?s2) = Some u"
    "\<not> member_has_getvers ((mb ?s2)\<lparr>pending_GETVERS := 0, count_GETVERS := 0\<rparr>)"
    using a by (simp_all add: s2 member_unref_def member_has_getvers_def)
  then have "\<not> requested_LEAVE (mb ?s2)" by (simp add: at_step_def undisturbed_def)
  from good_answer_nominal [OF assms(11) this] nominal_checked [OF 2(1,2,4), of e] 2(3)
  show ?thesis by (simp add: member_unref_def)
qed

theorem nominal_slave_witness:
  "step_of (mb (good_answer env0 [] [] (completion_ASKING env0 ZOK (Some ''B'')
      (completion_LISTING env0 ZOK False (Some [''AB-0000000007''])
        (est_of (member_LISTING\<lparr>local_id := 9\<rparr>)))))) = STEP_SLAVE"
proof -
  have "at_step STEP_LISTING ''AB'' [''B'', ''C''] (est_of (member_LISTING\<lparr>local_id := 9\<rparr>))"
    by (simp add: at_step_def undisturbed_def) (simp add: example_defs)
  from nominal_slave [OF this zk_up_env0 nodev_7, where u = "''B''" and vl = "[]" and vr = "[]"]
  show ?thesis by (simp add: not_behind_Nil) (simp add: env0_def)
qed

text \<open>
  C10: whatever the order in which the completions, the watchers, the timers and the requests
  of the clients arrive, a transition keeps the invariant of the member (the pending requests
  are those of its step, the identifiers fit its role, the counters of the exchange of versions
  are balanced), unless it leaves the defined behaviour of C.
\<close>

theorem transition_keeps_invariant:
  assumes "now e > 0" "member_inv (mb s)" "arg_ok evt arg"
  shows "crashed (transition e evt arg s) \<or> member_inv (mb (transition e evt arg s))"
  using transition_ok [OF assms(1) est_okI [OF assms(2)] assms(3)] by (simp add: est_ok_def)

theorem transition_keeps_invariant_witness:
  "crashed (transition env0 EVT_LEAVE_REQ NoArg (est_of member_CS))
   \<or> member_inv (mb (transition env0 EVT_LEAVE_REQ NoArg (est_of member_CS)))"
  by (rule transition_keeps_invariant)
     (use member_CS_inv in \<open>simp_all add: arg_ok_def env0_def\<close>)

text \<open>
  C11: a transition stays within the defined behaviour of C as long as the member has at most
  62 peers, given ones included, and has some when it is about to ask them for their versions
  (steps LISTING and DELAYED_CHECKING_SLAVES).
\<close>

theorem transition_no_fault:
  assumes "now e > 0" "member_inv (mb s)" "\<not> crashed s" "arg_ok evt arg"
    and "short_peers (arg_peers arg)" "short_peers (peers (mb s))"
    and "step_of (mb s) = STEP_LISTING \<or> step_of (mb s) = STEP_DELAYED_CHECKING_SLAVES
         \<Longrightarrow> peers (mb s) \<noteq> None"
  shows "\<not> crashed (transition e evt arg s)"
  by (rule transition_crashed [OF assms(1-6)]) (rule assms(7))

theorem transition_no_fault_witness:
  "\<not> crashed (transition env0 EVT_GETVERS_OK NoArg (est_of member_CS))"
  by (rule transition_no_fault)
     (use member_CS_inv in \<open>simp_all add: arg_ok_def env0_def short_peers_def\<close>)

text \<open>
  C29: a transition only moves its own member between the queues of the manager: the member
  ends in the queue of its step, and each queue holds the other members it held, in the same
  order.
\<close>

theorem transition_queues:
  assumes "queues_rep (queues_of s) f" "m_key (mb s) \<in> set (f (step_of (mb s)))"
  shows "\<exists>f'. queues_rep (queues_of (transition e evt arg s)) f'
     \<and> m_key (mb s) \<in> set (f' (step_of (mb (transition e evt arg s))))
     \<and> (\<forall>st. removeAll (m_key (mb s)) (f' st) = removeAll (m_key (mb s)) (f st))"
  using step_transition [of e s evt arg] assms unfolding est_step_def est_wf_def same_others_def by metis

theorem transition_queues_witness:
  "\<exists>f'. queues_rep (queues_of (transition env0 EVT_LEAVE_REQ NoArg (est_of member_CS))) f'
     \<and> ''AB'' \<in> set (f' (step_of (mb (transition env0 EVT_LEAVE_REQ NoArg (est_of member_CS)))))"
proof -
  have k: "m_key (mb (est_of member_CS)) = ''AB''" "step_of (mb (est_of member_CS)) = STEP_CHECKING_SLAVES"
    by (simp_all add: example_defs)
  have q: "queues_rep (queues_of (est_of member_CS)) ((\<lambda>_. [])(STEP_CHECKING_SLAVES := [''AB'']))"
    using queues_rep_add [OF queues_rep_empty, of "''AB''" STEP_CHECKING_SLAVES]
    by (simp add: example_defs)
  show ?thesis
    using transition_queues [OF q, where e = env0 and evt = EVT_LEAVE_REQ and arg = NoArg] k by auto
qed

text \<open>
  The references on a member are balanced: a transition takes exactly one reference per
  request it sent with the member as the context of the completion, so that a completion never
  finds its member destroyed.
\<close>

theorem transition_references:
  "\<exists>os. outs (transition e evt arg s) = outs s @ os
     \<and> refcount (mb (transition e evt arg s)) = refcount (mb s) + of_nat (refs_of e os)"
  using step_transition [of e s evt arg] by (simp add: est_step_def)

text \<open>
  C28: the step after a transition is one of those the diagram of the state machine allows
  from the step before; in particular MASTER is only entered from CHECKING_SLAVES, and SLAVE
  from CHECKING_MASTER or SYNCING.
\<close>

theorem transition_edges: "step_of (mb (transition e evt arg s)) \<in> fsm_next (step_of (mb s))"
proof -
  let ?d = "transition_disc e" and ?A = "fsm_next (step_of (mb s))"
  have "step_of (mb (member_react ?d e evt arg s)) \<in> ?A"
    by (rule dest_react [OF disc_dest_transition]) simp
  moreover have "step_of (mb (member_react ?d e EVT_NONE NoArg s')) \<in> ?A"
    if "step_of (mb s') = STEP_NONE" for s'
    by (rule dest_react [OF disc_dest_transition]) (simp only: that fsm_next_NONE_subset)
  ultimately show ?thesis by (simp add: transition_def transition_with_def Let_def)
qed

text \<open>
  C2: among the members of an election that got the same listing, at most one becomes a
  candidate: a member that enters CHECKING_SLAVES at the end of its listing has the least number
  of all the well-formed nodes of the election.
\<close>

theorem candidate_is_least:
  assumes "step_of (mb s) = STEP_LISTING" "nodes_in_range sv (m_key (mb s))"
    and "step_of (mb (completion_LISTING e z False (Some sv) s)) = STEP_CHECKING_SLAVES"
    and "n \<in> set sv" "has_prefix n (m_key (mb s))" "extract_id False n = (True, Some i, False)"
  shows "local_id (mb s) \<le> i"
proof -
  let ?ids = "nodev_to_int32v False sv (m_key (mb s))"
  have i: "i \<in> set ?ids" using assms(2,4-6) by (auto simp: nodev_to_int32v_def set_nodev_ids)
  then have ne: "?ids \<noteq> []" by auto
  have tr: "step_of (mb (transition e evt arg s)) = STEP_CHECKING_SLAVES \<Longrightarrow>
      evt = EVT_LIST_OK \<and> arg_id arg = Some (local_id (mb s))" for evt arg
    using assms(1) by (rule LISTING_to_CS)
  have "z = ZOK \<and> local_id (mb s) = hd ?ids"
    using assms(3) tr [of EVT_LIST_OK "ArgId (hd ?ids)"] tr [of EVT_LIST_KO NoArg]
      tr [of EVT_DISCONNECTED NoArg] ne
    by (auto simp: completion_LISTING_def Let_def transition_error_def member_unref_def split: if_splits)
  moreover have "hd ?ids \<le> i" using i by (intro hd_sorted_le) (simp_all add: nodev_to_int32v_def)
  ultimately show ?thesis by simp
qed

theorem candidate_is_least_witness:
  "step_of (mb (completion_LISTING env0 ZOK False (Some [''AB-0000000007'']) (est_of member_LISTING)))
     = STEP_CHECKING_SLAVES
   \<and> local_id member_LISTING \<le> 7"
proof -
  have k: "m_key member_LISTING = ''AB''" "step_of member_LISTING = STEP_LISTING"
    "local_id member_LISTING = 7" by (simp_all add: example_defs)
  have "at_step STEP_LISTING ''AB'' [''B'', ''C''] (est_of member_LISTING)"
    by (simp add: at_step_def undisturbed_def) (simp add: example_defs)
  from nominal_listed [OF this, of env0 7] k
  have c: "step_of (mb (completion_LISTING env0 ZOK False (Some [''AB-0000000007'']) (est_of member_LISTING)))
     = STEP_CHECKING_SLAVES"
    by (simp add: completion_LISTING_def Let_def nodev_7 checking_slaves_def at_step_def member_unref_def)
       (simp add: env0_def)
  with candidate_is_least [OF _ _ c, of "''AB-0000000007''" 7] k show ?thesis
    by (simp add: nodes_in_range_def extract_id_7 has_prefix_def)
qed

text \<open>
  A resynchronisation during which the node of the member vanished restarts the election
  with the identifiers of the previous membership: the flag that the node left, the number of
  the old node and the old master are still there, against the assertions of the steps PEERING
  and CREATING, and the new sequential node is created under the name of the old one instead
  of the bare prefix of the election.
\<close>

theorem syncing_restart_keeps_ids:
  assumes "step_of (mb s) = STEP_SYNCING" "requested_LEFT_SELF (mb s)" "\<not> requested_LEAVE (mb s)"
    and "peers (mb s) = Some ps" "\<not> exiting s" "zrc_create e = ZOK" "flag_local_id (mb s)"
  defines "s' \<equiv> transition e EVT_SYNC_OK NoArg s"
  shows "step_of (mb s') = STEP_CREATING \<and> requested_LEFT_SELF (mb s')
    \<and> flag_local_id (mb s') \<and> local_id (mb s') = local_id (mb s)
    \<and> flag_master_id (mb s') = flag_master_id (mb s) \<and> master_url (mb s') = master_url (mb s)
    \<and> OutZkCreate (m_key (mb s) @ ''-'' @ fmt_010d (local_id (mb s))) (local_url e) \<in> set (outs s')"
proof -
  let ?r = "member_react (transition_disc e) e EVT_SYNC_OK NoArg s"
  have r: "step_of (mb ?r) = STEP_CREATING \<and> requested_LEFT_SELF (mb ?r) \<and> flag_local_id (mb ?r)
    \<and> local_id (mb ?r) = local_id (mb s) \<and> flag_master_id (mb ?r) = flag_master_id (mb s)
    \<and> master_url (mb ?r) = master_url (mb s)
    \<and> OutZkCreate (m_key (mb s) @ ''-'' @ fmt_010d (local_id (mb s))) (local_url e) \<in> set (outs ?r)"
    using assms(1-7)
    by (simp add: member_react_def member_react_SYNCING_def Let_def member_action_START_def
        member_action_to_PEERING_def member_react_PEERING_def member_action_to_CREATING_def split_beta
        member_macros outs_set_status member_fullpath_def)
  then obtain li lg where "mb s' = (mb ?r)\<lparr>log_index := li, m_log := lg\<rparr>"
    using transition_react [of e EVT_SYNC_OK NoArg s] by (auto simp: s'_def)
  moreover have "outs s' = outs ?r"
    using r by (simp add: s'_def transition_def transition_with_def Let_def member_log_change_def)
  ultimately show ?thesis using r by simp
qed

theorem syncing_restart_keeps_ids_witness:
  "step_of (mb (transition env0 EVT_SYNC_OK NoArg (est_of member_SYNCING))) = STEP_CREATING
   \<and> master_url (mb (transition env0 EVT_SYNC_OK NoArg (est_of member_SYNCING))) = Some ''B''
   \<and> OutZkCreate ''AB-0000000007'' ''A''
      \<in> set (outs (transition env0 EVT_SYNC_OK NoArg (est_of member_SYNCING)))"
proof -
  have k: "step_of member_SYNCING = STEP_SYNCING" "requested_LEFT_SELF member_SYNCING"
    "\<not> requested_LEAVE member_SYNCING" "peers member_SYNCING = Some [''B'', ''C'']"
    "flag_local_id member_SYNCING" "local_id member_SYNCING = 7" "m_key member_SYNCING = ''AB''"
    "master_url member_SYNCING = Some ''B''" by (simp_all add: example_defs)
  show ?thesis
    using syncing_restart_keeps_ids [of "est_of member_SYNCING" "[''B'', ''C'']" env0] k
    by (simp add: fmt_010d_7) (simp add: env0_def)
qed

text \<open>
  When the refresh of the peers fails while the master is reported gone, the member lists
  the nodes again without any peer; found first in that listing, it dereferences the NULL
  vector of its peers.
\<close>

theorem refresh_without_peers_faults:
  assumes "step_of (mb s) = STEP_REFRESH_CHECKING_MASTER" "requested_LEFT_MASTER (mb s)"
    and "\<not> requested_LEAVE (mb s)" "\<not> requested_LEFT_SELF (mb s)" "zrc_list e = ZOK" "allow_master e"
  shows "crashed (transition e EVT_LIST_OK (ArgId (local_id (mb s)))
           (transition e EVT_GETPEERS_DONE NoArg s))"
proof -
  let ?r = "member_react (transition_disc e) e EVT_GETPEERS_DONE NoArg s"
  have r: "step_of (mb ?r) = STEP_LISTING \<and> peers (mb ?r) = None \<and> local_id (mb ?r) = local_id (mb s)
    \<and> \<not> requested_LEAVE (mb ?r) \<and> \<not> requested_LEFT_SELF (mb ?r)"
    using assms
    by (simp add: member_react_def member_react_REFRESH_CHECKING_MASTER_def Let_def
        member_action_to_LISTING_def member_macros)
  then obtain li lg where
    t: "mb (transition e EVT_GETPEERS_DONE NoArg s) = (mb ?r)\<lparr>log_index := li, m_log := lg\<rparr>"
    using transition_react [of e EVT_GETPEERS_DONE NoArg s] by auto
  let ?s1 = "transition e EVT_GETPEERS_DONE NoArg s"
  let ?r2 = "member_react (transition_disc e) e EVT_LIST_OK (ArgId (local_id (mb s))) ?s1"
  have "crashed ?r2 \<and> step_of (mb ?r2) \<noteq> STEP_NONE"
    using r t assms(6)
    by (simp add: member_react_def [of _ _ EVT_LIST_OK] member_react_LISTING_def Let_def
        member_action_to_CHECKING_SLAVES_def member_macros)
  then show ?thesis by (simp add: transition_def [of e EVT_LIST_OK] transition_with_def [of _ _ EVT_LIST_OK] Let_def)
qed

theorem refresh_without_peers_faults_witness:
  "member_inv member_REFRESH
   \<and> crashed (transition env0 EVT_LIST_OK (ArgId 7)
        (transition env0 EVT_GETPEERS_DONE NoArg (est_of member_REFRESH)))"
proof -
  have k: "step_of member_REFRESH = STEP_REFRESH_CHECKING_MASTER" "requested_LEFT_MASTER member_REFRESH"
    "\<not> requested_LEAVE member_REFRESH" "\<not> requested_LEFT_SELF member_REFRESH"
    "local_id member_REFRESH = 7" by (simp_all add: example_defs)
  have "zrc_list env0 = ZOK" "allow_master env0" by (simp_all add: env0_def)
  with refresh_without_peers_faults [of "est_of member_REFRESH" env0] k examples_inv(3)
  show ?thesis by simp
qed

text \<open>
  The attempts of an exchange of versions with the slaves are not bounded by the variable
  \<^verbatim>\<open>sqliterepo.repo.getvers_attempts\<close> when it is at least 2: each new exchange refills the
  counter, so that with peers that never answer the member is still retrying after any number
  of rounds.
\<close>

theorem getvers_retries_unbounded:
  assumes "retrying k ps a s" "a \<noteq> 0" "ps \<noteq> []" "length ps < 63"
    and "spaced (last_status (mb s)) es"
    and "list_all (\<lambda>e. 2 \<le> getvers_attempts e \<and> getvers_attempts e < 63) es"
  shows "step_of (mb (fold (failing_round (length ps)) es s)) = STEP_DELAYED_CHECKING_SLAVES"
  using failing_rounds [OF assms] by (auto simp: retrying_def at_step_def)

theorem getvers_retries_unbounded_witness:
  "step_of (mb (fold (failing_round (length [''B'', ''C''])) [env0, env0\<lparr>now := 3000000\<rparr>]
     (est_of member_DELAYED))) = STEP_DELAYED_CHECKING_SLAVES"
proof (rule getvers_retries_unbounded)
  show "retrying ''AB'' [''B'', ''C''] 4 (est_of member_DELAYED)"
    by (simp add: retrying_def at_step_def undisturbed_def) (simp add: example_defs)
  show "spaced (last_status (mb (est_of member_DELAYED))) [env0, env0\<lparr>now := 3000000\<rparr>]"
    by (simp add: example_defs OLDEST_def)
qed (simp_all add: env0_def)

end
