(* ===== verification/Election_Manager.thy ===== *)
theory Election_Manager
  imports Election_React Str_Codec "HOL-Library.List_Lexorder" "HOL-Library.Char_ord"
begin

text \<open>
  The manager of the elections (\<^verbatim>\<open>sqliterepo/election.c\<close>): the tree of the members by key, the
  queues of members by step, the lock, and the operations of the public interface: creation of
  members, requests of the clients, watchers, expirations, timers, balancing of the masters,
  statistics and checks.

  The tree is the list of its entries in the order of the keys.  An operation is the sequence of
  its critical sections; those that another thread may separate are definitions of their own.
  \<open>mlocked\<close> tells whether the lock is held, \<open>mblocked\<close> that an operation asked for it while
  nobody would release it.  The hash of the name of a base (\<^verbatim>\<open>sqliterepo_hash_name\<close>) is the
  argument \<open>key\<close> of the operations, and the configured \<^verbatim>\<open>get_peers\<close> the argument
  \<open>get_peers\<close>, a function of the flag \<^verbatim>\<open>nocache\<close>.
\<close>

section \<open>State\<close>

record mgr =
  members_by_key :: "(string \<times> member) list"
  members_by_state :: queues
  mexiting :: bool
  deferred_peering_notify :: bool
  notifications :: nat
  msent :: "(string \<times> outmsg) list"
  mcrashed :: bool
  mlocked :: bool
  mblocked :: bool
  mux_factor :: nat
  nb_shards :: nat
  sync_tab :: "nat list"

abbreviation sync_nb :: "mgr \<Rightarrow> nat" where "sync_nb M \<equiv> length (sync_tab M)"

definition election_manager_create :: "nat \<Rightarrow> mgr" where
  "election_manager_create mux =
     \<lparr>members_by_key = [], members_by_state = queues_empty, mexiting = False,
      deferred_peering_notify = False, notifications = 0, msent = [], mcrashed = False,
      mlocked = False, mblocked = False, mux_factor = mux, nb_shards = 0, sync_tab = []\<rparr>"

text \<open>
  A connection is named by its ZooKeeper handle, the only part of it the manager reads.  The
  division by a null \<^verbatim>\<open>mux_factor\<close> is a fault (the configuration only allows 1 to 64).
\<close>

definition election_manager_add_sync :: "nat \<Rightarrow> mgr \<Rightarrow> mgr" where
  "election_manager_add_sync zh M =
     M\<lparr>sync_tab := sync_tab M @ [zh], nb_shards := (sync_nb M + 1) div mux_factor M,
       mcrashed := (mcrashed M \<or> mux_factor M = 0)\<rparr>"

definition manager_lock :: "mgr \<Rightarrow> mgr" where
  "manager_lock M = M\<lparr>mlocked := True, mblocked := (mblocked M \<or> mlocked M)\<rparr>"

definition manager_unlock :: "mgr \<Rightarrow> mgr" where
  "manager_unlock M =
     M\<lparr>mlocked := False, deferred_peering_notify := False,
       notifications := notifications M + (if deferred_peering_notify M then 1 else 0)\<rparr>"

fun g_tree_put :: "string \<Rightarrow> 'a \<Rightarrow> (string \<times> 'a) list \<Rightarrow> (string \<times> 'a) list" where
  "g_tree_put k v [] = [(k, v)]"
| "g_tree_put k v ((k', v') # t) =
     (if k = k' then (k, v) # t else if k < k' then (k, v) # (k', v') # t
      else (k', v') # g_tree_put k v t)"

definition g_tree_del :: "string \<Rightarrow> (string \<times> 'a) list \<Rightarrow> (string \<times> 'a) list" where
  "g_tree_del k t = filter (\<lambda>kv. fst kv \<noteq> k) t"

abbreviation member_at :: "mgr \<Rightarrow> string \<Rightarrow> member option" where
  "member_at M k \<equiv> map_of (members_by_key M) k"

abbreviation front_of :: "mgr \<Rightarrow> step \<Rightarrow> string option" where
  "front_of M st \<equiv> bfront (q_beacon (members_by_state M) st)"

abbreviation count_of :: "mgr \<Rightarrow> step \<Rightarrow> guint32" where
  "count_of M st \<equiv> bcount (q_beacon (members_by_state M) st)"

text \<open>A reaction of the state machine run on one member of the manager.\<close>

definition est_at :: "mgr \<Rightarrow> member \<Rightarrow> est" where
  "est_at M m = \<lparr>mb = m, queues_of = members_by_state M, exiting = mexiting M,
     notify = deferred_peering_notify M, outs = [], crashed = mcrashed M\<rparr>"

definition put_est :: "mgr \<Rightarrow> string \<Rightarrow> est \<Rightarrow> mgr" where
  "put_est M k s =
     M\<lparr>members_by_key := g_tree_put k (mb s) (members_by_key M), members_by_state := queues_of s,
       deferred_peering_notify := notify s, msent := msent M @ map (Pair k) (outs s),
       mcrashed := crashed s\<rparr>"

definition on_member :: "(est \<Rightarrow> est) \<Rightarrow> string \<Rightarrow> mgr \<Rightarrow> mgr" where
  "on_member g k M =
     (case member_at M k of None \<Rightarrow> M | Some m \<Rightarrow> put_est M k (g (est_at M m)))"

section \<open>Members\<close>

text \<open>
  \<^verbatim>\<open>_LOCKED_get_member\<close> takes a reference for its caller, \<open>put_member\<close> gives it back
  (\<^verbatim>\<open>member_unref\<close>).
\<close>

definition LOCKED_get_member :: "string \<Rightarrow> mgr \<Rightarrow> member option \<times> mgr" where
  "LOCKED_get_member k M =
     (let M1 = on_member (on_mb member_ref) k M in (member_at M1 k, M1))"

definition put_member :: "string \<Rightarrow> mgr \<Rightarrow> mgr" where
  "put_member k = on_member (on_mb member_unref) k"

text \<open>
  The connection of a new member: the two last bytes of the key, in hexadecimal, choose the
  shard, and the two bytes before them the connection to the shard.  The two bytes are the memory
  of a 16-bit integer, here little-endian, which is zero before.
\<close>

datatype sync_choice = SyncNone | SyncAt nat | SyncBadKey | SyncFault

definition read_guint16 :: "string \<Rightarrow> nat option" where
  "read_guint16 s =
     (case oio_str_hex2bin s 2 of
        (False, _) \<Rightarrow> None
      | (True, bs) \<Rightarrow> Some (case bs of [] \<Rightarrow> 0 | [b] \<Rightarrow> unat b | b # c # _ \<Rightarrow> unat b + 256 * unat c))"

definition choose_sync :: "mgr \<Rightarrow> string \<Rightarrow> sync_choice" where
  "choose_sync M key =
     (if sync_nb M = 1 then SyncAt 0
      else if sync_nb M > 1
      then if nb_shards M > 1 \<and> length key < 4 \<or> mux_factor M > 1 \<and> length key < 8
              \<or> nb_shards M = 0 \<or> mux_factor M = 0 then SyncFault
           else (case (if nb_shards M > 1 then read_guint16 (drop (length key - 4) key) else Some 0) of
                   None \<Rightarrow> SyncBadKey
                 | Some id_shard \<Rightarrow>
                     (case (if mux_factor M > 1 then read_guint16 (take 4 (drop (length key - 8) key))
                            else Some 0) of
                        None \<Rightarrow> SyncBadKey
                      | Some id_mux \<Rightarrow>
                          SyncAt ((id_shard mod nb_shards M) * mux_factor M + id_mux mod mux_factor M)))
      else SyncNone)"

text \<open>
  \<^verbatim>\<open>_LOCKED_init_member\<close>: whether it returns a member, on which the caller has a reference
  then.  \<open>gen\<close> is the random number drawn for a new one.
\<close>

definition insert_member :: "member \<Rightarrow> mgr \<Rightarrow> mgr" where
  "insert_member m M =
     M\<lparr>members_by_state := DEQUE_add (step_of m) (m_key m) (members_by_state M),
       members_by_key := g_tree_put (m_key m) m (members_by_key M)\<rparr>"

definition LOCKED_init_member ::
  "env \<Rightarrow> guint16 \<Rightarrow> string \<Rightarrow> bool \<Rightarrow> string list option \<Rightarrow> mgr \<Rightarrow> bool \<times> mgr" where
  "LOCKED_init_member e gen key autocreate ps M =
     (case LOCKED_get_member key M of
        (Some m, M1) \<Rightarrow> (True, M1)
      | (None, M1) \<Rightarrow>
          if autocreate
          then (case choose_sync M1 key of
                  SyncBadKey \<Rightarrow> (False, M1)
                | SyncFault \<Rightarrow> (False, M1\<lparr>mcrashed := True\<rparr>)
                | SyncNone \<Rightarrow> (True, insert_member (new_member key None (now e) gen ps) M1)
                | SyncAt i \<Rightarrow> (True, insert_member (new_member key (Some i) (now e) gen ps) M1))
          else (False, M1))"

section \<open>Statistics\<close>

record election_counts =
  cnt_total :: guint32
  cnt_none :: guint32
  cnt_pending :: guint32
  cnt_failed :: guint32
  cnt_master :: guint32
  cnt_slave :: guint32

definition NOLOCK_count :: "mgr \<Rightarrow> election_counts" where
  "NOLOCK_count M =
     (let cnone = count_of M STEP_NONE;
          pending = count_of M STEP_CREATING + count_of M STEP_WATCHING + count_of M STEP_LISTING
            + count_of M STEP_ASKING + count_of M STEP_CHECKING_MASTER
            + count_of M STEP_CHECKING_SLAVES + count_of M STEP_DELAYED_CHECKING_MASTER
            + count_of M STEP_DELAYED_CHECKING_SLAVES + count_of M STEP_REFRESH_CHECKING_MASTER
            + count_of M STEP_REFRESH_CHECKING_SLAVES + count_of M STEP_SYNCING
            + count_of M STEP_LEAVING + count_of M STEP_LEAVING_FAILING;
          failed = count_of M STEP_FAILED; slave = count_of M STEP_SLAVE;
          master = count_of M STEP_MASTER
      in \<lparr>cnt_total = cnone + pending + master + slave + failed, cnt_none = cnone,
          cnt_pending = pending, cnt_failed = failed, cnt_master = master, cnt_slave = slave\<rparr>)"

definition election_manager_count :: "mgr \<Rightarrow> election_counts \<times> mgr" where
  "election_manager_count M =
     (let M1 = manager_lock M in (NOLOCK_count M1, manager_unlock M1))"

definition manager_count_active :: "mgr \<Rightarrow> guint32 \<times> mgr" where
  "manager_count_active M =
     (let (c, M1) = election_manager_count M in (cnt_pending c + cnt_master c + cnt_slave c, M1))"

section \<open>Peers\<close>

definition LOCKED_get_cached_peers :: "string \<Rightarrow> mgr \<Rightarrow> string list option \<times> mgr" where
  "LOCKED_get_cached_peers k M =
     (case LOCKED_get_member k M of
        (None, M1) \<Rightarrow> (None, M1)
      | (Some m, M1) \<Rightarrow>
          (case peers m of None \<Rightarrow> None | Some ps \<Rightarrow> if ps = [] then None else Some ps,
           put_member k M1))"

definition LOCKED_cache_peers :: "string \<Rightarrow> string list \<Rightarrow> mgr \<Rightarrow> mgr" where
  "LOCKED_cache_peers k ps M =
     (case LOCKED_get_member k M of
        (None, M1) \<Rightarrow> M1
      | (Some m, M1) \<Rightarrow>
          put_member k
            (on_member (on_mb (\<lambda>m. (member_reset_peers m)
                \<lparr>peers := (if ps = [] then None else Some ps)\<rparr>)) k M1))"

definition get_cached_peers :: "string \<Rightarrow> mgr \<Rightarrow> string list option \<times> mgr" where
  "get_cached_peers k M =
     (let (r, M1) = LOCKED_get_cached_peers k (manager_lock M) in (r, manager_unlock M1))"

definition cache_peers :: "string \<Rightarrow> string list \<Rightarrow> mgr \<Rightarrow> mgr" where
  "cache_peers k ps M = manager_unlock (LOCKED_cache_peers k ps (manager_lock M))"

text \<open>\<open>locked\<close> is the flag \<^verbatim>\<open>_ELECTION_MANAGER_LOCKED\<close>: the caller holds the lock.\<close>

definition election_get_peers ::
  "(bool \<Rightarrow> code + string list) \<Rightarrow> bool \<Rightarrow> bool \<Rightarrow> string \<Rightarrow> mgr \<Rightarrow> (code + string list) \<times> mgr" where
  "election_get_peers get_peers nocache locked k M =
     (case (if nocache then (None, M)
            else if locked then LOCKED_get_cached_peers k M else get_cached_peers k M) of
        (Some ps, M1) \<Rightarrow> (Inr ps, M1)
      | (None, M1) \<Rightarrow>
          (case get_peers nocache of
             Inl c \<Rightarrow> (Inl c, M1)
           | Inr ps \<Rightarrow> (Inr ps, if locked then LOCKED_cache_peers k ps M1 else cache_peers k ps M1)))"

end
