(* ===== verification/Election_Ops.thy ===== *)
theory Election_Ops
  imports Election_Manager
begin

text \<open>
  The operations of the manager of the elections (\<^verbatim>\<open>sqliterepo/election.c\<close>): the requests of
  the clients, the watchers, the exit, the periodic tasks and the checks made by the
  replication.
\<close>

section \<open>Exit\<close>

definition run_exit :: "env \<Rightarrow> event \<Rightarrow> string \<Rightarrow> mgr \<Rightarrow> mgr" where
  "run_exit e evt k M =
     on_member (\<lambda>s. if step_of (mb s) \<noteq> STEP_NONE \<and> step_of (mb s) \<noteq> STEP_LEAVING
                    then transition e evt NoArg s else s) k M"

text \<open>
  The critical section of \<^verbatim>\<open>election_manager_exit_all\<close>; the loop that follows it only sleeps
  until \<^const>\<open>manager_count_active\<close> is zero or the deadline is over.
\<close>

definition election_manager_exit_all :: "env \<Rightarrow> bool \<Rightarrow> mgr \<Rightarrow> mgr" where
  "election_manager_exit_all e leave_cleanly M =
     (let M1 = (manager_lock M)\<lparr>mexiting := True\<rparr>
      in manager_unlock
           (fold (run_exit e (if leave_cleanly then EVT_LEAVE_REQ else EVT_DISCONNECTED))
              (map fst (members_by_key M1)) M1))"

section \<open>Watchers\<close>

datatype zoo_event = ZOO_SESSION_EVENT | ZOO_DELETED_EVENT | ZOO_OTHER_EVENT
datatype zoo_state = ZOO_EXPIRED_SESSION_STATE | ZOO_AUTH_FAILED_STATE | ZOO_OTHER_STATE

record deferred_watcher =
  w_type :: zoo_event
  w_gen :: guint32
  w_evt :: event
  w_zh :: nat
  w_path :: string

text \<open>The characters after the last occurrence of \<open>c\<close>, and those before its first one.\<close>

definition after_last :: "char \<Rightarrow> string \<Rightarrow> string option" where
  "after_last c s = (if c \<in> set s then Some (rev (takeWhile (\<lambda>x. x \<noteq> c) (rev s))) else None)"

definition before_first :: "char \<Rightarrow> string \<Rightarrow> string option" where
  "before_first c s = (if c \<in> set s then Some (takeWhile (\<lambda>x. x \<noteq> c) s) else None)"

definition watch_COMMON ::
  "nat \<Rightarrow> zoo_event \<Rightarrow> zoo_state \<Rightarrow> string option \<Rightarrow> guint32 \<Rightarrow> event \<Rightarrow> mgr \<Rightarrow> deferred_watcher option" where
  "watch_COMMON h type state path gen evt M =
     (if type \<noteq> ZOO_SESSION_EVENT \<and> type \<noteq> ZOO_DELETED_EVENT then None
      else if type = ZOO_SESSION_EVENT \<and> state \<noteq> ZOO_EXPIRED_SESSION_STATE
              \<and> state \<noteq> ZOO_AUTH_FAILED_STATE then None
      else if mexiting M then None
      else Some \<lparr>w_type = type, w_gen = gen, w_evt = evt, w_zh = h,
                 w_path = (case path of
                             None \<Rightarrow> []
                           | Some p \<Rightarrow> (case after_last (CHR ''/'') p of
                                          None \<Rightarrow> [] | Some r \<Rightarrow> CHR ''/'' # r))\<rparr>)"

definition watch_MASTER ::
  "nat \<Rightarrow> zoo_event \<Rightarrow> zoo_state \<Rightarrow> string option \<Rightarrow> guint32 \<Rightarrow> mgr \<Rightarrow> deferred_watcher option" where
  "watch_MASTER h type state path gen M = watch_COMMON h type state path gen EVT_LEFT_MASTER M"

definition watch_SELF ::
  "nat \<Rightarrow> zoo_event \<Rightarrow> zoo_state \<Rightarrow> string option \<Rightarrow> guint32 \<Rightarrow> mgr \<Rightarrow> deferred_watcher option" where
  "watch_SELF h type state path gen M = watch_COMMON h type state path gen EVT_LEFT_SELF M"

text \<open>
  \<^verbatim>\<open>_find_member\<close>: the key of the member, which the caller gets with the lock held and a
  reference; without a member the lock is released.
\<close>

definition find_member :: "string \<Rightarrow> guint32 \<Rightarrow> mgr \<Rightarrow> string option \<times> mgr" where
  "find_member path gen M =
     (case after_last (CHR ''/'') path of
        None \<Rightarrow> (None, M)
      | Some slash \<Rightarrow>
          (case before_first (CHR ''-'') slash of
             None \<Rightarrow> (None, M)
           | Some key \<Rightarrow>
               (case LOCKED_get_member key (manager_lock M) of
                  (Some m, M1) \<Rightarrow>
                    if unat (generation_id m) = unat gen then (Some key, M1)
                    else (None, manager_unlock (put_member key M1))
                | (None, M1) \<Rightarrow> (None, manager_unlock M1))))"

definition sqlx_sync_uses_handle :: "mgr \<Rightarrow> nat option \<Rightarrow> nat \<Rightarrow> bool" where
  "sqlx_sync_uses_handle M ss zh =
     (case ss of None \<Rightarrow> False | Some i \<Rightarrow> i < sync_nb M \<and> sync_tab M ! i = zh)"

text \<open>
  The loop of \<^verbatim>\<open>_reset_matching_members\<close>, from the member the cursor is on.  It starts again
  at the front after each reset; \<open>None\<close> is the lack of fuel.
\<close>

definition disconnect_member :: "env \<Rightarrow> est \<Rightarrow> est" where
  "disconnect_member e s =
     member_log_change e EVT_DISCONNECTED (member_set_status e STEP_NONE) (on_mb member_reset s)"

fun reset_matching_loop ::
  "nat \<Rightarrow> env \<Rightarrow> nat \<Rightarrow> step \<Rightarrow> string option \<Rightarrow> guint32 \<Rightarrow> mgr \<Rightarrow> (guint32 \<times> mgr) option" where
  "reset_matching_loop 0 e zh st cur n M = None"
| "reset_matching_loop (Suc fuel) e zh st cur n M =
     (case cur of
        None \<Rightarrow> Some (n, M)
      | Some k \<Rightarrow>
          (case member_at M k of
             None \<Rightarrow> Some (n, M\<lparr>mcrashed := True\<rparr>)
           | Some m \<Rightarrow>
               if st = step_of m \<and> sqlx_sync_uses_handle M (m_sync m) zh
               then let M1 = on_member (disconnect_member e) k M
                    in reset_matching_loop fuel e zh st (front_of M1 st) (n + 1) M1
               else reset_matching_loop fuel e zh st (lnext (q_links (members_by_state M)) k) n M))"

definition reset_matching_members :: "env \<Rightarrow> nat \<Rightarrow> step \<Rightarrow> mgr \<Rightarrow> (guint32 \<times> mgr) option" where
  "reset_matching_members e zh st M =
     (let M1 = manager_lock M; n = length (members_by_key M1)
      in map_option (apsnd manager_unlock)
           (reset_matching_loop ((n + 1) * (n + 1)) e zh st (front_of M1 st) 0 M1))"

text \<open>
  \<^verbatim>\<open>deferred_watch_COMMON\<close>.  On a session event for a known member, the source does not
  release the lock that \<^verbatim>\<open>_find_member\<close> took.
\<close>

definition deferred_watch_COMMON :: "env \<Rightarrow> deferred_watcher \<Rightarrow> mgr \<Rightarrow> mgr option" where
  "deferred_watch_COMMON e d M =
     (if mexiting M then Some M
      else case w_type d of
        ZOO_SESSION_EVENT \<Rightarrow>
          (case find_member (w_path d) (w_gen d) M of
             (Some k, M1) \<Rightarrow>
               Some (on_member (\<lambda>s. member_log_change e EVT_DISCONNECTED (member_set_status e STEP_NONE)
                                      (on_mb member_unref (on_mb member_reset s))) k M1)
           | (None, M1) \<Rightarrow>
               if count_of M1 STEP_MASTER > 0
               then map_option snd (reset_matching_members e (w_zh d) STEP_MASTER M1)
               else Some M1)
      | ZOO_DELETED_EVENT \<Rightarrow>
          (case find_member (w_path d) (w_gen d) M of
             (Some k, M1) \<Rightarrow>
               Some (manager_unlock (put_member k (on_member (transition e (w_evt d) NoArg) k M1)))
           | (None, M1) \<Rightarrow> Some M1)
      | ZOO_OTHER_EVENT \<Rightarrow> Some M)"

section \<open>Requests of the clients\<close>

datatype election_op = ELOP_NONE | ELOP_START | ELOP_RESYNC | ELOP_RESYNC_CHECK | ELOP_RESYNC_NOCHECK | ELOP_EXIT

definition election_atime :: "env \<Rightarrow> est \<Rightarrow> est" where
  "election_atime e s =
     (let s1 = on_mb (\<lambda>m. m\<lparr>last_atime := now e\<rparr>) s;
          st = step_of (mb s1); k = m_key (mb s1)
      in if st = STEP_MASTER \<or> st = STEP_SLAVE
         then s1\<lparr>queues_of := DEQUE_add st k (DEQUE_remove st k (queues_of s1))\<rparr>
         else s1)"

text \<open>The \<^verbatim>\<open>switch\<close> on the operation, for a member that exists.\<close>

definition run_op :: "env \<Rightarrow> election_op \<Rightarrow> est \<Rightarrow> est" where
  "run_op e op s =
     (case op of
        ELOP_NONE \<Rightarrow> election_atime e s
      | ELOP_START \<Rightarrow> transition e EVT_NONE NoArg (election_atime e s)
      | ELOP_RESYNC \<Rightarrow> transition e EVT_SYNC_REQ NoArg (election_atime e s)
      | ELOP_RESYNC_CHECK \<Rightarrow>
          transition e EVT_SYNC_REQ NoArg (election_atime e (on_mb (\<lambda>m. m\<lparr>db_check_type := 2\<rparr>) s))
      | ELOP_RESYNC_NOCHECK \<Rightarrow>
          transition e EVT_SYNC_REQ NoArg (election_atime e (on_mb (\<lambda>m. m\<lparr>db_check_type := 0\<rparr>) s))
      | ELOP_EXIT \<Rightarrow> transition e EVT_LEAVE_REQ NoArg s)"

fun g_strsplit :: "char \<Rightarrow> string \<Rightarrow> string \<Rightarrow> string list" where
  "g_strsplit sep cur [] = [cur]"
| "g_strsplit sep cur (c # s) =
     (if c = sep then cur # g_strsplit sep [] s else g_strsplit sep (cur @ [c]) s)"

definition manager_filter_peers :: "env \<Rightarrow> string list \<Rightarrow> string list" where
  "manager_filter_peers e ps = oio_strv_filter ps (local_url e)"

text \<open>
  \<^verbatim>\<open>_election_make\<close> in its two critical sections: whether the member has peers, then the
  operation.  Without a member, the operations other than the exit read a NULL pointer.
\<close>

definition election_make_peek :: "string \<Rightarrow> mgr \<Rightarrow> bool \<times> mgr" where
  "election_make_peek key M =
     (case LOCKED_get_member key (manager_lock M) of
        (Some m, M1) \<Rightarrow>
          ((case peers m of None \<Rightarrow> False | Some ps \<Rightarrow> ps \<noteq> []), manager_unlock (put_member key M1))
      | (None, M1) \<Rightarrow> (False, manager_unlock M1))"

definition election_make_run ::
  "env \<Rightarrow> guint16 \<Rightarrow> string \<Rightarrow> election_op \<Rightarrow> string list option \<Rightarrow> mgr \<Rightarrow> step \<times> mgr" where
  "election_make_run e gen key op ps M =
     (case LOCKED_init_member e gen key (op \<noteq> ELOP_EXIT) ps (manager_lock M) of
        (True, M1) \<Rightarrow>
          (let M2 = on_member (run_op e op) key M1
           in (case member_at M2 key of Some m \<Rightarrow> step_of m | None \<Rightarrow> STEP_NONE,
               manager_unlock (put_member key M2)))
      | (False, M1) \<Rightarrow>
          (STEP_NONE, manager_unlock (M1\<lparr>mcrashed := (mcrashed M1 \<or> op \<noteq> ELOP_EXIT)\<rparr>)))"

text \<open>
  The result has the error, and the status and the replication flag given back, if any.
\<close>

definition election_make ::
  "env \<Rightarrow> guint16 \<Rightarrow> (bool \<Rightarrow> code + string list) \<Rightarrow> string \<Rightarrow> string \<Rightarrow> election_op \<Rightarrow> string
    \<Rightarrow> mgr \<Rightarrow> gerror \<times> (step \<times> bool) option \<times> mgr" where
  "election_make e gen get_peers key suffix op new_peers M =
     (if suffix \<noteq> [] then (None, None, M)
      else if mexiting M then (Some CODE_UNAVAILABLE, Some (STEP_NONE, False), M)
      else
        let (present, M1) = election_make_peek key M
        in case (if op \<noteq> ELOP_EXIT \<and> \<not> present
                 then if new_peers \<noteq> []
                      then (Inr (manager_filter_peers e (g_strsplit (CHR '','') [] new_peers)), M1)
                      else election_get_peers get_peers False False key M1
                 else (Inr [], M1)) of
             (Inl c, M2) \<Rightarrow> (Some c, Some (STEP_NONE, False), M2)
           | (Inr ps, M2) \<Rightarrow>
               let fetched = (ps \<noteq> [] \<and> hd ps \<noteq> []);
                   (st, M3) = election_make_run e gen key op (if fetched then Some ps else None) M2
               in (None, Some (st, present \<or> fetched), M3))"

definition election_trigger_RESYNC ::
  "env \<Rightarrow> guint16 \<Rightarrow> (bool \<Rightarrow> code + string list) \<Rightarrow> string \<Rightarrow> string \<Rightarrow> int \<Rightarrow> mgr \<Rightarrow> gerror \<times> mgr" where
  "election_trigger_RESYNC e gen get_peers key suffix check_type M =
     (let op = (if check_type = 0 then ELOP_RESYNC_NOCHECK
                else if check_type = 2 then ELOP_RESYNC_CHECK else ELOP_RESYNC);
          (err, _, M1) = election_make e gen get_peers key suffix op [] M
      in (err, M1))"

definition election_init ::
  "env \<Rightarrow> guint16 \<Rightarrow> (bool \<Rightarrow> code + string list) \<Rightarrow> string \<Rightarrow> string \<Rightarrow> string \<Rightarrow> mgr
    \<Rightarrow> gerror \<times> (step \<times> bool) option \<times> mgr" where
  "election_init e gen get_peers key suffix ps M = election_make e gen get_peers key suffix ELOP_NONE ps M"

definition election_start ::
  "env \<Rightarrow> guint16 \<Rightarrow> (bool \<Rightarrow> code + string list) \<Rightarrow> string \<Rightarrow> string \<Rightarrow> mgr \<Rightarrow> gerror \<times> mgr" where
  "election_start e gen get_peers key suffix M =
     (let (err, _, M1) = election_make e gen get_peers key suffix ELOP_START [] M in (err, M1))"

definition election_exit ::
  "env \<Rightarrow> guint16 \<Rightarrow> (bool \<Rightarrow> code + string list) \<Rightarrow> string \<Rightarrow> string \<Rightarrow> mgr \<Rightarrow> gerror \<times> mgr" where
  "election_exit e gen get_peers key suffix M =
     (let (err, _, M1) = election_make e gen get_peers key suffix ELOP_EXIT [] M in (err, M1))"

end
