(* ===== verification/Election_Timers.thy ===== *)
theory Election_Timers
  imports Election_Ops
begin

text \<open>
  The waiting of a client for a status, the periodic tasks of the manager of the elections and the
  checks made for the replication (\<^verbatim>\<open>sqliterepo/election.c\<close>).

  A loop that reads the clock at each iteration is given the list of the environments of its
  iterations; it returns \<open>None\<close> when the list ends before the loop does.
\<close>

section \<open>Waiting for a status\<close>

record wait_state =
  last_getpeers_failure :: time
  getpeers_failures :: guint32

text \<open>
  \<^verbatim>\<open>_container_no_longer_exists\<close>: the error found, if any.  The two last entries of the log of
  the member tell why the election fails.
\<close>

definition last_failure :: "member \<Rightarrow> logged_event" where
  "last_failure m =
     (let idx = (ucast (log_index m) :: guint32) - 1;
          log = m_log m ! (unat idx mod EVENTLOG_SIZE);
          log2 = m_log m ! (unat (idx - 1) mod EVENTLOG_SIZE)
      in if log_pre log = STEP_FAILED \<and> log_post log = STEP_NONE \<and> log_time log2 \<le> log_time log
         then log2 else log)"

definition container_no_longer_exists ::
  "(bool \<Rightarrow> code + string list) \<Rightarrow> string \<Rightarrow> member \<Rightarrow> wait_state \<Rightarrow> mgr \<Rightarrow> gerror \<times> wait_state \<times> mgr" where
  "container_no_longer_exists get_peers key m w M =
     (let log = last_failure m
      in if peers m = None \<and> log_pre log = STEP_PEERING \<and> log_post log = STEP_FAILED
            \<and> log_event log = EVT_GETPEERS_DONE
         then let w1 = (if log_time log > last_getpeers_failure w
                        then w\<lparr>last_getpeers_failure := log_time log,
                               getpeers_failures := getpeers_failures w + 1\<rparr> else w)
              in if getpeers_failures w1 < 4 then (None, w1, M)
                 else (case election_get_peers get_peers False True key M of
                         (Inl c, M1) \<Rightarrow>
                           if c = CODE_CONTAINER_NOTFOUND \<or> c = CODE_USER_NOTFOUND
                           then (Some c, w1, M1)
                           else (None, w1\<lparr>getpeers_failures := 0\<rparr>, M1)
                       | (Inr ps, M1) \<Rightarrow> (None, w1\<lparr>getpeers_failures := 0\<rparr>, M1))
         else (None, w\<lparr>getpeers_failures := 0\<rparr>, M))"

datatype wait_outcome = WaitDone | WaitFail code | WaitMore

text \<open>
  An iteration of \<^verbatim>\<open>wait_for_final_status\<close>, with the configuration variables
  \<^verbatim>\<open>oio_election_enable_nowait_pending\<close> and \<^verbatim>\<open>oio_election_delay_nowait_pending\<close>.
\<close>

definition wait_iteration ::
  "env \<Rightarrow> (bool \<Rightarrow> code + string list) \<Rightarrow> bool \<Rightarrow> time \<Rightarrow> time \<Rightarrow> string \<Rightarrow> wait_state \<Rightarrow> mgr
    \<Rightarrow> wait_outcome \<times> wait_state \<times> mgr" where
  "wait_iteration e get_peers nowait delay_nowait deadline key w M =
     (case member_at M key of
        None \<Rightarrow> (WaitFail CODE_INTERNAL_ERROR, w, M\<lparr>mcrashed := True\<rparr>)
      | Some m \<Rightarrow>
          if STATUS_FINAL (step_of m)
          then (WaitDone, w, on_member (on_mb (\<lambda>m. m\<lparr>last_atime := now e\<rparr>)) key M)
          else if mexiting M then (WaitFail CODE_UNAVAILABLE, w, M)
          else if now e > deadline then (WaitFail CODE_UNAVAILABLE, w, M)
          else (case container_no_longer_exists get_peers key m w M of
                  (Some c, w1, M1) \<Rightarrow> (WaitFail c, w1, M1)
                | (None, w1, M1) \<Rightarrow>
                    let M2 = on_member (\<lambda>s. transition e EVT_NONE NoArg
                               (on_mb (\<lambda>m. m\<lparr>last_atime := now e\<rparr>) s)) key M1
                    in (case member_at M2 key of
                          None \<Rightarrow> (WaitMore, w1, M2)
                        | Some m2 \<Rightarrow>
                            if nowait \<and> when_unstable m2 > 0
                               \<and> when_unstable m2 < OLDEST (now e) delay_nowait
                            then (WaitFail CODE_UNAVAILABLE, w1, M2) else (WaitMore, w1, M2))))"

text \<open>
  The loop.  \<^verbatim>\<open>g_cond_wait_until\<close> releases the lock and takes it again; \<open>others\<close> is what
  the other threads do meanwhile.
\<close>

fun wait_for_final_status ::
  "(env \<times> (mgr \<Rightarrow> mgr)) list \<Rightarrow> (bool \<Rightarrow> code + string list) \<Rightarrow> bool \<Rightarrow> time \<Rightarrow> time \<Rightarrow> string
    \<Rightarrow> wait_state \<Rightarrow> mgr \<Rightarrow> (gerror \<times> mgr) option" where
  "wait_for_final_status [] gp nowait dnw deadline key w M = None"
| "wait_for_final_status ((e, others) # es) gp nowait dnw deadline key w M =
     (case wait_iteration e gp nowait dnw deadline key w M of
        (WaitDone, _, M1) \<Rightarrow> Some (None, M1)
      | (WaitFail c, _, M1) \<Rightarrow> Some (Some c, M1)
      | (WaitMore, w1, M1) \<Rightarrow>
          wait_for_final_status es gp nowait dnw deadline key w1
            (manager_lock (others (M1\<lparr>mlocked := False\<rparr>))))"

datatype election_status = ELECTION_LOST | ELECTION_LEADER | ELECTION_FAILED

text \<open>
  \<^verbatim>\<open>_election_get_status\<close>: the error set by the wait, the status, the address of the master.
\<close>

definition get_status_deadline :: "time \<Rightarrow> time \<Rightarrow> time \<Rightarrow> time" where
  "get_status_deadline start delay_wait deadline =
     (let local_deadline = start + delay_wait
      in if deadline \<le> 0 then local_deadline else min deadline local_deadline)"

definition get_status_end ::
  "string \<Rightarrow> gerror \<Rightarrow> mgr \<Rightarrow> election_status \<times> string option \<times> mgr" where
  "get_status_end key err M =
     (let m = member_at M key;
          rc = (if err \<noteq> None then STEP_FAILED
                else case m of None \<Rightarrow> STEP_FAILED | Some m \<Rightarrow> step_of m);
          url = (if rc = STEP_SLAVE then Option.bind m master_url else None);
          M1 = put_member key M;
          M2 = (if rc = STEP_NONE \<or> STATUS_FINAL rc then on_member (\<lambda>s. emit (OutSignal key) s) key M1 else M1)
      in (if rc = STEP_MASTER then ELECTION_LEADER
          else if rc = STEP_SLAVE then ELECTION_LOST else ELECTION_FAILED,
          url, manager_unlock M2))"

definition election_get_status ::
  "env \<Rightarrow> guint16 \<Rightarrow> (env \<times> (mgr \<Rightarrow> mgr)) list \<Rightarrow> (bool \<Rightarrow> code + string list) \<Rightarrow> bool \<Rightarrow> time \<Rightarrow> time
    \<Rightarrow> time \<Rightarrow> string \<Rightarrow> mgr \<Rightarrow> (gerror \<times> election_status \<times> string option \<times> mgr) option" where
  "election_get_status e gen es gp nowait dnw delay_wait deadline key M =
     (case LOCKED_init_member e gen key True None (manager_lock M) of
        (False, M1) \<Rightarrow> Some (Some CODE_INTERNAL_ERROR, ELECTION_FAILED, None, M1\<lparr>mcrashed := True\<rparr>)
      | (True, M1) \<Rightarrow>
          map_option (\<lambda>(err, M2). (err, get_status_end key err M2))
            (wait_for_final_status es gp nowait dnw (get_status_deadline (now e) delay_wait deadline)
               key \<lparr>last_getpeers_failure = 0, getpeers_failures = 0\<rparr> M1))"

section \<open>Timers\<close>

definition member_next_timeout :: "env \<Rightarrow> member \<Rightarrow> time" where
  "member_next_timeout e m =
     (case step_of m of
        STEP_NONE \<Rightarrow> last_status m + delay_expire_NONE e
      | STEP_CREATING \<Rightarrow> last_status m + delay_expire_pending e
      | STEP_DELAYED_CHECKING_MASTER \<Rightarrow> last_status m + getvers_delay e
      | STEP_DELAYED_CHECKING_SLAVES \<Rightarrow> last_status m + getvers_delay e
      | STEP_FAILED \<Rightarrow> last_status m + delay_retry_FAILED e
      | STEP_SLAVE \<Rightarrow> last_atime m + delay_expire_SLAVE e
      | STEP_MASTER \<Rightarrow> last_atime m + delay_expire_MASTER e
      | _ \<Rightarrow> 0)"

definition member_expirable :: "env \<Rightarrow> time \<Rightarrow> member \<Rightarrow> bool" where
  "member_expirable e nw m \<longleftrightarrow>
     refcount m = 1 \<and> is_over nw (last_status m) (delay_expire_NONE e)"

text \<open>
  \<^verbatim>\<open>election_manager_play_expirations\<close>: each iteration destroys a member, so that the number
  of members is enough fuel.
\<close>

definition destroy_member :: "member \<Rightarrow> mgr \<Rightarrow> mgr" where
  "destroy_member m M =
     M\<lparr>members_by_state := DEQUE_remove (step_of m) (m_key m) (members_by_state M),
       members_by_key := g_tree_del (m_key m) (members_by_key M)\<rparr>"

text \<open>The critical section of an iteration, and whether the loop stops there.\<close>

definition expiration_section :: "env \<Rightarrow> time \<Rightarrow> string \<Rightarrow> mgr \<Rightarrow> bool \<times> mgr" where
  "expiration_section e nw k M =
     (let M1 = manager_lock M
      in case member_at M1 k of
           None \<Rightarrow> (True, M1\<lparr>mcrashed := True\<rparr>)
         | Some m \<Rightarrow>
             if \<not> member_expirable e nw m then (True, manager_unlock M1)
             else (False, manager_unlock (destroy_member m M1)))"

fun play_expirations_loop :: "nat \<Rightarrow> env \<Rightarrow> time \<Rightarrow> mgr \<Rightarrow> mgr" where
  "play_expirations_loop 0 e nw M = M"
| "play_expirations_loop (Suc n) e nw M =
     (case front_of M STEP_NONE of
        None \<Rightarrow> M
      | Some k \<Rightarrow>
          (case expiration_section e nw k M of
             (True, M1) \<Rightarrow> M1
           | (False, M1) \<Rightarrow> play_expirations_loop n e nw M1))"

definition election_manager_play_expirations :: "env \<Rightarrow> time \<Rightarrow> mgr \<Rightarrow> mgr" where
  "election_manager_play_expirations e nw M =
     play_expirations_loop (length (members_by_key M) + 1) e nw M"

definition timer_section :: "env \<Rightarrow> time \<Rightarrow> string \<Rightarrow> mgr \<Rightarrow> bool \<times> mgr" where
  "timer_section e nw k M =
     (let M1 = manager_lock M
      in case member_at M1 k of
           None \<Rightarrow> (True, M1\<lparr>mcrashed := True\<rparr>)
         | Some m \<Rightarrow>
             let deadline = member_next_timeout e m
             in if deadline = 0 \<or> nw < deadline then (True, manager_unlock M1)
                else (False, manager_unlock (on_member (transition e EVT_NONE NoArg) k M1)))"

fun send_NONE_to_step :: "env list \<Rightarrow> step \<Rightarrow> time \<Rightarrow> mgr \<Rightarrow> (env list \<times> mgr) option" where
  "send_NONE_to_step [] st nw M =
     (case front_of M st of None \<Rightarrow> Some ([], M) | Some k \<Rightarrow> None)"
| "send_NONE_to_step (e # es) st nw M =
     (case front_of M st of
        None \<Rightarrow> Some (e # es, M)
      | Some k \<Rightarrow>
          (case timer_section e nw k M of
             (True, M1) \<Rightarrow> Some (es, M1)
           | (False, M1) \<Rightarrow> send_NONE_to_step es st nw M1))"

fun play_timers_loop :: "step list \<Rightarrow> env list \<Rightarrow> time \<Rightarrow> mgr \<Rightarrow> (env list \<times> mgr) option" where
  "play_timers_loop [] es nw M = Some (es, M)"
| "play_timers_loop (st # sts) es nw M =
     (case send_NONE_to_step es st nw M of
        None \<Rightarrow> None
      | Some (es', M1) \<Rightarrow> play_timers_loop sts es' nw M1)"

definition election_manager_play_timers :: "env list \<Rightarrow> time \<Rightarrow> mgr \<Rightarrow> (env list \<times> mgr) option" where
  "election_manager_play_timers es nw M =
     play_timers_loop [STEP_FAILED, STEP_DELAYED_CHECKING_MASTER, STEP_DELAYED_CHECKING_SLAVES,
       STEP_CREATING, STEP_SLAVE, STEP_MASTER] es nw M"

text \<open>
  \<^verbatim>\<open>election_manager_next_timer\<close> of a manager that is configured (\<open>configured\<close>); the result
  is 0 when no timer is set.
\<close>

definition G_MAXINT64 :: time where "G_MAXINT64 = 2 ^ 63 - 1"

definition election_manager_next_timer :: "bool \<Rightarrow> env \<Rightarrow> mgr \<Rightarrow> time \<times> mgr" where
  "election_manager_next_timer configured e M =
     (if \<not> configured then (0, M)
      else let M1 = manager_lock M;
               latest = fold (\<lambda>st latest.
                   case front_of M1 st of
                     None \<Rightarrow> latest
                   | Some k \<Rightarrow> (case member_at M1 k of
                                  None \<Rightarrow> latest | Some m \<Rightarrow> min latest (member_next_timeout e m)))
                 [STEP_NONE, STEP_FAILED, STEP_DELAYED_CHECKING_MASTER, STEP_DELAYED_CHECKING_SLAVES,
                  STEP_SLAVE, STEP_MASTER] G_MAXINT64
           in (if latest = G_MAXINT64 then 0 else latest, manager_unlock M1))"

section \<open>Balancing\<close>

text \<open>\<open>E\<close> gives the environment of the iteration, by the number of iterations left.\<close>

definition balance_section :: "env \<Rightarrow> time \<Rightarrow> bool \<Rightarrow> mgr \<Rightarrow> bool \<times> mgr" where
  "balance_section e pivot rejoin M =
     (let M1 = manager_lock M
      in case front_of M1 STEP_MASTER of
           None \<Rightarrow> (False, manager_unlock M1)
         | Some k \<Rightarrow>
             (case member_at M1 k of
                None \<Rightarrow> (False, M1\<lparr>mcrashed := True\<rparr>)
              | Some m \<Rightarrow>
                  if pivot > 0 \<and> last_atime m < pivot then (False, manager_unlock M1)
                  else (True, manager_unlock
                          (on_member (\<lambda>s. transition e EVT_LEAVE_REQ NoArg
                             (on_mb (\<lambda>m. m\<lparr>requested_USE := rejoin\<rparr>) s)) k M1))))"

fun balance_loop :: "nat \<Rightarrow> (nat \<Rightarrow> env) \<Rightarrow> time \<Rightarrow> bool \<Rightarrow> nat \<Rightarrow> mgr \<Rightarrow> nat \<times> mgr" where
  "balance_loop 0 E pivot rejoin cnt M = (cnt, M)"
| "balance_loop (Suc n) E pivot rejoin cnt M =
     (case balance_section (E n) pivot rejoin M of
        (False, M1) \<Rightarrow> (cnt, M1)
      | (True, M1) \<Rightarrow> balance_loop n E pivot rejoin (cnt + 1) M1)"

definition election_manager_balance_masters ::
  "(nat \<Rightarrow> env) \<Rightarrow> nat \<Rightarrow> time \<Rightarrow> bool \<Rightarrow> mgr \<Rightarrow> nat \<times> mgr" where
  "election_manager_balance_masters E mx inactivity rejoin M =
     (let pivot = (if inactivity > 0 then OLDEST (now (E mx)) inactivity else 0)
      in balance_loop mx E pivot rejoin 0 M)"

section \<open>Checks for the replication\<close>

definition election_check_replication_allowed ::
  "string \<Rightarrow> string option \<Rightarrow> mgr \<Rightarrow> gerror \<times> mgr" where
  "election_check_replication_allowed key expected_master M =
     (case LOCKED_get_member key (manager_lock M) of
        (None, M1) \<Rightarrow> (None, manager_unlock M1)
      | (Some m, M1) \<Rightarrow>
          (if step_of m = STEP_MASTER \<or> step_of m = STEP_CHECKING_SLAVES then Some CODE_IS_MASTER
           else case (master_url m, expected_master) of
                  (Some u, Some x) \<Rightarrow>
                    if u \<noteq> [] \<and> x \<noteq> [] \<and> x \<noteq> u then Some CODE_CONCURRENT else None
                | _ \<Rightarrow> None,
           manager_unlock (put_member key M1)))"

text \<open>The status is \<open>None\<close> for 0.\<close>

definition election_get_status_nowait :: "string \<Rightarrow> mgr \<Rightarrow> election_status option \<times> mgr" where
  "election_get_status_nowait key M =
     (case LOCKED_get_member key (manager_lock M) of
        (None, M1) \<Rightarrow> (None, manager_unlock M1)
      | (Some m, M1) \<Rightarrow>
          (case step_of m of
             STEP_FAILED \<Rightarrow> Some ELECTION_FAILED
           | STEP_CHECKING_SLAVES \<Rightarrow> Some ELECTION_LEADER
           | STEP_MASTER \<Rightarrow> Some ELECTION_LEADER
           | STEP_CHECKING_MASTER \<Rightarrow> Some ELECTION_LOST
           | STEP_SYNCING \<Rightarrow> Some ELECTION_LOST
           | STEP_SLAVE \<Rightarrow> Some ELECTION_LOST
           | _ \<Rightarrow> None,
           manager_unlock (put_member key M1)))"

end
