(* ===== verification/Manager_Inv.thy ===== *)
theory Manager_Inv
  imports Election_Timers Election_Safety "HOL-Library.Multiset"
begin

text \<open>
  The invariant of the manager of the elections: the tree is sorted, each member is in the queue
  of its step and in no other, each member satisfies the invariant of the state machine, and the
  references of a member are those of its holders (the callbacks that will come back for it and
  the clients that wait for it) plus the one of the tree.  Every step of an operation keeps it.
\<close>

section \<open>The tree\<close>

lemma map_of_g_tree_put [simp]: "map_of (g_tree_put k v t) = (map_of t)(k \<mapsto> v)"
  by (induction k v t rule: g_tree_put.induct) (auto simp: fun_eq_iff)

lemma keys_g_tree_put: "fst ` set (g_tree_put k v t) = insert k (fst ` set t)"
  by (induction k v t rule: g_tree_put.induct) auto

lemma sorted_g_tree_put:
  "sorted_wrt (<) (map fst t) \<Longrightarrow> sorted_wrt (<) (map fst (g_tree_put k v t))"
proof (induction k v t rule: g_tree_put.induct)
  case (2 k v k' v' t)
  have "\<forall>x \<in> fst ` set (g_tree_put k v t). k' < x" if "k' < k"
    using 2(2) that by (auto simp: keys_g_tree_put)
  with 2 show ?case by (auto simp: neq_iff dest: less_trans)
qed simp

lemma map_of_g_tree_del [simp]: "map_of (g_tree_del k t) = (map_of t)(k := None)"
  by (induction t) (auto simp: g_tree_del_def fun_eq_iff)

lemma sorted_g_tree_del:
  "sorted_wrt (<) (map fst t) \<Longrightarrow> sorted_wrt (<) (map fst (g_tree_del k t))"
  by (induction t) (auto simp: g_tree_del_def)

lemma length_g_tree_del:
  "k \<in> fst ` set t \<Longrightarrow> length (g_tree_del k t) < length t"
  unfolding g_tree_del_def by (auto simp: image_iff intro: length_filter_less)

section \<open>Well-formed manager\<close>

definition mgr_wf :: "(step \<Rightarrow> string list) \<Rightarrow> mgr \<Rightarrow> bool" where
  "mgr_wf f M \<longleftrightarrow>
     queues_rep (members_by_state M) f \<and> sorted_wrt (<) (map fst (members_by_key M))
     \<and> (\<forall>k m. member_at M k = Some m \<longrightarrow> m_key m = k \<and> k \<in> set (f (step_of m)))
     \<and> (\<forall>st. set (f st) \<subseteq> dom (member_at M))"

definition mgr_ok :: "mgr \<Rightarrow> bool" where
  "mgr_ok M \<longleftrightarrow> (\<forall>k m. member_at M k = Some m \<longrightarrow> member_inv m)"

text \<open>The references taken by the messages sent, by the key of the member.\<close>

fun sent_refs :: "env \<Rightarrow> (string \<times> outmsg) list \<Rightarrow> string multiset" where
  "sent_refs e [] = {#}"
| "sent_refs e ((k, x) # ms) = replicate_mset (ref_weight e x) k + sent_refs e ms"

definition refs_inv :: "string multiset \<Rightarrow> mgr \<Rightarrow> bool" where
  "refs_inv H M \<longleftrightarrow>
     (\<forall>k m. member_at M k = Some m \<longrightarrow> refcount m = of_nat (1 + count H k))
     \<and> (\<forall>k. member_at M k = None \<longrightarrow> count H k = 0)"

lemma refs_invI:
  assumes "\<And>k m. member_at M k = Some m \<Longrightarrow> refcount m = of_nat (1 + count H k)"
    "\<And>k. member_at M k = None \<Longrightarrow> count H k = 0"
  shows "refs_inv H M"
  unfolding refs_inv_def using assms by blast

lemma refs_inv_Some: "refs_inv H M \<Longrightarrow> member_at M k = Some m \<Longrightarrow> refcount m = of_nat (1 + count H k)"
  unfolding refs_inv_def by blast

lemma refs_inv_None: "refs_inv H M \<Longrightarrow> member_at M k = None \<Longrightarrow> count H k = 0"
  unfolding refs_inv_def by blast

definition mgr_inv :: "env \<Rightarrow> string multiset \<Rightarrow> mgr \<Rightarrow> bool" where
  "mgr_inv e H M \<longleftrightarrow>
     (\<exists>f. mgr_wf f M)
     \<and> (mcrashed M \<or> mgr_ok M \<and> refs_inv (H + sent_refs e (msent M)) M)"

lemma sent_refs_append [simp]: "sent_refs e (a @ b) = sent_refs e a + sent_refs e b"
  by (induction a rule: sent_refs.induct) auto

lemma sent_refs_key [simp]: "sent_refs e (map (Pair k) os) = replicate_mset (refs_of e os) k"
  by (induction os) (auto simp: multiset_eq_iff)

lemma mgr_wf_dom: "mgr_wf f M \<Longrightarrow> x \<in> set (f st) \<Longrightarrow> x \<in> dom (member_at M)"
  unfolding mgr_wf_def by blast

lemma mgr_wf_at: "mgr_wf f M \<Longrightarrow> member_at M k = Some m \<Longrightarrow> m_key m = k \<and> k \<in> set (f (step_of m))"
  unfolding mgr_wf_def by blast

lemma mgr_wfI:
  assumes "queues_rep (members_by_state M) f" "sorted_wrt (<) (map fst (members_by_key M))"
    "\<And>k m. member_at M k = Some m \<Longrightarrow> m_key m = k \<and> k \<in> set (f (step_of m))"
    "\<And>k st. k \<in> set (f st) \<Longrightarrow> k \<in> dom (member_at M)"
  shows "mgr_wf f M"
  unfolding mgr_wf_def using assms by blast

lemma mgr_wf_mem:
  assumes "mgr_wf f M" "k \<in> set (f st)"
  obtains m where "member_at M k = Some m" "step_of m = st" "m_key m = k"
proof -
  obtain m where m: "member_at M k = Some m" using mgr_wf_dom [OF assms] by blast
  then have "k \<in> set (f (step_of m))" "m_key m = k" using assms by (auto simp: mgr_wf_def)
  moreover have "step_of m = st"
  proof (rule ccontr)
    assume "step_of m \<noteq> st"
    then have "set (f (step_of m)) \<inter> set (f st) = {}"
      using assms(1) fam_disjoint [OF queues_rep_fam] by (metis mgr_wf_def)
    with assms(2) \<open>k \<in> set (f (step_of m))\<close> show False by blast
  qed
  ultimately show ?thesis using m that by blast
qed

lemma mgr_wf_front:
  assumes "mgr_wf f M"
  shows "front_of M st = hd_opt (f st)"
  using assms by (auto simp: mgr_wf_def queues_rep_def fam_rep_def is_deque_def)

text \<open>The queue of a step holds exactly the members in that step.\<close>

lemma mgr_wf_queue:
  assumes "mgr_wf f M"
  shows "set (f st) = {k. \<exists>m. member_at M k = Some m \<and> step_of m = st}"
  using assms by (auto elim!: mgr_wf_mem [OF assms]) (auto simp: mgr_wf_def)

section \<open>Frame of the reactions\<close>

definition est_frame :: "est \<Rightarrow> est \<Rightarrow> bool" where
  "est_frame s s' \<longleftrightarrow>
     m_key (mb s') = m_key (mb s) \<and> (crashed s \<longrightarrow> crashed s')
     \<and> (\<forall>f. est_wf f s \<longrightarrow> (\<exists>f'. est_wf f' s' \<and> same_others (m_key (mb s)) f f'))"

lemma est_step_frame: "est_step e s s' \<Longrightarrow> est_frame s s'"
  by (simp add: est_step_def est_frame_def)

lemma est_at_simps [simp]:
  "mb (est_at M m) = m" "queues_of (est_at M m) = members_by_state M"
  "exiting (est_at M m) = mexiting M" "outs (est_at M m) = []" "crashed (est_at M m) = mcrashed M"
  "notify (est_at M m) = deferred_peering_notify M"
  by (simp_all add: est_at_def)

lemma put_est_simps [simp]:
  "members_by_key (put_est M k s) = g_tree_put k (mb s) (members_by_key M)"
  "members_by_state (put_est M k s) = queues_of s" "mcrashed (put_est M k s) = crashed s"
  "msent (put_est M k s) = msent M @ map (Pair k) (outs s)" "mexiting (put_est M k s) = mexiting M"
  "mlocked (put_est M k s) = mlocked M" "mblocked (put_est M k s) = mblocked M"
  "sync_tab (put_est M k s) = sync_tab M" "nb_shards (put_est M k s) = nb_shards M"
  "mux_factor (put_est M k s) = mux_factor M"
  by (simp_all add: put_est_def)

lemma on_member_None [simp]: "member_at M k = None \<Longrightarrow> on_member g k M = M"
  by (simp add: on_member_def)

lemma on_member_Some [simp]: "member_at M k = Some m \<Longrightarrow> on_member g k M = put_est M k (g (est_at M m))"
  by (simp add: on_member_def)

lemma on_member_same [simp]:
  "mexiting (on_member g k M) = mexiting M" "mlocked (on_member g k M) = mlocked M"
  "mblocked (on_member g k M) = mblocked M" "sync_tab (on_member g k M) = sync_tab M"
  "nb_shards (on_member g k M) = nb_shards M" "mux_factor (on_member g k M) = mux_factor M"
  by (cases "member_at M k"; simp)+

lemma keys_on_member [simp]: "fst ` set (members_by_key (on_member g k M)) = fst ` set (members_by_key M)"
proof (cases "member_at M k")
  case (Some m)
  then have "k \<in> fst ` set (members_by_key M)" by (metis map_of_eq_None_iff option.distinct(1))
  with Some show ?thesis by (simp add: keys_g_tree_put insert_absorb)
qed simp

lemma put_est_wf:
  assumes wf: "mgr_wf f M" and m: "member_at M k = Some m"
    and fr: "est_frame (est_at M m) s"
  shows "\<exists>f'. mgr_wf f' (put_est M k s) \<and> same_others k f f'"
proof -
  have k: "m_key m = k" "k \<in> set (f (step_of m))" using wf m by (auto simp: mgr_wf_def)
  then have "est_wf f (est_at M m)" using wf by (simp add: est_wf_def mgr_wf_def)
  then obtain f' where f': "est_wf f' s" "same_others k f f'" and ks: "m_key (mb s) = k"
    using fr k by (auto simp: est_frame_def)
  have other: "x \<in> set (f' st) \<longleftrightarrow> x \<in> set (f st)" if "x \<noteq> k" for x st
  proof -
    have "set (removeAll k (f' st)) = set (removeAll k (f st))" using f'(2) by (simp add: same_others_def)
    with that show ?thesis by auto
  qed
  have "mgr_wf f' (put_est M k s)"
    unfolding mgr_wf_def
  proof (intro conjI allI impI subsetI)
    show "queues_rep (members_by_state (put_est M k s)) f'" using f' by (simp add: est_wf_def)
    show "sorted_wrt (<) (map fst (members_by_key (put_est M k s)))"
      using wf by (simp add: mgr_wf_def sorted_g_tree_put)
    fix x m' assume "member_at (put_est M k s) x = Some m'"
    then show "m_key m' = x" "x \<in> set (f' (step_of m'))"
      using wf f' ks other by (auto simp: mgr_wf_def est_wf_def split: if_splits)
  next
    fix st x assume "x \<in> set (f' st)"
    then show "x \<in> dom (member_at (put_est M k s))"
      using mgr_wf_dom [OF wf, of x st] m other by (cases "x = k") auto
  qed
  with f' show ?thesis by blast
qed

text \<open>
  The rule for a reaction that takes one reference per message, gives \<open>c\<close> references to its
  caller and takes \<open>d\<close> back.
\<close>

lemma put_est_inv:
  assumes inv: "mgr_inv e (H + replicate_mset d k) M" and m: "member_at M k = Some m"
    and fr: "est_frame (est_at M m) s" and ok: "est_ok (est_at M m) \<Longrightarrow> est_ok s"
    and rc: "refcount (mb s) + of_nat d = refcount m + of_nat (refs_of e (outs s)) + of_nat c"
  shows "mgr_inv e (H + replicate_mset c k) (put_est M k s)"
proof -
  have wf: "\<exists>f'. mgr_wf f' (put_est M k s)"
    using inv put_est_wf [OF _ m fr] by (auto simp: mgr_inv_def)
  show ?thesis
  proof (cases "crashed s")
    case True
    with wf show ?thesis by (simp add: mgr_inv_def)
  next
    case False
    with fr have nc: "\<not> mcrashed M" by (auto simp: est_frame_def)
    with inv m have "est_ok (est_at M m)" by (auto simp: mgr_inv_def mgr_ok_def est_ok_def)
    with inv nc m ok False have "mgr_ok (put_est M k s)"
      by (auto simp: mgr_inv_def est_ok_def mgr_ok_def)
    moreover have "refs_inv (H + replicate_mset c k + sent_refs e (msent (put_est M k s))) (put_est M k s)"
    proof (rule refs_invI)
      have r: "refs_inv (H + replicate_mset d k + sent_refs e (msent M)) M"
        using inv nc by (simp add: mgr_inv_def)
      let ?H = "H + replicate_mset c k + sent_refs e (msent (put_est M k s))"
      fix x m' assume x: "member_at (put_est M k s) x = Some m'"
      show "refcount m' = of_nat (1 + count ?H x)"
      proof (cases "x = k")
        case True
        with refs_inv_Some [OF r m] rc
        have "refcount (mb s) + of_nat d = of_nat (1 + count ?H k) + of_nat d" by simp
        with True x show ?thesis by simp
      qed (use x refs_inv_Some [OF r, of x m'] in simp)
    next
      have r: "refs_inv (H + replicate_mset d k + sent_refs e (msent M)) M"
        using inv nc by (simp add: mgr_inv_def)
      fix x assume "member_at (put_est M k s) x = None"
      then show "count (H + replicate_mset c k + sent_refs e (msent (put_est M k s))) x = 0"
        using refs_inv_None [OF r, of x] by (auto split: if_splits)
    qed
    ultimately show ?thesis using wf by (simp add: mgr_inv_def)
  qed
qed

section \<open>Rules for the primitive operations\<close>

lemma inv_on_member:
  assumes "mgr_inv e H M" "\<And>s. est_step e s (g s)" "\<And>s. est_ok s \<Longrightarrow> est_ok (g s)"
  shows "mgr_inv e H (on_member g k M)"
proof (cases "member_at M k")
  case (Some m)
  have st: "est_step e (est_at M m) (g (est_at M m))" by (rule assms)
  have "mgr_inv e (H + replicate_mset 0 k) (put_est M k (g (est_at M m)))"
    by (rule put_est_inv [where d = 0 and m = m])
       (use assms(1,3) Some st in \<open>auto simp: est_step_def intro: est_step_frame [OF st]\<close>)
  with Some show ?thesis by simp
qed (use assms in simp)

lemma est_frame_on_mb:
  "m_key (h (mb s)) = m_key (mb s) \<Longrightarrow> step_of (h (mb s)) = step_of (mb s) \<Longrightarrow> est_frame s (on_mb h s)"
  unfolding est_frame_def est_wf_def using same_others_refl by fastforce

lemma member_inv_fields [simp]:
  "member_inv (m\<lparr>refcount := c\<rparr>) = member_inv m" "member_inv (m\<lparr>last_atime := t\<rparr>) = member_inv m"
  "member_inv (m\<lparr>db_check_type := n\<rparr>) = member_inv m"
  "member_inv (m\<lparr>requested_USE := b\<rparr>) = member_inv m"
  by (cases "step_of m"; simp add: inv_defs)+

lemma get_member_None:
  "LOCKED_get_member k M = (None, M1) \<Longrightarrow> M1 = M \<and> member_at M k = None"
  by (cases "member_at M k") (auto simp: LOCKED_get_member_def Let_def)

lemma get_member_Some:
  assumes "LOCKED_get_member k M = (Some m, M1)"
  obtains m0 where "member_at M k = Some m0" "m = member_ref m0"
    "M1 = put_est M k (on_mb member_ref (est_at M m0))"
  using assms by (cases "member_at M k") (auto simp: LOCKED_get_member_def Let_def)

lemma inv_get_member:
  assumes "mgr_inv e H M" "LOCKED_get_member k M = (Some m, M1)"
  shows "mgr_inv e (add_mset k H) M1"
proof -
  obtain m0 where m: "member_at M k = Some m0" "M1 = put_est M k (on_mb member_ref (est_at M m0))"
    using get_member_Some [OF assms(2)] by metis
  have "mgr_inv e (H + replicate_mset 1 k) (put_est M k (on_mb member_ref (est_at M m0)))"
    by (rule put_est_inv [where d = 0 and m = m0])
       (use assms(1) m in \<open>auto intro!: est_frame_on_mb simp: member_ref_def est_ok_def\<close>)
  with m show ?thesis by simp
qed

lemma inv_put_member:
  assumes "mgr_inv e (add_mset k H) M"
  shows "mgr_inv e H (put_member k M)"
proof (cases "member_at M k")
  case None
  then have "mcrashed M"
    using assms refs_inv_None [of "add_mset k H + sent_refs e (msent M)" M k] by (auto simp: mgr_inv_def)
  with None assms show ?thesis by (simp add: put_member_def mgr_inv_def)
next
  case m: (Some m)
  have "mgr_inv e (H + replicate_mset 0 k) (put_est M k (on_mb member_unref (est_at M m)))"
    by (rule put_est_inv [where d = 1 and m = m])
       (use assms m in \<open>auto intro!: est_frame_on_mb simp: member_unref_def est_ok_def\<close>)
  with m show ?thesis by (simp add: put_member_def)
qed

text \<open>Changes of the fields of the manager that the invariant does not read.\<close>

lemma mgr_inv_cong:
  assumes "members_by_key M' = members_by_key M" "members_by_state M' = members_by_state M"
    "msent M' = msent M" "mcrashed M \<Longrightarrow> mcrashed M'"
  shows "mgr_inv e H M \<Longrightarrow> mgr_inv e H M'"
proof -
  have "mgr_wf f M' = mgr_wf f M" "mgr_ok M' = mgr_ok M" "refs_inv X M' = refs_inv X M" for f X
    using assms(1,2) by (simp_all add: mgr_wf_def mgr_ok_def refs_inv_def)
  with assms(3,4) show "mgr_inv e H M \<Longrightarrow> mgr_inv e H M'" by (auto simp: mgr_inv_def)
qed

lemma lock_simps [simp]:
  "members_by_key (manager_lock M) = members_by_key M"
  "members_by_state (manager_lock M) = members_by_state M" "msent (manager_lock M) = msent M"
  "mcrashed (manager_lock M) = mcrashed M" "mexiting (manager_lock M) = mexiting M"
  "sync_tab (manager_lock M) = sync_tab M" "mlocked (manager_lock M)"
  "members_by_key (manager_unlock M) = members_by_key M"
  "members_by_state (manager_unlock M) = members_by_state M" "msent (manager_unlock M) = msent M"
  "mcrashed (manager_unlock M) = mcrashed M" "mexiting (manager_unlock M) = mexiting M"
  "sync_tab (manager_unlock M) = sync_tab M" "\<not> mlocked (manager_unlock M)"
  by (simp_all add: manager_lock_def manager_unlock_def)

lemma inv_lock [simp]: "mgr_inv e H (manager_lock M) = mgr_inv e H M"
  by (auto intro: mgr_inv_cong [rotated -1])

lemma inv_unlock [simp]: "mgr_inv e H (manager_unlock M) = mgr_inv e H M"
  by (auto intro: mgr_inv_cong [rotated -1])

lemma inv_exiting [simp]: "mgr_inv e H (M\<lparr>mexiting := b\<rparr>) = mgr_inv e H M"
  by (auto intro: mgr_inv_cong [rotated -1])

lemma inv_crash: "mgr_inv e H M \<Longrightarrow> mgr_inv e H (M\<lparr>mcrashed := (mcrashed M \<or> b)\<rparr>)"
  by (rule mgr_inv_cong) auto

lemma inv_crashed: "mgr_inv e H M \<Longrightarrow> mgr_inv e H (M\<lparr>mcrashed := True\<rparr>)"
  by (rule mgr_inv_cong) auto

end
