(* ===== verification/Manager_Steps.thy ===== *)
theory Manager_Steps
  imports Manager_Inv
begin

text \<open>
  Every critical section of the manager of the elections keeps its invariant, with the references
  it gives and takes back.
\<close>

section \<open>Creation and destruction of members\<close>

lemma inv_insert_member:
  assumes inv: "mgr_inv e H M" and new: "member_at M (m_key m) = None"
    and m: "member_inv m" "refcount m = 2"
  shows "mgr_inv e (add_mset (m_key m) H) (insert_member m M)"
proof -
  let ?k = "m_key m"
  obtain f where wf: "mgr_wf f M" using inv by (auto simp: mgr_inv_def)
  have fresh: "?k \<notin> set (f st)" for st using mgr_wf_dom [OF wf] new by blast
  let ?f = "f(step_of m := f (step_of m) @ [?k])"
  have "queues_rep (members_by_state (insert_member m M)) ?f"
    unfolding insert_member_def using wf fresh by (auto simp: mgr_wf_def intro: queues_rep_add)
  moreover have "x \<in> dom (member_at (insert_member m M))" if "x \<in> set (?f st)" for st x
  proof -
    have "x \<in> set (f st) \<or> x = ?k" using that by (auto split: if_splits)
    then show ?thesis
      using mgr_wf_dom [OF wf, of x st] by (auto simp: insert_member_def)
  qed
  moreover have "m_key m' = x \<and> x \<in> set (?f (step_of m'))"
    if "member_at (insert_member m M) x = Some m'" for x m'
    using that mgr_wf_at [OF wf, of x m'] by (auto simp: insert_member_def split: if_splits)
  moreover have "sorted_wrt (<) (map fst (members_by_key (insert_member m M)))"
    using wf by (simp add: mgr_wf_def insert_member_def sorted_g_tree_put)
  ultimately have "mgr_wf ?f (insert_member m M)"
    by (intro mgr_wfI)
  moreover have "mgr_ok (insert_member m M) \<and>
      refs_inv (add_mset ?k H + sent_refs e (msent M)) (insert_member m M)" if nc: "\<not> mcrashed M"
  proof -
    have ok: "mgr_ok M" and r: "refs_inv (H + sent_refs e (msent M)) M"
      using inv nc by (simp_all add: mgr_inv_def)
    have "mgr_ok (insert_member m M)"
      using ok m by (auto simp: mgr_ok_def insert_member_def)
    moreover have "refs_inv (add_mset ?k H + sent_refs e (msent M)) (insert_member m M)"
    proof (rule refs_invI)
      fix x m' assume "member_at (insert_member m M) x = Some m'"
      then show "refcount m' = of_nat (1 + count (add_mset ?k H + sent_refs e (msent M)) x)"
        using refs_inv_Some [OF r, of x m'] refs_inv_None [OF r new] m
        by (auto simp: insert_member_def split: if_splits)
    next
      fix x assume "member_at (insert_member m M) x = None"
      then show "count (add_mset ?k H + sent_refs e (msent M)) x = 0"
        using refs_inv_None [OF r, of x] by (auto simp: insert_member_def split: if_splits)
    qed
    ultimately show ?thesis ..
  qed
  ultimately show ?thesis by (auto simp: mgr_inv_def insert_member_def)
qed

lemma of_nat32_1: "n < 2 ^ 32 \<Longrightarrow> (of_nat (1 + n) :: guint32) = 1 \<Longrightarrow> n = 0"
proof -
  assume n: "n < 2 ^ 32" and "(of_nat (1 + n) :: guint32) = 1"
  then have "(of_nat n :: guint32) = 0" by simp
  then have "2 ^ 32 dvd n" by (simp add: word_of_nat_eq_0_iff)
  then show "n = 0" using n dvd_imp_le not_less by blast
qed

lemma inv_destroy_member:
  assumes inv: "mgr_inv e H M" and m: "member_at M k = Some m" "refcount m = 1"
    and small: "size (H + sent_refs e (msent M)) < 2 ^ 32"
  shows "mgr_inv e H (destroy_member m M)"
proof -
  obtain f where wf: "mgr_wf f M" using inv by (auto simp: mgr_inv_def)
  have k: "m_key m = k" "k \<in> set (f (step_of m))" using wf m by (auto simp: mgr_wf_def)
  let ?f = "f(step_of m := remove1 k (f (step_of m)))"
  have d: "distinct (f st)" for st
    using wf fam_distinct [OF queues_rep_fam] by (auto simp: mgr_wf_def)
  have kq: "x \<noteq> k" if "x \<in> set (?f st)" for x st
    using that k d mgr_wf_mem [OF wf, of k st] m by (auto split: if_splits)
  have "queues_rep (members_by_state (destroy_member m M)) ?f"
    unfolding destroy_member_def using wf k by (auto simp: mgr_wf_def intro: queues_rep_remove)
  moreover have "x \<in> dom (member_at (destroy_member m M))" if x: "x \<in> set (?f st)" for st x
  proof -
    from x have "x \<in> set (f st)" by (auto split: if_splits dest: subsetD [OF set_remove1_subset])
    with kq [OF x] mgr_wf_dom [OF wf this] k show ?thesis
      by (auto simp: destroy_member_def)
  qed
  moreover have "m_key m' = x \<and> x \<in> set (?f (step_of m'))"
    if "member_at (destroy_member m M) x = Some m'" for x m'
    using that k mgr_wf_at [OF wf, of x m'] by (auto simp: destroy_member_def in_set_remove1 split: if_splits)
  moreover have "sorted_wrt (<) (map fst (members_by_key (destroy_member m M)))"
    using wf by (simp add: mgr_wf_def destroy_member_def sorted_g_tree_del)
  ultimately have "mgr_wf ?f (destroy_member m M)"
    by (intro mgr_wfI)
  moreover have "mgr_ok (destroy_member m M) \<and>
      refs_inv (H + sent_refs e (msent M)) (destroy_member m M)" if nc: "\<not> mcrashed M"
  proof -
    have ok: "mgr_ok M" and r: "refs_inv (H + sent_refs e (msent M)) M"
      using inv nc by (simp_all add: mgr_inv_def)
    let ?c = "count (H + sent_refs e (msent M)) k"
    have "?c < 2 ^ 32" by (rule le_less_trans [OF count_le_size small])
    moreover have "(of_nat (1 + ?c) :: guint32) = 1"
      using refs_inv_Some [OF r m(1)] m(2) by (simp only:)
    ultimately have c: "?c = 0" by (rule of_nat32_1)
    have "mgr_ok (destroy_member m M)"
      using ok by (auto simp: mgr_ok_def destroy_member_def split: if_splits)
    moreover have "refs_inv (H + sent_refs e (msent M)) (destroy_member m M)"
    proof (rule refs_invI)
      fix x m' assume "member_at (destroy_member m M) x = Some m'"
      then show "refcount m' = of_nat (1 + count (H + sent_refs e (msent M)) x)"
        using refs_inv_Some [OF r, of x m'] by (auto simp: destroy_member_def split: if_splits)
    next
      fix x assume "member_at (destroy_member m M) x = None"
      then show "count (H + sent_refs e (msent M)) x = 0"
        using refs_inv_None [OF r, of x] c k by (auto simp: destroy_member_def split: if_splits)
    qed
    ultimately show ?thesis ..
  qed
  ultimately show ?thesis by (auto simp: mgr_inv_def destroy_member_def)
qed

section \<open>Reactions\<close>

lemma inv_transition:
  "mgr_inv e H M \<Longrightarrow> now e > 0 \<Longrightarrow> arg_ok evt arg \<Longrightarrow> mgr_inv e H (on_member (transition e evt arg) k M)"
  by (rule inv_on_member) (auto intro: step_transition transition_ok)

lemma inv_fields:
  assumes "mgr_inv e H M" "\<And>m. m_key (h m) = m_key m \<and> step_of (h m) = step_of m \<and> refcount (h m) = refcount m"
    "\<And>m. member_inv m \<Longrightarrow> member_inv (h m)"
  shows "mgr_inv e H (on_member (on_mb h) k M)"
  by (rule inv_on_member) (use assms in \<open>auto intro!: step_on_mb simp: est_ok_def\<close>)

lemma step_atime: "est_step e s (election_atime e s)"
proof -
  let ?k = "m_key (mb s)" and ?st = "step_of (mb s)"
  let ?f' = "\<lambda>f. dq_move (\<lambda>k xs. xs @ [k]) ?st ?st ?k f"
  have "est_wf (?f' f) (election_atime e s) \<and> same_others ?k f (?f' f)"
    if "est_wf f s" "?st = STEP_MASTER \<or> ?st = STEP_SLAVE" for f
    using that equeues.move_rep [of "queues_of s" f ?k ?st ?st] equeues.move_others [of ?k ?st ?st f]
      equeues.move_members [of "queues_of s" f ?k ?st ?st]
    by (auto simp: est_wf_def election_atime_def Let_def same_others_def)
  moreover have "est_wf f (election_atime e s)" if "est_wf f s" "\<not> (?st = STEP_MASTER \<or> ?st = STEP_SLAVE)" for f
    using that by (simp add: est_wf_def election_atime_def Let_def)
  ultimately have "\<forall>f. est_wf f s \<longrightarrow> (\<exists>f'. est_wf f' (election_atime e s) \<and> same_others ?k f f')"
    using same_others_refl by blast
  then show ?thesis
    by (auto simp: est_step_def election_atime_def Let_def intro: exI [of _ "[]"])
qed

lemma atime_ok: "est_ok s \<Longrightarrow> est_ok (election_atime e s)"
  by (auto simp: election_atime_def Let_def est_ok_def)

lemma step_transition_after: "est_step e a s \<Longrightarrow> est_step e a (transition e evt arg s)"
  by (rule est_step_trans [OF _ step_transition])

lemma step_atime_after: "est_step e a s \<Longrightarrow> est_step e a (election_atime e s)"
  by (rule est_step_trans [OF _ step_atime])

lemma step_run_op: "est_step e s (run_op e op s)"
  unfolding run_op_def
  by (cases op; simp) (intro step_transition_after step_atime_after step_on_mb est_step_refl; simp)+

lemma run_op_ok:
  assumes "now e > 0" "est_ok s"
  shows "est_ok (run_op e op s)"
proof -
  have "est_ok (on_mb (\<lambda>m. m\<lparr>db_check_type := n\<rparr>) s)" for n
    using assms(2) by (simp add: est_ok_def)
  then show ?thesis
    using assms by (cases op) (simp_all add: run_op_def transition_ok atime_ok arg_ok_def)
qed

lemma step_disconnect: "est_step e s (disconnect_member e s)"
  unfolding disconnect_member_def
  by (intro est_step_trans [OF step_on_mb step_log_change] step_set_status est_step_refl)
     (auto simp: member_macros)

lemma disconnect_ok: "est_ok s \<Longrightarrow> est_ok (disconnect_member e s)"
  unfolding disconnect_member_def
  by (rule est_ok_log_change) (auto simp: inv_defs member_macros)

section \<open>Critical sections\<close>

lemma inv_init_member:
  assumes inv: "mgr_inv e H M" and ps: "ps \<noteq> Some []"
    and r: "LOCKED_init_member e gen key autocreate ps M = (r, M1)"
  shows "mgr_inv e (if r then add_mset key H else H) M1"
proof (cases "LOCKED_get_member key M")
  case (Pair mo M0)
  show ?thesis
  proof (cases mo)
    case (Some m)
    with Pair r inv_get_member [OF inv, of key m M0] show ?thesis by (simp add: LOCKED_init_member_def)
  next
    case None
    with Pair have M0: "M0 = M" "member_at M key = None" using get_member_None by auto
    have new: "mgr_inv e (add_mset key H) (insert_member (new_member key sy (now e) gen ps) M)" for sy
      using inv_insert_member [OF inv, of "new_member key sy (now e) gen ps"] M0 ps
      by (simp add: new_member_def inv_defs)
    with r Pair None M0 inv inv_crashed [OF inv] show ?thesis
      by (auto simp: LOCKED_init_member_def split: if_splits sync_choice.splits)
  qed
qed

text \<open>
  A section that looks a member up, runs \<open>g\<close> with the reference it got and gives it back.
\<close>

lemma inv_with_member:
  assumes "mgr_inv e H M" "LOCKED_get_member k M = (Some m, M1)"
    and "\<And>M. mgr_inv e (add_mset k H) M \<Longrightarrow> mgr_inv e (add_mset k H) (g M)"
  shows "mgr_inv e H (put_member k (g M1))"
  by (rule inv_put_member, rule assms(3), rule inv_get_member [OF assms(1,2)])

lemmas inv_looked_up = inv_with_member [where g = "\<lambda>M. M"]

lemma inv_peek:
  assumes "mgr_inv e H M"
  shows "mgr_inv e H (snd (election_make_peek key M))"
  using assms unfolding election_make_peek_def
  by (auto split: prod.splits option.splits dest: get_member_None inv_looked_up [rotated])

lemma inv_run:
  assumes "mgr_inv e H M" "now e > 0" "ps \<noteq> Some []"
  shows "mgr_inv e H (snd (election_make_run e gen key op ps M))"
proof (cases "LOCKED_init_member e gen key (op \<noteq> ELOP_EXIT) ps (manager_lock M)")
  case (Pair r M1)
  with inv_init_member [of e H "manager_lock M" ps gen key] assms
  have 1: "mgr_inv e (if r then add_mset key H else H) M1" by simp
  show ?thesis
  proof (cases r)
    case True
    with 1 have "mgr_inv e (add_mset key H) (on_member (run_op e op) key M1)"
      using assms(2) by (auto intro!: inv_on_member step_run_op run_op_ok)
    from inv_put_member [OF this] True Pair show ?thesis
      by (simp add: election_make_run_def Let_def)
  next
    case False
    with 1 Pair inv_crash [of e H M1] show ?thesis by (simp add: election_make_run_def)
  qed
qed

lemma inv_cached_peers:
  assumes "mgr_inv e H M"
  shows "mgr_inv e H (snd (LOCKED_get_cached_peers k M))"
  using assms unfolding LOCKED_get_cached_peers_def
  by (auto split: prod.splits option.splits dest: get_member_None inv_looked_up [rotated])

lemma inv_peers_field:
  assumes "mgr_inv e H M"
  shows "mgr_inv e H (on_member (on_mb (\<lambda>m. (member_reset_peers m)
      \<lparr>peers := (if ps = [] then None else Some ps)\<rparr>)) k M)"
proof (rule inv_fields [OF assms])
  fix m assume "member_inv m"
  then show "member_inv ((member_reset_peers m)\<lparr>peers := (if ps = [] then None else Some ps)\<rparr>)"
    by (cases "step_of m"; simp add: inv_defs member_reset_peers_def)
qed (simp add: member_reset_peers_def)

lemma inv_cache_peers:
  assumes "mgr_inv e H M"
  shows "mgr_inv e H (LOCKED_cache_peers k ps M)"
proof (cases "LOCKED_get_member k M")
  case (Pair mo M1)
  let ?g = "on_member (on_mb (\<lambda>m. (member_reset_peers m)\<lparr>peers := (if ps = [] then None else Some ps)\<rparr>)) k"
  from Pair show ?thesis
  proof (cases mo)
    case (Some m)
    have "mgr_inv e H (put_member k (?g M1))"
      by (rule inv_with_member [OF assms _ inv_peers_field, of k m]) (use Pair Some in simp_all)
    with Pair Some show ?thesis by (simp add: LOCKED_cache_peers_def)
  qed (use assms get_member_None in \<open>auto simp: LOCKED_cache_peers_def\<close>)
qed

lemma inv_get_peers:
  assumes "mgr_inv e H M"
  shows "mgr_inv e H (snd (election_get_peers gp nocache locked k M))"
proof -
  have 1: "mgr_inv e H (snd (get_cached_peers k M))" for k
    using inv_cached_peers [of e H "manager_lock M" k] assms
    by (simp add: get_cached_peers_def case_prod_unfold Let_def)
  have 2: "mgr_inv e H M \<Longrightarrow> mgr_inv e H (cache_peers k ps M)" for k ps M
    using inv_cache_peers [of e H "manager_lock M" k ps] by (simp add: cache_peers_def)
  show ?thesis
    using assms 1 [of k] inv_cached_peers [OF assms, of k] unfolding election_get_peers_def
    by (auto split: prod.splits option.splits sum.splits intro!: 2 inv_cache_peers)
qed


text \<open>Watchers.\<close>

lemma inv_find_member:
  assumes "mgr_inv e H M" "find_member path gen M = (ko, M1)"
  shows "mgr_inv e (case ko of None \<Rightarrow> H | Some k \<Rightarrow> add_mset k H) M1"
proof -
  have "mgr_inv e (case ko of None \<Rightarrow> H | Some k \<Rightarrow> add_mset k H) M1"
    if "LOCKED_get_member key (manager_lock M) = (mo, M0)"
      "(case mo of Some m \<Rightarrow> if unat (generation_id m) = unat gen then (Some key, M0)
                      else (None, manager_unlock (put_member key M0))
        | None \<Rightarrow> (None, manager_unlock M0)) = (ko, M1)" for key mo M0
  proof (cases mo)
    case (Some m)
    with that inv_get_member [of e H "manager_lock M" key m M0]
      inv_looked_up [of e H "manager_lock M" key m M0] assms(1)
    show ?thesis by (auto split: if_splits)
  qed (use that assms(1) get_member_None [of key "manager_lock M" M0] in auto)
  with assms show ?thesis
    by (auto simp: find_member_def split: option.splits prod.splits)
qed

lemma inv_disconnect: "mgr_inv e H M \<Longrightarrow> mgr_inv e H (on_member (disconnect_member e) k M)"
  by (rule inv_on_member) (auto intro: step_disconnect disconnect_ok)

lemma inv_reset_loop:
  "reset_matching_loop fuel e zh st cur n M = Some (n', M') \<Longrightarrow> mgr_inv e H M \<Longrightarrow> mgr_inv e H M'"
proof (induction fuel e zh st cur n M rule: reset_matching_loop.induct)
  case (2 fuel e zh st cur n M)
  show ?case
  proof (cases cur)
    case k: (Some k)
    show ?thesis
    proof (cases "member_at M k")
      case m: (Some m)
      with 2 k inv_disconnect [OF "2.prems"(2), of k] show ?thesis
        by (auto simp: Let_def split: if_splits)
    qed (use 2 k inv_crashed in auto)
  qed (use 2 in auto)
qed simp

lemma inv_reset_matching:
  assumes "reset_matching_members e zh st M = Some (n, M')" "mgr_inv e H M"
  shows "mgr_inv e H M'"
proof -
  obtain M1 where "reset_matching_loop ((length (members_by_key M) + 1) * (length (members_by_key M) + 1))
      e zh st (front_of M st) 0 (manager_lock M) = Some (n, M1)" "M' = manager_unlock M1"
    using assms(1) by (auto simp: reset_matching_members_def Let_def simp del: reset_matching_loop.simps)
  from inv_reset_loop [OF this(1), of H] this(2) assms(2) show ?thesis by simp
qed

lemma unref_disconnect:
  "member_log_change e EVT_DISCONNECTED (member_set_status e STEP_NONE) (on_mb member_unref (on_mb member_reset s))
   = on_mb member_unref (disconnect_member e s)"
  by (simp add: disconnect_member_def member_log_change_def member_log_event_def member_set_status_def
      Let_def on_mb_def emit_def member_unref_def STATUS_FINAL_def less_eq_step_def)

lemma on_member_comp:
  "on_member (\<lambda>s. on_mb h (g s)) k M = on_member (on_mb h) k (on_member g k M)"
proof (cases "member_at M k")
  case (Some m)
  have "g_tree_put k y (g_tree_put k x t) = g_tree_put k y t" for x y :: member and t
    by (induction k x t rule: g_tree_put.induct) auto
  with Some show ?thesis by (simp add: put_est_def est_at_def on_mb_def)
qed simp

lemma inv_watch:
  assumes "deferred_watch_COMMON e d M = Some M'" "mgr_inv e H M" "now e > 0"
    "w_evt d = EVT_LEFT_MASTER \<or> w_evt d = EVT_LEFT_SELF"
  shows "mgr_inv e H M'"
proof (cases "find_member (w_path d) (w_gen d) M")
  case (Pair ko M1)
  note f = inv_find_member [OF assms(2) Pair]
  have session: "mgr_inv e H (put_member k (on_member (disconnect_member e) k M1))" if "ko = Some k" for k
    using f that by (auto intro!: inv_put_member inv_disconnect)
  have deleted: "mgr_inv e H (put_member k (on_member (transition e (w_evt d) NoArg) k M1))" if "ko = Some k" for k
    using f that assms(3,4) by (auto intro!: inv_put_member inv_transition simp: arg_ok_def)
  have reset: "mgr_inv e H M'"
    if "ko = None" "map_option snd (reset_matching_members e (w_zh d) STEP_MASTER M1) = Some M'"
    using that f inv_reset_matching [of e "w_zh d" STEP_MASTER M1] by auto
  show ?thesis
  proof (cases "mexiting M \<or> w_type d = ZOO_OTHER_EVENT")
    case True
    with assms(1,2) show ?thesis by (auto simp: deferred_watch_COMMON_def split: if_splits)
  next
    case False
    show ?thesis
    proof (cases ko)
      case None
      with False assms(1) Pair f reset show ?thesis
        by (cases "w_type d") (simp_all add: deferred_watch_COMMON_def split: if_splits)
    next
      case (Some k)
      with False assms(1) Pair session [OF Some] deleted [OF Some] show ?thesis
        by (cases "w_type d")
           (auto simp: deferred_watch_COMMON_def unref_disconnect put_member_def
             on_member_comp [of member_unref "disconnect_member e"])
    qed
  qed
qed

text \<open>Exit, waiting clients, periodic tasks.\<close>

lemma inv_run_exit:
  "mgr_inv e H M \<Longrightarrow> now e > 0 \<Longrightarrow> arg_ok evt NoArg \<Longrightarrow> mgr_inv e H (run_exit e evt k M)"
  unfolding run_exit_def by (rule inv_on_member) (auto intro: step_transition transition_ok)

lemma inv_fold:
  "mgr_inv e H M \<Longrightarrow> (\<And>k M. mgr_inv e H M \<Longrightarrow> mgr_inv e H (g k M)) \<Longrightarrow> mgr_inv e H (fold g ks M)"
  by (induction ks arbitrary: M) auto

lemma inv_exit_all:
  assumes "mgr_inv e H M" "now e > 0"
  shows "mgr_inv e H (election_manager_exit_all e clean M)"
  using assms unfolding election_manager_exit_all_def Let_def
  by (auto intro!: inv_fold inv_run_exit simp: arg_ok_def)

lemma inv_atime: "mgr_inv e H M \<Longrightarrow> mgr_inv e H (on_member (on_mb (\<lambda>m. m\<lparr>last_atime := t\<rparr>)) k M)"
  by (rule inv_fields) auto

lemma inv_no_longer_exists:
  assumes "container_no_longer_exists gp key m w M = (err, w1, M1)" "mgr_inv e H M"
  shows "mgr_inv e H M1"
  using assms inv_get_peers [OF assms(2), of gp False True key]
  by (auto simp: container_no_longer_exists_def Let_def split: if_splits prod.splits sum.splits)

lemma inv_wait_iteration:
  assumes "wait_iteration e gp nowait dnw deadline key w M = (out, w1, M1)"
    and inv: "mgr_inv e H M" and "now e > 0"
  shows "mgr_inv e H M1"
proof -
  let ?g = "\<lambda>s. transition e EVT_NONE NoArg (on_mb (\<lambda>m. m\<lparr>last_atime := now e\<rparr>) s)"
  have g: "mgr_inv e H M \<Longrightarrow> mgr_inv e H (on_member ?g key M)" for M
    by (rule inv_on_member)
       (auto intro!: step_transition_after step_on_mb transition_ok assms(3)
         simp: arg_ok_def, auto simp: est_ok_def)
  show ?thesis
  proof (cases "member_at M key")
    case (Some m)
    then show ?thesis
    proof (cases "container_no_longer_exists gp key m w M")
      case (fields err w2 M2)
      with assms(1) inv Some inv_atime [OF inv] inv_no_longer_exists [OF fields inv] g [of M2]
      show ?thesis
        by (auto simp: wait_iteration_def Let_def simp del: on_member_Some split: if_splits option.splits)
    qed
  qed (use assms inv_crashed in \<open>auto simp: wait_iteration_def\<close>)
qed

lemma inv_signal: "mgr_inv e H M \<Longrightarrow> mgr_inv e H (on_member (\<lambda>s. emit (OutSignal key) s) k M)"
  by (rule inv_on_member) (auto intro: step_emit)

lemma inv_get_status_end:
  assumes "mgr_inv e (add_mset key H) M"
  shows "mgr_inv e H (snd (snd (get_status_end key err M)))"
  unfolding get_status_end_def Let_def
  using inv_put_member [OF assms] inv_signal [OF inv_put_member [OF assms], of key key] by simp

lemma inv_timer_section:
  assumes "mgr_inv e H M" "now e > 0"
  shows "mgr_inv e H (snd (timer_section e nw k M))"
proof -
  have "mgr_inv e H (manager_lock M)" using assms(1) by simp
  from inv_transition [OF this assms(2), of EVT_NONE NoArg k] inv_crashed [OF this] this
  show ?thesis
    by (simp add: timer_section_def Let_def arg_ok_def del: on_member_Some split: option.split)
qed

lemma inv_expiration_section:
  assumes "mgr_inv e H M" "size (H + sent_refs e (msent M)) < 2 ^ 32"
  shows "mgr_inv e H (snd (expiration_section e nw k M))"
proof (cases "member_at M k")
  case (Some m)
  then show ?thesis
    using assms inv_destroy_member [of e H "manager_lock M" k m]
    by (auto simp: expiration_section_def Let_def member_expirable_def)
qed (use assms inv_crashed [of e H "manager_lock M"] in \<open>auto simp: expiration_section_def Let_def\<close>)

lemma inv_balance_section:
  assumes "mgr_inv e H M" "now e > 0"
  shows "mgr_inv e H (snd (balance_section e pivot rejoin M))"
proof -
  have "mgr_inv e H (on_member (\<lambda>s. transition e EVT_LEAVE_REQ NoArg
      (on_mb (\<lambda>m. m\<lparr>requested_USE := rejoin\<rparr>) s)) k (manager_lock M))" for k
    by (rule inv_on_member)
       (use assms in \<open>auto intro!: step_transition_after step_on_mb transition_ok simp: arg_ok_def\<close>,
        auto simp: est_ok_def)
  then show ?thesis
    using assms inv_crashed [of e H "manager_lock M"]
    by (auto simp: balance_section_def Let_def simp del: on_member_Some split: option.splits)
qed

lemma inv_reading:
  assumes "mgr_inv e H M" "LOCKED_get_member key (manager_lock M) = (mo, M1)"
  shows "mgr_inv e H (case mo of None \<Rightarrow> manager_unlock M1 | Some m \<Rightarrow> manager_unlock (put_member key M1))"
  using assms inv_looked_up [of e H "manager_lock M" key _ M1] get_member_None [of key "manager_lock M" M1]
  by (cases mo) auto

lemma inv_check_replication:
  assumes "mgr_inv e H M"
  shows "mgr_inv e H (snd (election_check_replication_allowed key x M))"
proof (cases "LOCKED_get_member key (manager_lock M)")
  case (Pair mo M1)
  from inv_reading [OF assms Pair] Pair show ?thesis
    by (cases mo) (simp_all add: election_check_replication_allowed_def)
qed

lemma inv_status_nowait:
  assumes "mgr_inv e H M"
  shows "mgr_inv e H (snd (election_get_status_nowait key M))"
proof (cases "LOCKED_get_member key (manager_lock M)")
  case (Pair mo M1)
  from inv_reading [OF assms Pair] Pair show ?thesis
    by (cases mo) (simp_all add: election_get_status_nowait_def)
qed

end
