(* ===== verification/Manager_System.thy ===== *)
theory Manager_System
  imports Manager_Steps
begin

text \<open>
  The manager of the elections with its environment: any interleaving of the critical sections of
  its operations, of the callbacks of the requests that were sent, of the watchers and of the
  periodic tasks.  The state has the manager and its holders: one occurrence of a key per
  callback still to come, and per client waiting, for the member of that key.
\<close>

section \<open>Callbacks\<close>

datatype callback =
    CbCreating zrc bool "string option"
  | CbWatching zrc
  | CbAsking zrc "string option"
  | CbListing zrc bool "string list option"
  | CbLeaving zrc
  | CbGetvers gerror gtree "code + gtree"
  | CbPipefrom gerror
  | CbGetpeers "code + string list"

definition run_callback :: "env \<Rightarrow> callback \<Rightarrow> est \<Rightarrow> est" where
  "run_callback e cb s =
     (case cb of
        CbCreating z er path \<Rightarrow> completion_CREATING e z er path s
      | CbWatching z \<Rightarrow> completion_WATCHING e z s
      | CbAsking z v \<Rightarrow> completion_ASKING e z v s
      | CbListing z er sv \<Rightarrow> completion_LISTING e z er sv s
      | CbLeaving z \<Rightarrow> completion_LEAVING e z s
      | CbGetvers enet vr gv \<Rightarrow> result_GETVERS e enet vr gv s
      | CbPipefrom err \<Rightarrow> result_PIPEFROM e err s
      | CbGetpeers res \<Rightarrow> worker_getpeers_end e res s)"

definition callback_section :: "env \<Rightarrow> string \<Rightarrow> callback \<Rightarrow> mgr \<Rightarrow> mgr" where
  "callback_section e k cb M = manager_unlock (on_member (run_callback e cb) k (manager_lock M))"

definition getpeers_begin_section :: "string \<Rightarrow> mgr \<Rightarrow> mgr" where
  "getpeers_begin_section k M =
     manager_unlock (on_member (\<lambda>s. snd (worker_getpeers_begin s)) k (manager_lock M))"

section \<open>Step relation\<close>

text \<open>
  The messages sent by a step start from the empty list; the references they take are added to
  the holders.
\<close>

definition fresh :: "mgr \<Rightarrow> mgr" where
  "fresh M = M\<lparr>msent := []\<rparr>"

inductive sys_step :: "env \<Rightarrow> mgr \<times> string multiset \<Rightarrow> mgr \<times> string multiset \<Rightarrow> bool" where
  peek: "M' = snd (election_make_peek key (fresh M))
    \<Longrightarrow> sys_step e (M, H) (M', H + sent_refs e (msent M'))"
| get_peers: "M' = snd (election_get_peers gp nocache False key (fresh M))
    \<Longrightarrow> sys_step e (M, H) (M', H + sent_refs e (msent M'))"
| run: "now e > 0 \<Longrightarrow> ps \<noteq> Some [] \<Longrightarrow> M' = snd (election_make_run e gen key op ps (fresh M))
    \<Longrightarrow> sys_step e (M, H) (M', H + sent_refs e (msent M'))"
| wait_begin: "LOCKED_init_member e gen key True None (manager_lock (fresh M)) = (True, M')
    \<Longrightarrow> sys_step e (M, H) (M', add_mset key H + sent_refs e (msent M'))"
| wait: "now e > 0 \<Longrightarrow> key \<in># H \<Longrightarrow>
    wait_iteration e gp nowait dnw deadline key w (manager_lock (fresh M)) = (out, w', M')
    \<Longrightarrow> sys_step e (M, H) (M', H + sent_refs e (msent M'))"
| wait_end: "M' = snd (snd (get_status_end key err (fresh M)))
    \<Longrightarrow> sys_step e (M, add_mset key H) (M', H + sent_refs e (msent M'))"
| callback: "now e > 0 \<Longrightarrow> M' = callback_section e k cb (fresh M)
    \<Longrightarrow> sys_step e (M, add_mset k H) (M', H + sent_refs e (msent M'))"
| getpeers_begin: "k \<in># H \<Longrightarrow> M' = getpeers_begin_section k (fresh M)
    \<Longrightarrow> sys_step e (M, H) (M', H + sent_refs e (msent M'))"
| watch: "now e > 0 \<Longrightarrow> w_evt d = EVT_LEFT_MASTER \<or> w_evt d = EVT_LEFT_SELF
    \<Longrightarrow> deferred_watch_COMMON e d (fresh M) = Some M'
    \<Longrightarrow> sys_step e (M, H) (M', H + sent_refs e (msent M'))"
| exit_all: "now e > 0 \<Longrightarrow> M' = election_manager_exit_all e clean (fresh M)
    \<Longrightarrow> sys_step e (M, H) (M', H + sent_refs e (msent M'))"
| timer: "now e > 0 \<Longrightarrow> M' = snd (timer_section e nw k (fresh M))
    \<Longrightarrow> sys_step e (M, H) (M', H + sent_refs e (msent M'))"
| expiration: "size H < 2 ^ 32 \<Longrightarrow> M' = snd (expiration_section e nw k (fresh M))
    \<Longrightarrow> sys_step e (M, H) (M', H + sent_refs e (msent M'))"
| balance: "now e > 0 \<Longrightarrow> M' = snd (balance_section e pivot rejoin (fresh M))
    \<Longrightarrow> sys_step e (M, H) (M', H + sent_refs e (msent M'))"
| check: "M' = snd (election_check_replication_allowed key x (fresh M))
    \<Longrightarrow> sys_step e (M, H) (M', H + sent_refs e (msent M'))"
| nowait: "M' = snd (election_get_status_nowait key (fresh M))
    \<Longrightarrow> sys_step e (M, H) (M', H + sent_refs e (msent M'))"

inductive sys_reach :: "mgr \<times> string multiset \<Rightarrow> bool" where
  init: "sys_reach (fold election_manager_add_sync zhs (election_manager_create mux), {#})"
| step: "sys_reach S \<Longrightarrow> sys_step e S S' \<Longrightarrow> sys_reach S'"

section \<open>The invariant of the system\<close>

definition sys_inv :: "mgr \<times> string multiset \<Rightarrow> bool" where
  "sys_inv S \<longleftrightarrow>
     (\<exists>f. mgr_wf f (fst S)) \<and> (mcrashed (fst S) \<or> mgr_ok (fst S) \<and> refs_inv (snd S) (fst S))"

lemma fresh_simps [simp]:
  "members_by_key (fresh M) = members_by_key M" "members_by_state (fresh M) = members_by_state M"
  "mcrashed (fresh M) = mcrashed M" "msent (fresh M) = []" "mexiting (fresh M) = mexiting M"
  by (simp_all add: fresh_def)

lemma sys_inv_fresh: "sys_inv (M, H) \<longleftrightarrow> mgr_inv e H (fresh M)"
proof -
  have "mgr_wf f (fresh M) = mgr_wf f M" "mgr_ok (fresh M) = mgr_ok M" "refs_inv X (fresh M) = refs_inv X M" for f X
    by (simp_all add: mgr_wf_def mgr_ok_def refs_inv_def)
  then show ?thesis by (simp add: sys_inv_def mgr_inv_def)
qed

lemma sys_inv_sent: "mgr_inv e H M \<Longrightarrow> sys_inv (M, H + sent_refs e (msent M))"
  by (simp add: sys_inv_def mgr_inv_def)

lemma transition_error_step: "est_step e a s \<Longrightarrow> est_step e a (transition_error e evt z s)"
  by (simp add: transition_error_def step_transition_after)

text \<open>A callback gives its reference back at its end, unless it left the defined behaviour.\<close>

lemma run_callback_unref:
  "crashed (run_callback e cb s) \<and> run_callback e cb s = fault_if True s
   \<or> (\<exists>s1. run_callback e cb s = on_mb member_unref s1 \<and> est_step e s s1)"
proof -
  note simps = run_callback_def completion_CREATING_def completion_WATCHING_def completion_ASKING_def
    deferred_completion_ASKING_def completion_LISTING_def completion_LEAVING_def
    result_GETVERS_def result_PIPEFROM_def worker_getpeers_end_def Let_def
  have i: "est_step e s x \<Longrightarrow> \<exists>s1. on_mb member_unref x = on_mb member_unref s1 \<and> est_step e s s1" for x
    by blast
  note steps = step_transition_after transition_error_step step_fault step_on_mb step_emit est_step_refl
  show ?thesis
    by (cases cb)
       (auto simp: simps intro!: i steps split: option.splits sum.splits)
qed

lemma run_callback_ok: "now e > 0 \<Longrightarrow> est_ok s \<Longrightarrow> est_ok (run_callback e cb s)"
  by (cases cb) (simp_all add: run_callback_def completions_ok)

lemma inv_callback_section:
  assumes inv: "mgr_inv e (add_mset k H) M" and "now e > 0"
  shows "mgr_inv e H (callback_section e k cb M)"
proof (cases "member_at M k")
  case None
  then have "mcrashed M"
    using inv refs_inv_None [of "add_mset k H + sent_refs e (msent M)" M k] by (auto simp: mgr_inv_def)
  with None inv show ?thesis by (simp add: callback_section_def mgr_inv_def [of e H])
     (auto simp: mgr_inv_def mgr_wf_def)
next
  case m: (Some m)
  let ?M = "manager_lock M" and ?s = "run_callback e cb (est_at (manager_lock M) m)"
  have M: "mgr_inv e (H + replicate_mset 1 k) ?M" "member_at ?M k = Some m" using inv m by simp_all
  have ok: "est_ok (est_at ?M m) \<Longrightarrow> est_ok ?s" by (rule run_callback_ok [OF assms(2)])
  have "mgr_inv e H (put_est ?M k ?s)"
  proof (cases "\<exists>s1. ?s = on_mb member_unref s1 \<and> est_step e (est_at ?M m) s1")
    case True
    then obtain s1 where s1: "?s = on_mb member_unref s1" "est_step e (est_at ?M m) s1" by blast
    have "est_frame (est_at ?M m) ?s"
      using est_step_frame [OF s1(2)] s1(1)
      by (auto simp: est_frame_def est_wf_def member_unref_def)
    moreover have "refcount (mb ?s) + of_nat 1 = refcount m + of_nat (refs_of e (outs ?s)) + of_nat 0"
      using s1 by (auto simp: est_step_def member_unref_def)
    ultimately have "mgr_inv e (H + replicate_mset 0 k) (put_est ?M k ?s)"
      by (intro put_est_inv [OF M(1,2)] ok)
    then show ?thesis by simp
  next
    case False
    then have c: "crashed ?s" "?s = fault_if True (est_at ?M m)"
      using run_callback_unref [of e cb "est_at ?M m"] by blast+
    have "est_frame (est_at ?M m) ?s"
      unfolding c(2) by (rule est_step_frame [OF step_fault [OF est_step_refl]])
    then have "\<exists>f. mgr_wf f (put_est ?M k ?s)"
      using put_est_wf [OF _ M(2)] M(1) by (auto simp: mgr_inv_def)
    with c(1) show ?thesis by (simp add: mgr_inv_def)
  qed
  with m show ?thesis by (simp add: callback_section_def)
qed

lemma inv_getpeers_begin:
  "mgr_inv e H M \<Longrightarrow> mgr_inv e H (getpeers_begin_section k M)"
  unfolding getpeers_begin_section_def worker_getpeers_begin_def
  by (auto intro!: inv_fields simp: inv_defs split: step.splits)

lemma sys_inv_start: "sys_inv (M, H) \<Longrightarrow> mgr_inv e H (fresh M)"
  by (simp add: sys_inv_fresh [of M H e])

lemma sys_step_inv: "sys_step e S S' \<Longrightarrow> sys_inv S \<Longrightarrow> sys_inv S'"
proof (induction rule: sys_step.induct)
  case (wait_begin e gen key M M' H)
  then show ?case
    using inv_init_member [OF _ _ wait_begin(1), of H] sys_inv_sent [of e "add_mset key H" M']
    by (simp add: sys_inv_start)
next
  case (wait e key H gp nowait dnw deadline w M out w' M')
  then show ?case
    using inv_wait_iteration [OF wait(3), of H] by (simp add: sys_inv_start sys_inv_sent)
next
  case (watch e d M M' H)
  then show ?case
    using inv_watch [OF watch(3), of H] by (simp add: sys_inv_start sys_inv_sent)
qed (auto intro!: sys_inv_sent inv_peek inv_get_peers inv_run inv_get_status_end
      inv_callback_section inv_getpeers_begin inv_exit_all inv_timer_section inv_expiration_section
      inv_balance_section inv_check_replication inv_status_nowait intro: sys_inv_start)

lemma sys_inv_init: "sys_inv (fold election_manager_add_sync zhs (election_manager_create mux), {#})"
proof -
  let ?M = "fold election_manager_add_sync zhs (election_manager_create mux)"
  have "members_by_key (fold election_manager_add_sync zhs M) = members_by_key M
      \<and> members_by_state (fold election_manager_add_sync zhs M) = members_by_state M" for M
    by (induction zhs arbitrary: M) (auto simp: election_manager_add_sync_def)
  then have "members_by_key ?M = []" "members_by_state ?M = queues_empty"
    by (simp_all add: election_manager_create_def)
  then have "mgr_wf (\<lambda>_. []) ?M" "mgr_ok ?M" "refs_inv {#} ?M"
    by (simp_all add: mgr_wf_def mgr_ok_def refs_inv_def queues_rep_empty)
  then show ?thesis unfolding sys_inv_def by auto
qed

lemma sys_reach_inv: "sys_reach S \<Longrightarrow> sys_inv S"
  by (induction rule: sys_reach.induct) (auto intro: sys_inv_init sys_step_inv)

end
