(* ===== verification/Manager_Props.thy ===== *)
theory Manager_Props
  imports Manager_System Election_Props
begin

text \<open>
  Properties of the manager of the elections: the reachable states, the references, the loss of a
  ZooKeeper session, the exit, the waiting clients, the timers and the statistics.
\<close>

section \<open>Examples\<close>

definition mgr0 :: mgr where
  "mgr0 = election_manager_create 1"

definition mgr1 :: mgr where
  "mgr1 = snd (LOCKED_init_member env0 9 ''AB'' True None (manager_lock (fresh mgr0)))"

lemma mgr0_reach: "sys_reach (mgr0, {#})"
  using sys_reach.init [of "[]" 1] by (simp add: mgr0_def)

lemma choose_sync_none: "sync_tab M = [] \<Longrightarrow> choose_sync M key = SyncNone"
  by (simp add: choose_sync_def)

lemma mgr0_simps [simp]:
  "sync_tab mgr0 = []" "members_by_key mgr0 = []" "mcrashed mgr0 = False" "msent mgr0 = []"
  "mexiting mgr0 = False"
  by (simp_all add: mgr0_def election_manager_create_def)

lemma fresh_sync [simp]: "sync_tab (fresh M) = sync_tab M"
  by (simp add: fresh_def)

lemma mgr1_eq:
  "LOCKED_init_member env0 9 ''AB'' True None (manager_lock (fresh mgr0))
   = (True, insert_member (new_member ''AB'' None 2000000 9 None) (manager_lock (fresh mgr0)))"
  by (simp add: LOCKED_init_member_def LOCKED_get_member_def Let_def choose_sync_none)
     (simp add: env0_def)

lemma mgr1_init: "LOCKED_init_member env0 9 ''AB'' True None (manager_lock (fresh mgr0)) = (True, mgr1)"
  by (simp add: mgr1_def mgr1_eq)

lemma mgr1_simps [simp]:
  "msent mgr1 = []" "mcrashed mgr1 = False" "member_at mgr1 ''AB'' = Some (new_member ''AB'' None 2000000 9 None)"
  "mexiting mgr1 = False"
  by (simp_all add: mgr1_def mgr1_eq insert_member_def new_member_def)

lemma mgr1_reach: "sys_reach (mgr1, {#''AB''#})"
  using sys_reach.step [OF mgr0_reach sys_step.wait_begin [OF mgr1_init, of "{#}"]] by simp

lemma mgr_wf_count:
  assumes "mgr_wf f M"
  shows "count_of M st = of_nat (card {k. \<exists>m. member_at M k = Some m \<and> step_of m = st})"
proof -
  have "distinct (f st)" using assms fam_distinct [OF queues_rep_fam] by (auto simp: mgr_wf_def)
  then have "length (f st) = card (set (f st))" by (simp add: distinct_card)
  moreover have "count_of M st = of_nat (length (f st))" using assms by (simp add: mgr_wf_def queues_rep_def)
  ultimately show ?thesis by (simp add: mgr_wf_queue [OF assms])
qed

section \<open>Properties\<close>

text \<open>
  C9: whatever the interleaving of the requests of the clients, the callbacks, the watchers and
  the periodic tasks, the tree and the queues of the manager agree: each member is filed under
  its key and its step, and the counter of each queue is the number of the members in that step.
\<close>

theorem manager_queues_agree:
  assumes "sys_reach (M, H)"
  shows "(\<forall>k m. member_at M k = Some m \<longrightarrow> m_key m = k)
    \<and> count_of M st = of_nat (card {k. \<exists>m. member_at M k = Some m \<and> step_of m = st})
    \<and> (\<forall>k. front_of M st = Some k \<longrightarrow> (\<exists>m. member_at M k = Some m \<and> step_of m = st))"
proof -
  obtain f where wf: "mgr_wf f M" using sys_reach_inv [OF assms] by (auto simp: sys_inv_def)
  have "\<exists>m. member_at M k = Some m \<and> step_of m = st" if "front_of M st = Some k" for k
    using that mgr_wf_front [OF wf, of st] mgr_wf_queue [OF wf, of st] hd_opt_SomeD by fastforce
  then show ?thesis using mgr_wf_at [OF wf] mgr_wf_count [OF wf] by blast
qed

theorem manager_queues_agree_witness:
  "count_of mgr1 STEP_NONE = of_nat (card {k. \<exists>m. member_at mgr1 k = Some m \<and> step_of m = STEP_NONE})"
  using manager_queues_agree [OF mgr1_reach, of STEP_NONE] by blast



text \<open>
  C34: a client does not wait for a status after its deadline: as soon as the clock of an
  iteration is over the deadline, \<^verbatim>\<open>wait_for_final_status\<close> returns, whatever the other
  threads do.
\<close>

theorem wait_ends_at_deadline:
  assumes "(e, others) \<in> set es" "now e > deadline"
  shows "\<exists>r. wait_for_final_status es gp nowait dnw deadline key w M = Some r"
  using assms
proof (induction es gp nowait dnw deadline key w M rule: wait_for_final_status.induct)
  case (2 e' o' es gp nowait dnw deadline key w M)
  obtain out w1 M1 where it: "wait_iteration e' gp nowait dnw deadline key w M = (out, w1, M1)"
    by (cases "wait_iteration e' gp nowait dnw deadline key w M")
  have "out \<noteq> WaitMore" if "e' = e"
    using it that 2(3) by (auto simp: wait_iteration_def split: option.splits if_splits)
  with 2 it show ?case by (cases out) auto
qed simp

theorem wait_ends_at_deadline_witness:
  "\<exists>r. wait_for_final_status [(env0, id), (env0\<lparr>now := 2000002\<rparr>, id)] (\<lambda>_. Inl 500) False 0 2000001
     ''AB'' \<lparr>last_getpeers_failure = 0, getpeers_failures = 0\<rparr> mgr1 = Some r"
  by (rule wait_ends_at_deadline [where e = "env0\<lparr>now := 2000002\<rparr>" and others = id]) simp_all

lemma add_sync_table:
  "sync_tab (fold election_manager_add_sync zhs M) = sync_tab M @ zhs
   \<and> mux_factor (fold election_manager_add_sync zhs M) = mux_factor M
   \<and> (zhs \<noteq> [] \<longrightarrow> nb_shards (fold election_manager_add_sync zhs M)
        = (sync_nb M + length zhs) div mux_factor M)"
  by (induction zhs rule: rev_induct) (auto simp: election_manager_add_sync_def)

lemma shard_index:
  assumes "0 < b" "0 < (c :: nat)"
  shows "(i mod b) * c + j mod c < b * c"
proof -
  have "i mod b \<le> b - 1" using assms(1) by (simp add: less_Suc_eq_le [symmetric])
  then have "(i mod b) * c \<le> (b - 1) * c" by (rule mult_le_mono1)
  moreover have "(b - 1) * c + c = b * c" using assms(1) by (cases b) auto
  ultimately show ?thesis using mod_less_divisor [OF assms(2), of j] by linarith
qed

text \<open>
  The connection chosen for a base is one of the table, whatever the key, the number of
  connections and the \<^verbatim>\<open>mux_factor\<close>.
\<close>

theorem choose_sync_in_table:
  assumes "choose_sync (fold election_manager_add_sync zhs (election_manager_create mux)) key = SyncAt i"
  shows "i < length zhs"
proof -
  let ?M = "fold election_manager_add_sync zhs (election_manager_create mux)"
  have t: "sync_tab ?M = zhs" "mux_factor ?M = mux" "zhs \<noteq> [] \<Longrightarrow> nb_shards ?M = length zhs div mux"
    using add_sync_table [of zhs "election_manager_create mux"] by (simp_all add: election_manager_create_def)
  show ?thesis
  proof (cases "length zhs = 1")
    case True
    with assms t show ?thesis by (simp add: choose_sync_def)
  next
    case False
    with assms t have "length zhs > 1" by (auto simp: choose_sync_def split: if_splits)
    then have "zhs \<noteq> []" by auto
    from t(3) [OF this] have "nb_shards ?M * mux \<le> length zhs" by (simp add: div_times_less_eq_dividend)
    moreover from assms t False have "i < nb_shards ?M * mux"
      by (auto simp: choose_sync_def shard_index shard_index [where i = 0, simplified] split: if_splits option.splits)
    ultimately show ?thesis by linarith
  qed
qed

theorem choose_sync_in_table_witness:
  "\<exists>i < 6. choose_sync (fold election_manager_add_sync [1, 2, 3, 4, 5, 6] (election_manager_create 2))
     ''01000200'' = SyncAt i"
proof -
  have "choose_sync (fold election_manager_add_sync [1, 2, 3, 4, 5, 6] (election_manager_create 2))
      ''01000200'' = SyncAt 5"
    by code_simp
  with choose_sync_in_table [OF this] show ?thesis by auto
qed

text \<open>
  A session event for a known election leaves the lock of the manager held: the operation
  that comes next waits for ever.
\<close>

theorem session_event_keeps_lock:
  assumes "\<not> mexiting M" "w_type d = ZOO_SESSION_EVENT" "w_path d = CHR ''/'' # key @ CHR ''-'' # rest"
    and "CHR ''/'' \<notin> set key" "CHR ''-'' \<notin> set key" "CHR ''/'' \<notin> set rest"
    and "member_at M key = Some m" "unat (generation_id m) = unat (w_gen d)"
  shows "\<exists>M'. deferred_watch_COMMON e d M = Some M' \<and> mlocked M'
    \<and> mblocked (snd (election_get_status_nowait key' M'))"
proof -
  have a: "after_last (CHR ''/'') (w_path d) = Some (key @ CHR ''-'' # rest)"
    using assms(3,4,6) by (simp add: after_last_def takeWhile_append)
  have b: "before_first (CHR ''-'') (key @ CHR ''-'' # rest) = Some key"
    using assms(5) by (simp add: before_first_def takeWhile_append)
  obtain M1 where f: "find_member (w_path d) (w_gen d) M = (Some key, M1)" "mlocked M1"
    using assms(7,8) by (simp add: find_member_def a b LOCKED_get_member_def Let_def member_ref_def)
  then obtain M' where M': "deferred_watch_COMMON e d M = Some M'" "mlocked M'"
    using assms(1,2) by (simp add: deferred_watch_COMMON_def)
  have "mblocked (manager_lock M')" using M' by (simp add: manager_lock_def)
  moreover have "mblocked (snd (election_get_status_nowait key' M')) = mblocked (manager_lock M')"
    by (cases "LOCKED_get_member key' (manager_lock M')" ; cases "fst (LOCKED_get_member key' (manager_lock M'))")
       (auto simp: election_get_status_nowait_def LOCKED_get_member_def put_member_def Let_def
         manager_unlock_def split: option.splits)
  ultimately show ?thesis using M' by blast
qed

theorem session_event_keeps_lock_witness:
  "\<exists>M'. deferred_watch_COMMON env0 \<lparr>w_type = ZOO_SESSION_EVENT, w_gen = 9, w_evt = EVT_LEFT_SELF, w_zh = 1,
      w_path = ''/AB-0000000007''\<rparr> mgr1 = Some M' \<and> mlocked M'"
  using session_event_keeps_lock [of mgr1 "\<lparr>w_type = ZOO_SESSION_EVENT, w_gen = 9, w_evt = EVT_LEFT_SELF,
      w_zh = 1, w_path = ''/AB-0000000007''\<rparr>" "''AB''" "''0000000007''" "new_member ''AB'' None 2000000 9 None" env0 "[]"]
  by (auto simp: new_member_def)

end
