(* ===== verification/Manager_Effects.thy ===== *)
theory Manager_Effects
  imports Manager_Props
begin

text \<open>
  The effects of the bulk operations of the manager of the elections: the reset of the masters of
  a lost ZooKeeper session, the exit, the balancing, the expirations and the timers.
\<close>

section \<open>Loss of a session\<close>

lemma step_disconnected: "step_of (mb (disconnect_member e s)) = STEP_NONE"
  by (simp add: disconnect_member_def)

lemma uses_handle_lock [simp]:
  "sqlx_sync_uses_handle (manager_lock M) = sqlx_sync_uses_handle M"
  "sqlx_sync_uses_handle (manager_unlock M) = sqlx_sync_uses_handle M"
  by (intro ext, simp add: sqlx_sync_uses_handle_def split: option.split)+

definition on_handle :: "nat \<Rightarrow> mgr \<Rightarrow> string \<Rightarrow> bool" where
  "on_handle zh M k \<longleftrightarrow> (\<exists>m. member_at M k = Some m \<and> sqlx_sync_uses_handle M (m_sync m) zh)"

lemma mgr_wf_next:
  assumes "mgr_wf f M" "f st = ys @ k # zs"
  shows "lnext (q_links (members_by_state M)) k = hd_opt zs"
proof -
  have "is_deque (q_links (members_by_state M)) (q_beacon (members_by_state M) st) (f st)"
    using assms(1) by (auto simp: mgr_wf_def queues_rep_def fam_rep_def)
  then show ?thesis using is_deque_mid(2) assms(2) by metis
qed

text \<open>One reset: the member leaves the queue, the other ones stay.\<close>

lemma reset_one:
  assumes wf: "mgr_wf f M" and q: "f st = ys @ k # zs" and st: "st \<noteq> STEP_NONE"
  obtains f' where "mgr_wf f' (on_member (disconnect_member e) k M)" "f' st = ys @ zs"
    "\<And>x. x \<noteq> k \<Longrightarrow> member_at (on_member (disconnect_member e) k M) x = member_at M x"
    "\<And>x zh. x \<noteq> k \<Longrightarrow> on_handle zh (on_member (disconnect_member e) k M) x = on_handle zh M x"
proof -
  obtain m where m: "member_at M k = Some m" "step_of m = st"
    using mgr_wf_mem [OF wf, of k st] q by auto
  let ?M = "on_member (disconnect_member e) k M"
  obtain f' where f': "mgr_wf f' ?M" "same_others k f f'"
    using put_est_wf [OF wf m(1) est_step_frame [OF step_disconnect [of e]]] m(1) by auto
  have "distinct (f st)" using wf fam_distinct [OF queues_rep_fam] by (auto simp: mgr_wf_def)
  then have "removeAll k (f st) = ys @ zs" using q by (auto simp: removeAll_id)
  moreover have "k \<notin> set (f' st)"
    using mgr_wf_queue [OF f'(1), of st] m st by (auto simp: step_disconnected)
  ultimately have "f' st = ys @ zs" using f'(2) by (metis same_others_def removeAll_id)
  moreover have "member_at ?M x = member_at M x" if "x \<noteq> k" for x using that m by simp
  moreover from this have "on_handle zh ?M x = on_handle zh M x" if "x \<noteq> k" for x zh
    using that by (simp add: on_handle_def sqlx_sync_uses_handle_def split: option.splits)
  ultimately show ?thesis using f'(1) that by blast
qed

lemma reset_loop_effect:
  assumes "mgr_wf f M" "f st = ys @ zs" "\<forall>k \<in> set ys. \<not> on_handle zh M k" "st \<noteq> STEP_NONE"
    and "length (f st) \<le> n" "length (f st) * (n + 1) + length zs < fuel"
  shows "\<exists>c' M' f'. reset_matching_loop fuel e zh st (hd_opt zs) c M = Some (c', M')
     \<and> mgr_wf f' M' \<and> (\<forall>k \<in> set (f' st). \<not> on_handle zh M' k)
     \<and> (\<forall>k. (\<forall>m. member_at M k = Some m \<longrightarrow> step_of m = st \<longrightarrow> \<not> on_handle zh M k)
            \<longrightarrow> member_at M' k = member_at M k)"
  using assms
proof (induction fuel arbitrary: f M ys zs c)
  case (Suc fuel)
  show ?case
  proof (cases zs)
    case Nil
    with Suc.prems show ?thesis by auto
  next
    case (Cons k zs')
    obtain m where m: "member_at M k = Some m" "step_of m = st"
      using mgr_wf_mem [OF Suc.prems(1), of k st] Suc.prems(2) Cons by auto
    show ?thesis
    proof (cases "on_handle zh M k")
      case False
      have "length (f st) * (n + 1) + length zs' < fuel" using Suc.prems(6) Cons by simp
      then have "\<exists>c' M' f'. reset_matching_loop fuel e zh st (hd_opt zs') c M = Some (c', M')
          \<and> mgr_wf f' M' \<and> (\<forall>k \<in> set (f' st). \<not> on_handle zh M' k)
          \<and> (\<forall>k. (\<forall>m. member_at M k = Some m \<longrightarrow> step_of m = st \<longrightarrow> \<not> on_handle zh M k)
            \<longrightarrow> member_at M' k = member_at M k)"
        using Suc.prems Cons False by (intro Suc.IH [where ys = "ys @ [k]" and f = f]) auto
      moreover have "reset_matching_loop (Suc fuel) e zh st (hd_opt zs) c M
          = reset_matching_loop fuel e zh st (hd_opt zs') c M"
        using m False Cons mgr_wf_next [OF Suc.prems(1), of st ys k zs'] Suc.prems(2)
        by (auto simp: on_handle_def)
      ultimately show ?thesis by simp
    next
      case True
      let ?M = "on_member (disconnect_member e) k M"
      have q: "f st = ys @ k # zs'" using Suc.prems(2) Cons by simp
      obtain f1 where f1: "mgr_wf f1 ?M" "f1 st = ys @ zs'"
        and same: "\<And>x. x \<noteq> k \<Longrightarrow> member_at ?M x = member_at M x"
          "\<And>x zh. x \<noteq> k \<Longrightarrow> on_handle zh ?M x = on_handle zh M x"
        using reset_one [OF Suc.prems(1) q Suc.prems(4)] by metis
      have l: "length (f st) = Suc (length (f1 st))" using q f1(2) by simp
      have "length (f1 st) * (n + 1) + length (f1 st) < fuel"
        using Suc.prems(5,6) l by simp
      then have ih: "\<exists>c' M' f'. reset_matching_loop fuel e zh st (hd_opt (f1 st)) (c + 1) ?M = Some (c', M')
          \<and> mgr_wf f' M' \<and> (\<forall>k \<in> set (f' st). \<not> on_handle zh M' k)
          \<and> (\<forall>k. (\<forall>m. member_at ?M k = Some m \<longrightarrow> step_of m = st \<longrightarrow> \<not> on_handle zh ?M k)
            \<longrightarrow> member_at M' k = member_at ?M k)"
        using Suc.prems(4,5) l f1(1) by (intro Suc.IH [where ys = "[]" and f = f1]) auto
      have "reset_matching_loop (Suc fuel) e zh st (hd_opt zs) c M
          = reset_matching_loop fuel e zh st (hd_opt (f1 st)) (c + 1) ?M"
        using m True Cons mgr_wf_front [OF f1(1), of st] by (auto simp: on_handle_def Let_def simp del: on_member_Some)
      moreover obtain c' M' f' where r: "reset_matching_loop fuel e zh st (hd_opt (f1 st)) (c + 1) ?M = Some (c', M')"
        "mgr_wf f' M'" "\<forall>k \<in> set (f' st). \<not> on_handle zh M' k"
        and keep: "\<And>x. (\<forall>m. member_at ?M x = Some m \<longrightarrow> step_of m = st \<longrightarrow> \<not> on_handle zh ?M x)
            \<Longrightarrow> member_at M' x = member_at ?M x"
        using ih by blast
      moreover have "member_at M' x = member_at M x"
        if x: "\<forall>m. member_at M x = Some m \<longrightarrow> step_of m = st \<longrightarrow> \<not> on_handle zh M x" for x
      proof -
        have "x \<noteq> k" using x m True by auto
        then show ?thesis using keep [of x] x same(1) [of x] same(2) [of x zh] by simp
      qed
      ultimately show ?thesis by auto
    qed
  qed
qed simp

text \<open>
  C7: after the loss of a ZooKeeper session, \<^verbatim>\<open>_reset_matching_members\<close> ends (the fuel is
  enough), no local election on that connection is MASTER any more, and the elections on the
  other connections are left alone.
\<close>

theorem session_loss_demotes_masters:
  assumes "mgr_wf f M"
  shows "\<exists>n M'. reset_matching_members e zh STEP_MASTER M = Some (n, M')
     \<and> (\<forall>k m. member_at M' k = Some m \<longrightarrow> sqlx_sync_uses_handle M' (m_sync m) zh \<longrightarrow> step_of m \<noteq> STEP_MASTER)
     \<and> (\<forall>k m. member_at M k = Some m \<longrightarrow> step_of m \<noteq> STEP_MASTER \<or> \<not> sqlx_sync_uses_handle M (m_sync m) zh
            \<longrightarrow> member_at M' k = Some m)"
proof -
  let ?L = "manager_lock M" and ?n = "length (members_by_key M)"
  have wf: "mgr_wf f ?L" using assms by (simp add: mgr_wf_def)
  have "length (f STEP_MASTER) = card (set (f STEP_MASTER))"
    using wf fam_distinct [OF queues_rep_fam] by (auto simp: mgr_wf_def distinct_card)
  also have "set (f STEP_MASTER) \<subseteq> fst ` set (members_by_key M)"
    using mgr_wf_dom [OF assms] by (auto simp: dom_map_of_conv_image_fst)
  then have "card (set (f STEP_MASTER)) \<le> card (fst ` set (members_by_key M))" by (simp add: card_mono)
  also have "\<dots> \<le> ?n" using card_length [of "map fst (members_by_key M)"] by simp
  finally have le: "length (f STEP_MASTER) \<le> ?n" .
  then have "length (f STEP_MASTER) * (?n + 1) + length (f STEP_MASTER) \<le> ?n * (?n + 1) + ?n"
    by (intro add_mono mult_le_mono1)
  then have "length (f STEP_MASTER) * (?n + 1) + length (f STEP_MASTER) < (?n + 1) * (?n + 1)" by simp
  from reset_loop_effect [where ys = "[]" and zs = "f STEP_MASTER" and zh = zh and e = e and c = 0, OF wf _ _ _ le this]
  obtain c' M' f' where r: "reset_matching_loop ((?n + 1) * (?n + 1)) e zh STEP_MASTER (hd_opt (f STEP_MASTER)) 0 ?L
        = Some (c', M')" and f': "mgr_wf f' M'" "\<forall>k \<in> set (f' STEP_MASTER). \<not> on_handle zh M' k"
    and same: "\<forall>k. (\<forall>m. member_at ?L k = Some m \<longrightarrow> step_of m = STEP_MASTER \<longrightarrow> \<not> on_handle zh ?L k)
            \<longrightarrow> member_at M' k = member_at ?L k"
    by (auto simp del: reset_matching_loop.simps)
  have "reset_matching_members e zh STEP_MASTER M = Some (c', manager_unlock M')"
    using r mgr_wf_front [OF wf, of STEP_MASTER] unfolding reset_matching_members_def Let_def
    by (simp del: reset_matching_loop.simps)
  moreover have "step_of m \<noteq> STEP_MASTER"
    if "member_at (manager_unlock M') k = Some m" "sqlx_sync_uses_handle (manager_unlock M') (m_sync m) zh" for k m
  proof -
    have k: "member_at M' k = Some m" "on_handle zh M' k" using that by (simp_all add: on_handle_def)
    show ?thesis using f'(2) mgr_wf_at [OF f'(1) k(1)] k(2) by metis
  qed
  moreover have "member_at (manager_unlock M') k = Some m"
    if "member_at M k = Some m" "step_of m \<noteq> STEP_MASTER \<or> \<not> sqlx_sync_uses_handle M (m_sync m) zh" for k m
    using same that by (auto simp: on_handle_def)
  ultimately show ?thesis
    by (intro exI [of _ c'] exI [of _ "manager_unlock M'"]) blast
qed

text \<open>A manager with a connection and a MASTER that uses it.\<close>

definition member_MASTER :: member where
  "member_MASTER = (new_member ''AB'' (Some 0) 5 9 (Some [''B'', ''C'']))
     \<lparr>step_of := STEP_MASTER, local_id := 7, flag_local_id := True, master_id := 7,
      flag_master_id := True, refcount := 1, last_atime := 1000000\<rparr>"

definition mgr2 :: mgr where
  "mgr2 = insert_member member_MASTER (election_manager_add_sync 3 mgr0)"

abbreviation queues2 :: "step \<Rightarrow> string list" where
  "queues2 \<equiv> (\<lambda>_. [])(STEP_MASTER := [''AB''])"

lemma member_MASTER_simps [simp]:
  "step_of member_MASTER = STEP_MASTER" "m_key member_MASTER = ''AB''" "m_sync member_MASTER = Some 0"
  "last_atime member_MASTER = 1000000"
  by (simp_all add: member_MASTER_def new_member_def)

lemma mgr2_simps [simp]:
  "members_by_key mgr2 = [(''AB'', member_MASTER)]" "sync_tab mgr2 = [3]"
  "members_by_state mgr2 = DEQUE_add STEP_MASTER ''AB'' queues_empty"
  by (simp_all add: mgr2_def insert_member_def election_manager_add_sync_def)
     (simp add: mgr0_def election_manager_create_def)

lemma mgr2_wf: "mgr_wf queues2 mgr2"
  using queues_rep_add [OF queues_rep_empty, of "''AB''" STEP_MASTER] by (auto simp: mgr_wf_def)

theorem session_loss_demotes_masters_witness:
  "\<exists>n M'. reset_matching_members env0 3 STEP_MASTER mgr2 = Some (n, M')
     \<and> (\<forall>k m. member_at M' k = Some m \<longrightarrow> sqlx_sync_uses_handle M' (m_sync m) 3 \<longrightarrow> step_of m \<noteq> STEP_MASTER)"
  using session_loss_demotes_masters [OF mgr2_wf, of env0 3] by blast

section \<open>Exit\<close>






section \<open>Leaving the stable steps\<close>

lemma to_LEAVING_leaves:
  assumes r: "member_react (transition_disc e) e evt arg s = member_action_to_LEAVING (transition_disc e) e s'"
    and st: "st = STEP_SLAVE \<or> st = STEP_MASTER"
  shows "step_of (mb (transition e evt arg s)) \<noteq> st"
proof -
  let ?A = "{STEP_LEAVING, STEP_NONE, STEP_PEERING, STEP_FAILED, STEP_CREATING}"
  have 1: "step_of (mb (member_react (transition_disc e) e evt arg s)) \<in> ?A"
    unfolding r member_action_to_LEAVING_def by (rule dest_LEAVE [OF disc_dest_transition]) simp
  have 2: "step_of (mb (member_react (transition_disc e) e EVT_NONE NoArg x)) \<in> ?A"
    if "step_of (mb x) = STEP_NONE" for x
  proof -
    have "step_of (mb (member_react (transition_disc e) e EVT_NONE NoArg x)) \<in> fsm_next STEP_NONE"
      by (rule dest_react [OF disc_dest_transition]) (simp add: that)
    then show ?thesis by auto
  qed
  have "step_of (mb (transition e evt arg s)) \<in> ?A"
    using 1 2 by (simp add: transition_def transition_with_def Let_def)
  with st show ?thesis by auto
qed

text \<open>A reaction that makes the front of a queue leave it.\<close>

lemma front_leaves:
  assumes wf: "mgr_wf f M" and q: "f st = k # zs" and m: "member_at M k = Some m"
    and g: "\<And>s. est_step e s (g s)" and out: "step_of (mb (g (est_at M m))) \<noteq> st"
  obtains f' where "mgr_wf f' (on_member g k M)" "f' st = zs"
    "\<And>x. x \<noteq> k \<Longrightarrow> member_at (on_member g k M) x = member_at M x"
proof -
  let ?M = "on_member g k M"
  obtain f' where f': "mgr_wf f' ?M" "same_others k f f'"
    using put_est_wf [OF wf m est_step_frame [OF g]] m by auto
  have "distinct (f st)" using wf fam_distinct [OF queues_rep_fam] by (auto simp: mgr_wf_def)
  then have "removeAll k (f st) = zs" using q by (auto simp: removeAll_id)
  moreover have "k \<notin> set (f' st)"
    using mgr_wf_queue [OF f'(1), of st] m out by auto
  ultimately have "f' st = zs" using f'(2) by (metis same_others_def removeAll_id)
  with f'(1) m that show ?thesis by auto
qed

section \<open>Balancing\<close>



lemma mgr_wf_lock [simp]: "mgr_wf f (manager_lock M) = mgr_wf f M" "mgr_wf f (manager_unlock M) = mgr_wf f M"
  by (simp_all add: mgr_wf_def)





section \<open>Expirations\<close>

definition expired :: "env \<Rightarrow> time \<Rightarrow> mgr \<Rightarrow> string \<Rightarrow> bool" where
  "expired e nw M k \<longleftrightarrow> (\<exists>m. member_at M k = Some m \<and> member_expirable e nw m)"

lemma expiration_effect:
  assumes wf: "mgr_wf f M" and q: "f STEP_NONE = k # zs" and m: "member_at M k = Some m"
    and x: "member_expirable e nw m"
  shows "\<exists>f'. mgr_wf f' (snd (expiration_section e nw k M)) \<and> f' = f(STEP_NONE := zs)
    \<and> \<not> fst (expiration_section e nw k M)
    \<and> members_by_key (snd (expiration_section e nw k M)) = g_tree_del k (members_by_key M)"
proof -
  have k: "m_key m = k" "step_of m = STEP_NONE"
    using mgr_wf_mem [OF wf, of k STEP_NONE] q m by auto
  let ?f = "f(STEP_NONE := zs)" and ?D = "destroy_member m (manager_lock M)"
  have d: "distinct (f STEP_NONE)" using wf fam_distinct [OF queues_rep_fam] by (auto simp: mgr_wf_def)
  have "mgr_wf ?f ?D"
  proof (rule mgr_wfI)
    show "queues_rep (members_by_state ?D) ?f"
      using queues_rep_remove [of "members_by_state M" f k STEP_NONE] wf q k
      by (simp add: destroy_member_def mgr_wf_def)
    show "sorted_wrt (<) (map fst (members_by_key ?D))"
      using wf by (simp add: destroy_member_def mgr_wf_def sorted_g_tree_del)
    show "m_key m' = y \<and> y \<in> set (?f (step_of m'))" if "member_at ?D y = Some m'" for y m'
      using that mgr_wf_at [OF wf, of y m'] k q by (auto simp: destroy_member_def split: if_splits)
    show "y \<in> dom (member_at ?D)" if y: "y \<in> set (?f st)" for y st
    proof -
      have "y \<noteq> k" using y d q mgr_wf_mem [OF wf, of k st] m k by (auto split: if_splits)
      moreover have "y \<in> set (f st)" using y q by (auto split: if_splits)
      ultimately show ?thesis using mgr_wf_dom [OF wf, of y st] k by (auto simp: destroy_member_def)
    qed
  qed
  with m x k show ?thesis
    by (simp add: expiration_section_def Let_def) (simp add: destroy_member_def)
qed

lemma expirations_loop_effect:
  assumes "mgr_wf f M" "length (f STEP_NONE) < n"
  shows "mgr_wf (f(STEP_NONE := dropWhile (expired e nw M) (f STEP_NONE))) (play_expirations_loop n e nw M)
    \<and> member_at (play_expirations_loop n e nw M)
       = member_at M |` (- set (takeWhile (expired e nw M) (f STEP_NONE)))"
  using assms
proof (induction n arbitrary: f M)
  case (Suc n)
  show ?case
  proof (cases "f STEP_NONE")
    case Nil
    then have "front_of M STEP_NONE = None" using mgr_wf_front [OF Suc.prems(1), of STEP_NONE] by simp
    with Nil Suc.prems(1) show ?thesis by (auto simp: fun_upd_idem)
  next
    case (Cons k zs)
    have fr: "front_of M STEP_NONE = Some k" using mgr_wf_front [OF Suc.prems(1), of STEP_NONE] Cons by simp
    obtain m where m: "member_at M k = Some m" using mgr_wf_mem [OF Suc.prems(1), of k STEP_NONE] Cons by auto
    show ?thesis
    proof (cases "member_expirable e nw m")
      case False
      with fr m Cons Suc.prems(1) show ?thesis
        by (auto simp: expiration_section_def Let_def fun_upd_idem expired_def)
    next
      case True
      obtain M1 where s: "expiration_section e nw k M = (False, M1)" and wf1: "mgr_wf (f(STEP_NONE := zs)) M1"
        and del: "members_by_key M1 = g_tree_del k (members_by_key M)"
        using expiration_effect [OF Suc.prems(1) Cons m True] by (metis prod.collapse)
      have kz: "k \<notin> set zs"
        using Suc.prems(1) Cons fam_distinct [OF queues_rep_fam, of "members_by_state M" f STEP_NONE]
        by (auto simp: mgr_wf_def)
      then have cong: "expired e nw M1 x = expired e nw M x" if "x \<in> set zs" for x using that del by (auto simp: expired_def)
      have tw: "takeWhile (expired e nw M1) zs = takeWhile (expired e nw M) zs" "dropWhile (expired e nw M1) zs = dropWhile (expired e nw M) zs"
        using cong by (auto intro: takeWhile_cong dropWhile_cong)
      have x: "expired e nw M k" using m True by (simp add: expired_def)
      have l: "length zs < n" using Suc.prems(2) Cons by simp
      have ih: "mgr_wf (f(STEP_NONE := dropWhile (expired e nw M) zs)) (play_expirations_loop n e nw M1)"
        "member_at (play_expirations_loop n e nw M1) = member_at M1 |` (- set (takeWhile (expired e nw M) zs))"
        using Suc.IH [OF wf1, unfolded fun_upd_upd fun_upd_same tw, OF l] by blast+
      have "play_expirations_loop (Suc n) e nw M = play_expirations_loop n e nw M1" using fr s by simp
      moreover have "member_at M1 |` (- set (takeWhile (expired e nw M) zs))
          = member_at M |` (- set (takeWhile (expired e nw M) (k # zs)))"
        using x del by (auto simp: restrict_map_def fun_eq_iff)
      ultimately show ?thesis
        using ih x unfolding Cons by (simp only: takeWhile.simps dropWhile.simps if_True)
    qed
  qed
qed simp

text \<open>
  C31: \<^verbatim>\<open>election_manager_play_expirations\<close> ends and destroys exactly the members at the head
  of the queue of NONE that nobody holds and that are there for longer than the delay.
\<close>

theorem expirations_exact:
  assumes "mgr_wf f M"
  shows "member_at (election_manager_play_expirations e nw M)
    = member_at M |` (- set (takeWhile (expired e nw M) (f STEP_NONE)))"
proof -
  have "set (f STEP_NONE) \<subseteq> fst ` set (members_by_key M)"
    using mgr_wf_dom [OF assms] by (auto simp: dom_map_of_conv_image_fst)
  then have "card (set (f STEP_NONE)) \<le> card (fst ` set (members_by_key M))" by (simp add: card_mono)
  also have "\<dots> \<le> length (members_by_key M)" using card_length [of "map fst (members_by_key M)"] by simp
  finally have "length (f STEP_NONE) < length (members_by_key M) + 1"
    using assms fam_distinct [OF queues_rep_fam] by (auto simp: mgr_wf_def distinct_card less_Suc_eq_le)
  from expirations_loop_effect [OF assms this] show ?thesis
    unfolding election_manager_play_expirations_def by blast
qed

definition mgr3 :: mgr where
  "mgr3 = insert_member ((new_member ''AB'' None 5 9 None)\<lparr>refcount := 1\<rparr>) mgr0"

lemma mgr3_wf: "mgr_wf ((\<lambda>_. [])(STEP_NONE := [''AB''])) mgr3"
  using queues_rep_add [OF queues_rep_empty, of "''AB''" STEP_NONE]
  by (auto simp: mgr_wf_def mgr3_def insert_member_def new_member_def)
     (simp add: mgr0_def election_manager_create_def)

theorem expirations_exact_witness:
  "member_at (election_manager_play_expirations env0 2000000 mgr3) ''AB'' = None"
proof -
  have "expired env0 2000000 mgr3 ''AB''"
    by (simp add: expired_def mgr3_def insert_member_def new_member_def member_expirable_def is_over_def
        OLDEST_def env0_def)
  with expirations_exact [OF mgr3_wf, of env0 2000000] show ?thesis by simp
qed

section \<open>Timers\<close>

definition idle_delay :: "env \<Rightarrow> step \<Rightarrow> time" where
  "idle_delay e st = (if st = STEP_SLAVE then delay_expire_SLAVE e else delay_expire_MASTER e)"

lemma idle_leaves:
  assumes "step_of (mb s) = st" "st = STEP_SLAVE \<or> st = STEP_MASTER"
    and "is_over (now e) (last_atime (mb s)) (idle_delay e st)"
  shows "step_of (mb (transition e EVT_NONE NoArg s)) \<noteq> st"
  by (rule to_LEAVING_leaves [where s' = s])
     (use assms in \<open>auto simp: member_react_def member_react_SLAVE_def member_react_MASTER_def idle_delay_def\<close>)

text \<open>
  C33: the timer of the idle elections ends once the clock is past the date it was given: each
  iteration on a SLAVE or MASTER queue makes its front leave, or stops, so that one more
  iteration than the length of the queue is enough.
\<close>

theorem idle_timer_ends:
  assumes "mgr_wf f M" "st = STEP_SLAVE \<or> st = STEP_MASTER" "length (f st) < length es"
    and "\<forall>e \<in> set es. now e > nw \<and> 0 < idle_delay e st"
    and "\<forall>k m. member_at M k = Some m \<longrightarrow> step_of m = st \<longrightarrow> last_atime m > 0"
  shows "\<exists>es' M'. send_NONE_to_step es st nw M = Some (es', M')"
  using assms
proof (induction es arbitrary: f M)
  case (Cons e es)
  show ?case
  proof (cases "f st")
    case Nil
    with mgr_wf_front [OF Cons.prems(1), of st] show ?thesis by simp
  next
    case q: (Cons k zs)
    have fr: "front_of M st = Some k" using mgr_wf_front [OF Cons.prems(1), of st] q by simp
    obtain m where m: "member_at M k = Some m" "step_of m = st"
      using mgr_wf_mem [OF Cons.prems(1), of k st] q by auto
    let ?dl = "member_next_timeout e m"
    have dl: "?dl = last_atime m + idle_delay e st"
      using m(2) Cons.prems(2) by (auto simp: member_next_timeout_def idle_delay_def)
    have pos: "last_atime m > 0" "0 < idle_delay e st" "now e > nw" using m Cons.prems(4,5) by auto
    show ?thesis
    proof (cases "nw < ?dl")
      case True
      with fr m show ?thesis by (simp add: timer_section_def Let_def)
    next
      case False
      let ?g = "transition e EVT_NONE NoArg" and ?L = "manager_lock M"
      have "is_over (now e) (last_atime m) (idle_delay e st)"
        using False dl pos by (auto simp: is_over_def OLDEST_def)
      then have out: "step_of (mb (?g (est_at ?L m))) \<noteq> st"
        using m(2) Cons.prems(2) by (intro idle_leaves) auto
      obtain f' where f': "mgr_wf f' (on_member ?g k ?L)" "f' st = zs"
        and same: "\<And>x. x \<noteq> k \<Longrightarrow> member_at (on_member ?g k ?L) x = member_at ?L x"
        by (rule front_leaves [of f ?L st k zs m e ?g])
           (use Cons.prems(1) q m out in \<open>auto intro: step_transition\<close>)
      let ?M = "manager_unlock (on_member ?g k ?L)"
      have "step_of m' \<noteq> st" if "member_at ?M k = Some m'" for m' using that m out by auto
      with same Cons.prems(5) have atime: "\<forall>x m'. member_at ?M x = Some m' \<longrightarrow> step_of m' = st \<longrightarrow> last_atime m' > 0"
        by (metis lock_simps(1,8))
      have "\<exists>es' M'. send_NONE_to_step es st nw ?M = Some (es', M')"
        by (rule Cons.IH [of f']) (use f' atime Cons.prems(2-4) q in auto)
      moreover have "send_NONE_to_step (e # es) st nw M = send_NONE_to_step es st nw ?M"
        using fr m False dl pos by (simp add: timer_section_def Let_def)
      ultimately show ?thesis by simp
    qed
  qed
qed simp

theorem idle_timer_ends_witness:
  "\<exists>es' M'. send_NONE_to_step [env0, env0] STEP_MASTER 1999999 mgr2 = Some (es', M')"
  by (rule idle_timer_ends [OF mgr2_wf])
     (auto simp: idle_delay_def env0_def split: if_splits)

text \<open>
  But as long as the clock is not past the deadline of the front of the queue, while the
  date given to the timer is, the loop takes the lock and does nothing, again and again; the
  caller of the timers, which adds a millisecond to the clock, makes it so.
\<close>

theorem idle_timer_spins:
  assumes "front_of M STEP_MASTER = Some k" "member_at M k = Some m" "step_of m = STEP_MASTER"
    and "last_atime m + delay_expire_MASTER e \<le> nw" "now e \<le> last_atime m + delay_expire_MASTER e"
    and "0 < last_atime m" "0 < delay_expire_MASTER e"
  shows "send_NONE_to_step (replicate n e) STEP_MASTER nw M = None"
  using assms(1,2)
proof (induction n arbitrary: M)
  case (Suc n)
  let ?L = "manager_lock M" and ?g = "transition e EVT_NONE NoArg"
  have "\<not> is_over (now e) (last_atime m) (delay_expire_MASTER e)"
    using assms(5-7) by (auto simp: is_over_def OLDEST_def)
  then have id: "?g (est_at ?L m) = est_at ?L m"
    using assms(3) by (simp add: transition_def transition_with_def member_react_def member_react_MASTER_def
        member_log_change_def Let_def)
  let ?M = "manager_unlock (on_member ?g k ?L)"
  have "front_of ?M STEP_MASTER = Some k" "member_at ?M k = Some m"
    using Suc.prems id by simp_all
  from Suc.IH [OF this] Suc.prems assms(3-7) show ?case
    by (simp add: timer_section_def Let_def member_next_timeout_def)
qed simp

theorem idle_timer_spins_witness:
  "send_NONE_to_step (replicate 3 (env0\<lparr>now := 1000040\<rparr>)) STEP_MASTER (1000040 + 1000) mgr2 = None"
  by (rule idle_timer_spins [where k = "''AB''" and m = member_MASTER])
     (use mgr_wf_front [OF mgr2_wf, of STEP_MASTER] in \<open>simp_all add: env0_def\<close>)

end
