(* ===== verification/Rrd.thy ===== *)
theory Rrd
  imports Oio_Prelude "HOL-Library.Signed_Division"
begin

text \<open>
  The counters by second over a sliding period (\<^verbatim>\<open>metautils/lib/rrd.c\<close>).  A slot per second of
  the period holds the value of a counter at the end of that second; reading a delta is the
  difference of two slots.  The cache of bases measures its load with them.

  A slot is read and written at the index \<^verbatim>\<open>at % period\<close> of the C language, which is negative
  for a negative date: \<open>None\<close> stands for an access out of the array.
\<close>

section \<open>The code\<close>

type_synonym guint64 = "64 word"

record grid_single_rrd =
  r_last :: int
  r_period :: int
  r_flags :: guint32
  r_def :: guint64
  r_l0 :: "guint64 list"

abbreviation (input) RRD_FLAG_SHIFT_SET :: guint32 where "RRD_FLAG_SHIFT_SET \<equiv> 1"

definition grid_single_rrd_create :: "int \<Rightarrow> int \<Rightarrow> grid_single_rrd" where
  "grid_single_rrd_create now period =
     \<lparr>r_last = now, r_period = period, r_flags = 0, r_def = 0, r_l0 = replicate (nat period) 0\<rparr>"

definition rrd_slot :: "grid_single_rrd \<Rightarrow> int \<Rightarrow> nat option" where
  "rrd_slot gsr at =
     (let i = at smod r_period gsr
      in if 0 \<le> i \<and> nat i < length (r_l0 gsr) then Some (nat i) else None)"

definition rrd_set :: "grid_single_rrd \<Rightarrow> guint64 \<Rightarrow> grid_single_rrd option" where
  "rrd_set gsr v =
     map_option (\<lambda>i. gsr\<lparr>r_l0 := (r_l0 gsr)[i := v]\<rparr>) (rrd_slot gsr (r_last gsr))"

definition rrd_get :: "grid_single_rrd \<Rightarrow> int \<Rightarrow> guint64 option" where
  "rrd_get gsr at = map_option (\<lambda>i. r_l0 gsr ! i) (rrd_slot gsr at)"

definition rrd_current :: "grid_single_rrd \<Rightarrow> guint64 option" where
  "rrd_current gsr = rrd_get gsr (r_last gsr)"

definition rrd_past :: "grid_single_rrd \<Rightarrow> int \<Rightarrow> guint64 option" where
  "rrd_past gsr period = rrd_get gsr (r_last gsr - period)"

text \<open>The loop of \<^verbatim>\<open>_gsr_manage_timeshift\<close>; the first argument is \<^verbatim>\<open>period - i\<close>.\<close>

fun timeshift_loop :: "nat \<Rightarrow> int \<Rightarrow> guint64 \<Rightarrow> grid_single_rrd \<Rightarrow> grid_single_rrd option" where
  "timeshift_loop 0 now v gsr = Some gsr"
| "timeshift_loop (Suc n) now v gsr =
     (if r_last gsr = now then Some gsr
      else Option.bind (rrd_set (gsr\<lparr>r_last := r_last gsr + 1\<rparr>) v) (timeshift_loop n now v))"

definition gsr_manage_timeshift :: "grid_single_rrd \<Rightarrow> int \<Rightarrow> grid_single_rrd option" where
  "gsr_manage_timeshift gsr now =
     (if now = r_last gsr then Some gsr
      else Option.bind
             (if and (r_flags gsr) RRD_FLAG_SHIFT_SET \<noteq> 0 then Some (r_def gsr) else rrd_current gsr)
             (\<lambda>v. map_option (\<lambda>g. g\<lparr>r_last := now\<rparr>) (timeshift_loop (nat (r_period gsr)) now v gsr)))"

definition grid_single_rrd_push :: "grid_single_rrd \<Rightarrow> int \<Rightarrow> guint64 \<Rightarrow> grid_single_rrd option" where
  "grid_single_rrd_push gsr now v = Option.bind (gsr_manage_timeshift gsr now) (\<lambda>g. rrd_set g v)"

definition grid_single_rrd_add :: "grid_single_rrd \<Rightarrow> int \<Rightarrow> guint64 \<Rightarrow> grid_single_rrd option" where
  "grid_single_rrd_add gsr now v =
     Option.bind (gsr_manage_timeshift gsr now)
       (\<lambda>g. Option.bind (rrd_current g) (\<lambda>v0. rrd_set g (v + v0)))"

definition grid_single_rrd_get :: "grid_single_rrd \<Rightarrow> int \<Rightarrow> (grid_single_rrd \<times> guint64) option" where
  "grid_single_rrd_get gsr now =
     Option.bind (gsr_manage_timeshift gsr now) (\<lambda>g. map_option (Pair g) (rrd_current g))"

definition grid_single_rrd_get_delta ::
  "grid_single_rrd \<Rightarrow> int \<Rightarrow> int \<Rightarrow> (grid_single_rrd \<times> guint64) option" where
  "grid_single_rrd_get_delta gsr now period =
     Option.bind (gsr_manage_timeshift gsr now)
       (\<lambda>g. Option.bind (rrd_current g)
          (\<lambda>v. map_option (\<lambda>v0. (g, v - v0)) (rrd_past g period)))"

section \<open>The counter behind the slots\<close>

text \<open>
  \<open>rrd_rep h gsr\<close>: the slots of the last period hold the history \<open>h\<close> of a counter, which has not
  changed since the last update.
\<close>

definition rrd_ok :: "grid_single_rrd \<Rightarrow> bool" where
  "rrd_ok gsr \<longleftrightarrow> 0 < r_period gsr \<and> length (r_l0 gsr) = nat (r_period gsr) \<and> r_flags gsr = 0"

definition rrd_rep :: "(int \<Rightarrow> guint64) \<Rightarrow> grid_single_rrd \<Rightarrow> bool" where
  "rrd_rep h gsr \<longleftrightarrow> rrd_ok gsr \<and> 0 \<le> r_last gsr \<and>
     (\<forall>t. r_last gsr - r_period gsr < t \<and> t \<le> r_last gsr \<longrightarrow>
        r_l0 gsr ! nat (t mod r_period gsr) = h t) \<and>
     (\<forall>t > r_last gsr. h t = h (r_last gsr))"

lemma smod_nonneg: "0 \<le> a \<Longrightarrow> 0 < b \<Longrightarrow> (a :: int) smod b = a mod b"
  by (cases "a = 0") (simp_all add: signed_modulo_int_def)

lemma rrd_slot_ok: "rrd_ok gsr \<Longrightarrow> 0 \<le> at \<Longrightarrow> rrd_slot gsr at = Some (nat (at mod r_period gsr))"
  by (simp add: rrd_slot_def rrd_ok_def smod_nonneg Let_def nat_less_eq_zless)

lemma rrd_set_ok:
  assumes "rrd_ok gsr" "0 \<le> r_last gsr"
  shows "rrd_set gsr v = Some (gsr\<lparr>r_l0 := (r_l0 gsr)[nat (r_last gsr mod r_period gsr) := v]\<rparr>)"
  using assms by (simp add: rrd_set_def rrd_slot_ok)

lemma rrd_ok_upd [simp]:
  "rrd_ok (gsr\<lparr>r_last := t\<rparr>) = rrd_ok gsr"
  "rrd_ok (gsr\<lparr>r_l0 := (r_l0 gsr)[i := v]\<rparr>) = rrd_ok gsr"
  by (simp_all add: rrd_ok_def)

lemma mod_window:
  assumes "(a :: int) mod p = b mod p" "0 < p" "c - p < a" "a \<le> c" "c - p < b" "b \<le> c"
  shows "a = b"
proof -
  from assms(1) have "p dvd a - b" by (simp add: mod_eq_dvd_iff)
  then obtain k where k: "a - b = p * k" by auto
  from assms have "\<bar>a - b\<bar> < p" by arith
  with k assms(2) have "k = 0" by (simp add: abs_mult mult_less_cancel_left1)
  with k show ?thesis by simp
qed

lemma nat_mod_window:
  assumes "nat ((a :: int) mod p) = nat (b mod p)" "0 < p" "c - p < a" "a \<le> c" "c - p < b" "b \<le> c"
  shows "a = b"
  using assms mod_window [of a p b c] by (simp add: eq_nat_nat_iff)

lemma rep_window:
  "rrd_rep h g \<Longrightarrow> r_last g - r_period g < t \<Longrightarrow> t \<le> r_last g \<Longrightarrow>
     r_l0 g ! nat (t mod r_period g) = h t"
  by (simp add: rrd_rep_def)

lemma rep_tick:
  assumes rep: "rrd_rep h gsr"
  defines "g \<equiv> gsr\<lparr>r_last := r_last gsr + 1\<rparr>"
  shows "\<exists>g'. rrd_set g (h (r_last gsr)) = Some g' \<and> rrd_rep h g' \<and>
    r_last g' = r_last gsr + 1 \<and> r_period g' = r_period gsr"
proof -
  let ?p = "r_period gsr" and ?n = "r_last gsr + 1"
  let ?g = "g\<lparr>r_l0 := (r_l0 gsr)[nat (?n mod ?p) := h (r_last gsr)]\<rparr>"
  from rep have ok: "rrd_ok gsr" "0 \<le> r_last gsr" and p: "0 < ?p" and len: "length (r_l0 gsr) = nat ?p"
    and win: "\<And>t. r_last gsr - ?p < t \<Longrightarrow> t \<le> r_last gsr \<Longrightarrow> r_l0 gsr ! nat (t mod ?p) = h t"
    and const: "\<And>t. r_last gsr < t \<Longrightarrow> h t = h (r_last gsr)"
    by (auto simp: rrd_rep_def rrd_ok_def)
  have "rrd_set g (h (r_last gsr)) = Some ?g"
    using rrd_set_ok [of g] ok by (simp add: g_def)
  moreover have "rrd_rep h ?g"
    unfolding rrd_rep_def
  proof (intro conjI allI impI)
    show "rrd_ok ?g" using ok by (simp add: g_def rrd_ok_def)
    show "0 \<le> r_last ?g" using ok by (simp add: g_def)
  next
    fix t assume t: "r_last ?g - r_period ?g < t \<and> t \<le> r_last ?g"
    have m: "nat (t mod ?p) < nat ?p" "nat (?n mod ?p) < nat ?p" using p by (simp_all add: nat_less_eq_zless)
    show "r_l0 ?g ! nat (t mod r_period ?g) = h t"
    proof (cases "t = ?n")
      case True
      then show ?thesis using m len const [of ?n] by (simp add: g_def)
    next
      case False
      with t nat_mod_window [of t ?p ?n ?n] p have "nat (t mod ?p) \<noteq> nat (?n mod ?p)"
        by (auto simp: g_def)
      with False t win [of t] show ?thesis by (simp add: g_def)
    qed
  next
    fix t assume "r_last ?g < t"
    then have "r_last gsr < t" by (simp add: g_def)
    with const [of t] const [of ?n] show "h t = h (r_last ?g)" by (simp add: g_def)
  qed
  ultimately show ?thesis by (auto simp: g_def)
qed

lemma rep_loop:
  assumes "rrd_rep h gsr" "r_last gsr \<le> now" "v = h (r_last gsr)"
  shows "\<exists>g. timeshift_loop n now v gsr = Some g \<and> rrd_rep h g \<and> r_period g = r_period gsr \<and>
    r_last g = min now (r_last gsr + int n)"
  using assms
proof (induction n arbitrary: gsr)
  case (Suc n)
  show ?case
  proof (cases "r_last gsr = now")
    case False
    with Suc.prems have lt: "r_last gsr < now" by simp
    obtain g where g: "rrd_set (gsr\<lparr>r_last := r_last gsr + 1\<rparr>) v = Some g" "rrd_rep h g"
        "r_last g = r_last gsr + 1" "r_period g = r_period gsr"
      using rep_tick [OF Suc.prems(1)] Suc.prems(3) by auto
    moreover have "v = h (r_last g)"
      using Suc.prems g(3) by (simp add: rrd_rep_def)
    ultimately show ?thesis using Suc.IH [of g] lt False by (auto simp: min_def)
  qed (use Suc.prems in auto)
qed auto

lemma rep_late:
  assumes rep: "rrd_rep h g" and late: "r_last g \<le> now"
    and flat: "\<And>t. r_last g - r_period g < t \<Longrightarrow> t \<le> r_last g \<Longrightarrow> h t = h (r_last g)"
  shows "rrd_rep h (g\<lparr>r_last := now\<rparr>)"
proof -
  let ?p = "r_period g"
  from rep have p: "0 < ?p" by (simp add: rrd_rep_def rrd_ok_def)
  have slot: "r_l0 g ! nat (t mod ?p) = h (r_last g)" for t
  proof -
    let ?d = "(r_last g - t) mod ?p"
    have "(r_last g - ?d) mod ?p = t mod ?p"
      by (metis diff_diff_eq2 add_diff_cancel_left' mod_diff_right_eq)
    moreover have "0 \<le> ?d" "?d < ?p" using p by simp_all
    ultimately show ?thesis
      using rep_window [OF rep, of "r_last g - ?d"] flat [of "r_last g - ?d"] by simp
  qed
  moreover have "h t = h (r_last g)" if "now - ?p < t" "t \<le> now" "r_last g - ?p < t" for t
    using that flat [of t] rep by (cases "t \<le> r_last g") (auto simp: rrd_rep_def)
  ultimately show ?thesis
    using rep late by (auto simp: rrd_rep_def) (metis order_le_less)
qed

lemma rep_timeshift:
  assumes rep: "rrd_rep h gsr" and late: "r_last gsr \<le> now"
  shows "\<exists>g. gsr_manage_timeshift gsr now = Some g \<and> rrd_rep h g \<and> r_last g = now \<and>
    r_period g = r_period gsr"
proof (cases "now = r_last gsr")
  case False
  let ?p = "r_period gsr"
  from rep have ok: "rrd_ok gsr" "0 \<le> r_last gsr" and p: "0 < ?p" by (auto simp: rrd_rep_def rrd_ok_def)
  have cur: "rrd_current gsr = Some (h (r_last gsr))"
    using rep p ok by (auto simp: rrd_current_def rrd_get_def rrd_slot_ok rrd_rep_def)
  obtain g where g: "timeshift_loop (nat ?p) now (h (r_last gsr)) gsr = Some g" "rrd_rep h g"
      "r_period g = ?p" "r_last g = min now (r_last gsr + ?p)"
    using rep_loop [OF rep late refl, of "nat ?p"] p by auto
  have "rrd_rep h (g\<lparr>r_last := now\<rparr>)"
  proof (cases "now \<le> r_last gsr + ?p")
    case True
    with g have "g\<lparr>r_last := now\<rparr> = g" by (simp add: min_def)
    with g show ?thesis by simp
  next
    case late': False
    show ?thesis
    proof (rule rep_late [OF g(2)])
      fix t assume "r_last g - r_period g < t" "t \<le> r_last g"
      with late' g(3,4) have "r_last gsr < t" "r_last gsr < r_last g" using p by (auto simp: min_def)
      with rep show "h t = h (r_last g)" by (auto simp: rrd_rep_def)
    qed (use g late' in simp)
  qed
  with g cur ok False show ?thesis
    by (simp add: gsr_manage_timeshift_def rrd_ok_def)
qed (use rep in \<open>simp add: gsr_manage_timeshift_def\<close>)

lemma rep_current: "rrd_rep h g \<Longrightarrow> rrd_current g = Some (h (r_last g))"
  by (auto simp: rrd_current_def rrd_get_def rrd_slot_ok rrd_rep_def rrd_ok_def)

lemma rep_past:
  assumes "rrd_rep h g" "0 \<le> p" "p < r_period g" "p \<le> r_last g"
  shows "rrd_past g p = Some (h (r_last g - p))"
  using assms by (auto simp: rrd_past_def rrd_get_def rrd_slot_ok rrd_rep_def)

lemma rep_add:
  assumes rep: "rrd_rep h gsr" and late: "r_last gsr \<le> now"
  shows "\<exists>g. grid_single_rrd_add gsr now v = Some g \<and> r_last g = now \<and> r_period g = r_period gsr \<and>
    rrd_rep (\<lambda>t. if t < now then h t else h t + v) g"
proof -
  obtain g where g: "gsr_manage_timeshift gsr now = Some g" "rrd_rep h g" "r_last g = now"
      "r_period g = r_period gsr"
    using rep_timeshift [OF assms] by auto
  let ?i = "nat (now mod r_period g)"
  let ?g = "g\<lparr>r_l0 := (r_l0 g)[?i := v + h now]\<rparr>"
  from g have ok: "rrd_ok g" "0 \<le> now" and p: "0 < r_period g" by (auto simp: rrd_rep_def rrd_ok_def)
  from g ok have "grid_single_rrd_add gsr now v = Some ?g"
    by (simp add: grid_single_rrd_add_def rep_current rrd_set_ok)
  moreover have "rrd_rep (\<lambda>t. if t < now then h t else h t + v) ?g"
    unfolding rrd_rep_def
  proof (intro conjI allI impI)
    fix t assume t: "r_last ?g - r_period ?g < t \<and> t \<le> r_last ?g"
    have "?i < length (r_l0 g)" using ok p by (simp add: rrd_ok_def nat_less_eq_zless)
    moreover have "nat (t mod r_period g) \<noteq> ?i" if "t \<noteq> now"
      using that t g(3) nat_mod_window [of t "r_period g" now now] p by auto
    ultimately show "r_l0 ?g ! nat (t mod r_period ?g) = (if t < now then h t else h t + v)"
      using t g(2,3) by (cases "t = now") (auto simp: rrd_rep_def add.commute)
  qed (use g ok in \<open>auto simp: rrd_rep_def\<close>)
  ultimately show ?thesis using g by auto
qed

section \<open>Accesses within the array\<close>

definition rrd_wf :: "int \<Rightarrow> grid_single_rrd \<Rightarrow> bool" where
  "rrd_wf period g \<longleftrightarrow> rrd_ok g \<and> 0 \<le> r_last g \<and> r_period g = period"

lemma wf_create: "0 < p \<Longrightarrow> 0 \<le> now \<Longrightarrow> rrd_wf p (grid_single_rrd_create now p)"
  by (simp add: rrd_wf_def rrd_ok_def grid_single_rrd_create_def)

lemma wf_set:
  "rrd_wf p g \<Longrightarrow> \<exists>g'. rrd_set g v = Some g' \<and> rrd_wf p g' \<and> r_last g' = r_last g"
  by (auto simp: rrd_wf_def rrd_set_ok)

lemma wf_current: "rrd_wf p g \<Longrightarrow> \<exists>v. rrd_current g = Some v"
  by (simp add: rrd_wf_def rrd_current_def rrd_get_def rrd_slot_ok)

lemma wf_past: "rrd_wf p g \<Longrightarrow> d \<le> r_last g \<Longrightarrow> \<exists>v. rrd_past g d = Some v"
  by (simp add: rrd_wf_def rrd_past_def rrd_get_def rrd_slot_ok)

lemma wf_last: "rrd_wf p g \<Longrightarrow> 0 \<le> t \<Longrightarrow> rrd_wf p (g\<lparr>r_last := t\<rparr>)"
  by (simp add: rrd_wf_def)

lemma wf_loop: "rrd_wf p g \<Longrightarrow> \<exists>g'. timeshift_loop n now v g = Some g' \<and> rrd_wf p g'"
proof (induction n arbitrary: g)
  case (Suc n)
  have "rrd_wf p (g\<lparr>r_last := r_last g + 1\<rparr>)"
    using Suc.prems by (simp add: rrd_wf_def)
  from wf_set [OF this, of v] Suc show ?case by auto
qed simp

lemma wf_timeshift:
  assumes "rrd_wf p g" "0 \<le> now"
  shows "\<exists>g'. gsr_manage_timeshift g now = Some g' \<and> rrd_wf p g' \<and> r_last g' = now"
proof -
  obtain v where "rrd_current g = Some v" using wf_current [OF assms(1)] by auto
  moreover obtain g' where "timeshift_loop (nat p) now v g = Some g'" "rrd_wf p g'"
    using wf_loop [OF assms(1)] by blast
  ultimately show ?thesis
    using assms by (auto simp: gsr_manage_timeshift_def wf_last) (auto simp: rrd_wf_def rrd_ok_def)
qed

lemma wf_add:
  assumes "rrd_wf p g" "0 \<le> now"
  shows "\<exists>g'. grid_single_rrd_add g now v = Some g' \<and> rrd_wf p g'"
proof -
  obtain g' where g': "gsr_manage_timeshift g now = Some g'" "rrd_wf p g'"
    using wf_timeshift [OF assms] by auto
  moreover obtain v0 where "rrd_current g' = Some v0" using wf_current [OF g'(2)] by auto
  ultimately show ?thesis
    using wf_set [OF g'(2), of "v + v0"] by (auto simp: grid_single_rrd_add_def)
qed

lemma wf_delta:
  assumes "rrd_wf p g" "0 \<le> now" "d \<le> now"
  shows "\<exists>g' v. grid_single_rrd_get_delta g now d = Some (g', v) \<and> rrd_wf p g'"
proof -
  obtain g' where g': "gsr_manage_timeshift g now = Some g'" "rrd_wf p g'" "r_last g' = now"
    using wf_timeshift [OF assms(1,2)] by auto
  with wf_current [OF g'(2)] wf_past [OF g'(2), of d] assms(3) show ?thesis
    by (auto simp: grid_single_rrd_get_delta_def)
qed

section \<open>Properties\<close>

text \<open>The counter after a sequence of additions, and its history.\<close>

definition rrd_adds :: "(int \<times> guint64) list \<Rightarrow> grid_single_rrd \<Rightarrow> grid_single_rrd option" where
  "rrd_adds ops gsr = fold (\<lambda>(t, v) g. Option.bind g (\<lambda>g. grid_single_rrd_add g t v)) ops (Some gsr)"

definition added_until :: "(int \<times> guint64) list \<Rightarrow> int \<Rightarrow> guint64" where
  "added_until ops t = sum_list (map snd (filter (\<lambda>(s, _). s \<le> t) ops))"

lemma added_snoc: "added_until (ops @ [(s, v)]) t = (if t < s then added_until ops t else added_until ops t + v)"
  by (simp add: added_until_def)

lemma adds_snoc: "rrd_adds (ops @ [(s, v)]) g = Option.bind (rrd_adds ops g) (\<lambda>g. grid_single_rrd_add g s v)"
  by (simp add: rrd_adds_def)

lemma last_Cons_le: "\<forall>x\<in>set (a # xs). x \<le> (b :: int) \<Longrightarrow> last (a # xs) \<le> b"
  by (metis last_in_set list.distinct(1))

lemma adds_rep:
  assumes "0 \<le> start" "0 < period" "sorted (start # map fst ops)"
  shows "\<exists>g. rrd_adds ops (grid_single_rrd_create start period) = Some g \<and>
    rrd_rep (added_until ops) g \<and> r_period g = period \<and> r_last g = last (start # map fst ops)"
  using assms(3)
proof (induction ops rule: rev_induct)
  case Nil
  show ?case using assms
    by (auto simp: rrd_adds_def rrd_rep_def rrd_ok_def grid_single_rrd_create_def added_until_def
        nat_less_eq_zless)
next
  case (snoc op ops)
  obtain s v where op: "op = (s, v)" by (cases op)
  from snoc.prems have "sorted (start # map fst ops)" "\<forall>x\<in>set (start # map fst ops). x \<le> s"
    by (auto simp: op sorted_append)
  with snoc.IH obtain g where g: "rrd_adds ops (grid_single_rrd_create start period) = Some g"
      "rrd_rep (added_until ops) g" "r_period g = period" "r_last g = last (start # map fst ops)"
    by auto
  moreover have "r_last g \<le> s"
    unfolding g(4) by (rule last_Cons_le) fact
  ultimately show ?case
    using rep_add [of "added_until ops" g s v] by (auto simp: op adds_snoc added_snoc [abs_def])
qed

lemma added_between:
  "added_until ops now - added_until ops (now - p)
     = sum_list (map snd (filter (\<lambda>(s, _). now - p < s \<and> s \<le> now) ops))" if "0 \<le> p"
  using that by (induction ops) (auto simp: added_until_def)

text \<open>
  C19: the delta over a period shorter than the one of the array is the sum of what was added
  since then, whatever the gaps between the additions.
\<close>

theorem rrd_delta_window:
  assumes "0 \<le> start" "sorted (start # map fst ops @ [now])" "0 \<le> p" "p < period" "p \<le> now"
  shows "\<exists>g g'. rrd_adds ops (grid_single_rrd_create start period) = Some g \<and>
    grid_single_rrd_get_delta g now p = Some (g', sum_list (map snd (filter (\<lambda>(s, _). now - p < s) ops)))"
proof -
  from assms have srt: "sorted (start # map fst ops)" and le: "\<forall>x\<in>set (start # map fst ops). x \<le> now"
    by (auto simp: sorted_append)
  from adds_rep [OF assms(1) _ srt, of period] assms obtain g where
    g: "rrd_adds ops (grid_single_rrd_create start period) = Some g" "rrd_rep (added_until ops) g"
      "r_period g = period" "r_last g = last (start # map fst ops)" by auto
  have "r_last g \<le> now" unfolding g(4) by (rule last_Cons_le) fact
  from rep_timeshift [OF g(2) this] obtain g' where
    g': "gsr_manage_timeshift g now = Some g'" "rrd_rep (added_until ops) g'" "r_last g' = now"
      "r_period g' = period" using g(3) by auto
  have "filter (\<lambda>(s, _). now - p < s \<and> s \<le> now) ops = filter (\<lambda>(s, _). now - p < s) ops"
    by (rule filter_cong) (use le in auto)
  with g g' assms added_between [OF assms(3), of ops now] show ?thesis
    by (auto simp: grid_single_rrd_get_delta_def rep_current rep_past)
qed

theorem rrd_delta_window_witness:
  "\<exists>g g'. rrd_adds [(100, 3), (103, 4), (190, 5)] (grid_single_rrd_create 100 60) = Some g \<and>
    grid_single_rrd_get_delta g 195 10 = Some (g', 5)"
  using rrd_delta_window [of 100 "[(100, 3), (103, 4), (190, 5)]" 195 10 60] by simp

text \<open>The two slots of a delta over the whole period are the same one.\<close>

lemma rrd_delta_full:
  assumes "grid_single_rrd_get_delta g now (r_period g) = Some (g', d)" "0 < r_period g"
  shows "d = 0"
proof -
  from assms(1) obtain g1 v v0 where
    g1: "gsr_manage_timeshift g now = Some g1" "rrd_current g1 = Some v"
      "rrd_past g1 (r_period g) = Some v0" "d = v - v0"
    by (auto simp: grid_single_rrd_get_delta_def Option.bind_eq_Some_conv)
  have loop: "timeshift_loop n t w h = Some h' \<Longrightarrow> r_period h' = r_period h" for n t w h h'
    by (induction n arbitrary: h) (auto simp: Option.bind_eq_Some_conv rrd_set_def split: if_splits)
  from g1(1) have per: "r_period g1 = r_period g"
    by (auto simp: gsr_manage_timeshift_def Option.bind_eq_Some_conv dest: loop split: if_splits)
  show ?thesis
  proof (cases "r_period g \<le> r_last g1")
    case True
    then have "(r_last g1 - r_period g) smod r_period g = r_last g1 smod r_period g"
      using assms(2) by (simp add: smod_nonneg)
    with per have "rrd_past g1 (r_period g) = rrd_current g1"
      by (simp add: rrd_current_def rrd_past_def rrd_get_def rrd_slot_def)
    with g1 show ?thesis by simp
  next
    case False
    let ?d = "r_period g - r_last g1"
    have "(r_last g1 - r_period g) smod r_period g = - (?d mod r_period g)"
      using False assms(2) by (simp add: signed_modulo_int_def)
    with g1 per have "?d mod r_period g = 0"
      using assms(2) by (auto simp: rrd_past_def rrd_get_def rrd_slot_def Let_def split: if_splits)
        (smt (verit) pos_mod_sign)
    then have "r_last g1 mod r_period g = 0" "(- r_last g1) mod r_period g = 0"
      by (simp_all add: mod_eq_0_iff_dvd dvd_diff_left_iff)
    then have "r_last g1 smod r_period g = 0" "(r_last g1 - r_period g) smod r_period g = 0"
      using \<open>(r_last g1 - r_period g) smod r_period g = - (?d mod r_period g)\<close> \<open>?d mod r_period g = 0\<close>
      using assms(2) by (auto simp: signed_modulo_int_def abs_if)
    with per have "rrd_past g1 (r_period g) = rrd_current g1"
      by (simp add: rrd_current_def rrd_past_def rrd_get_def rrd_slot_def)
    with g1 show ?thesis by simp
  qed
qed

end
