(* ===== verification/Cache.thy ===== *)
theory Cache
  imports Linked Rrd
begin

text \<open>
  The cache of open bases (\<^verbatim>\<open>sqliterepo/cache.c\<close>): a fixed table of slots, the tree of the slots
  by name, one doubly-linked list of slots per status, and the operations that open, close and
  expire a base.

  The lock of the cache delimits the critical sections.  An operation that releases it, to wait
  for a base or to call the close hook, is the sequence of its sections, a definition each; theory
  \<^theory_text>\<open>Cache_System\<close> interleaves them.  The conditions only wake up sleepers, whose wait is
  bounded in time, and have no counterpart.

  An index of slot is a natural number, -1 being \<open>None\<close>.  Within a section the clock is read by
  \<open>c_now\<close> first, and by \<open>c_end\<close> when the operation accounts its duration.
\<close>

section \<open>Data\<close>

datatype sqlx_base_status = SQLX_BASE_FREE | SQLX_BASE_IDLE | SQLX_BASE_IDLE_HOT | SQLX_BASE_USED
  | SQLX_BASE_CLOSING | SQLX_BASE_CLOSING_FOR_DELETION

type_synonym gthread = nat
type_synonym handle = "nat option"

text \<open>
  A slot.  Its self reference \<^verbatim>\<open>index\<close> is its position in the table and its \<^verbatim>\<open>link\<close> is in
  the field \<open>blinks\<close> of the cache.  The status is \<open>None\<close> for the value 0, between the removal from
  a list and the insertion in another.
\<close>

record sqlx_base =
  b_name :: "string option"
  b_owner :: "gthread option"
  b_handle :: handle
  b_last_update :: time
  b_heat :: guint32
  b_count_open :: guint32
  b_count_waiting :: guint32
  b_status :: "sqlx_base_status option"
  b_open_attempts :: grid_single_rrd
  b_open_wait_time :: grid_single_rrd

text \<open>The calls of the hooks, whose code belongs to the owner of the cache.\<close>

datatype hook_call = Unlock_hook handle | Close_hook handle

record sqlx_cache =
  bases_by_name :: "string \<Rightarrow> nat option"
  bases :: "sqlx_base list"
  blinks :: "nat links"
  bases_max_soft :: guint32
  bases_max_hard :: guint32
  bases_used :: guint32
  is_running :: bool
  last_memory_usage :: int
  beacon_of :: "sqlx_base_status \<Rightarrow> nat beacon"
  unlock_hook :: bool
  close_hook :: bool
  hook_calls :: "hook_call list"

text \<open>The variables of the configuration (\<^verbatim>\<open>conf.json\<close>).\<close>

record cache_conf =
  sqliterepo_max_rss :: int
  sqliterepo_repo_max_bases_soft :: guint32
  sqliterepo_repo_max_bases_hard :: guint32
  cache_fail_on_heavy_load :: bool
  cache_alert_on_heavy_load :: bool
  cache_min_load_on_heavy_load :: guint32
  cache_timeout_open :: time
  cache_period_cond_wait :: time
  cache_heat_threshold :: guint32
  cache_grace_delay_cool :: time
  cache_grace_delay_hot :: time

record cache_env =
  c_self :: gthread
  c_now :: time
  c_end :: time

abbreviation (input) G_TIME_SPAN_SECOND :: time where "G_TIME_SPAN_SECOND \<equiv> 1000000"
abbreviation (input) G_TIME_SPAN_MILLISECOND :: time where "G_TIME_SPAN_MILLISECOND \<equiv> 1000"

abbreviation (input) SQLX_CLOSE_IMMEDIATELY :: guint32 where "SQLX_CLOSE_IMMEDIATELY \<equiv> 1"
abbreviation (input) SQLX_CLOSE_FOR_DELETION :: guint32 where "SQLX_CLOSE_FOR_DELETION \<equiv> 2"

definition CLAMP :: "'a :: linorder \<Rightarrow> 'a \<Rightarrow> 'a \<Rightarrow> 'a" where
  "CLAMP x low high = (if x > high then high else if x < low then low else x)"

section \<open>Slots and lists\<close>

definition ram_exhausted :: "cache_conf \<Rightarrow> sqlx_cache \<Rightarrow> bool" where
  "ram_exhausted conf c \<longleftrightarrow> sqliterepo_max_rss conf \<noteq> 0 \<and> last_memory_usage c > sqliterepo_max_rss conf"

definition base_id_out :: "sqlx_cache \<Rightarrow> int \<Rightarrow> bool" where
  "base_id_out c bd \<longleftrightarrow> bd < 0 \<or> nat bd \<ge> unat (bases_max_hard c)"

definition sqlx_get_by_id :: "sqlx_cache \<Rightarrow> nat option \<Rightarrow> nat option" where
  "sqlx_get_by_id c i =
     (case i of None \<Rightarrow> None | Some n \<Rightarrow> if base_id_out c (int n) then None else Some n)"

definition sqlx_next_by_id :: "sqlx_cache \<Rightarrow> nat option \<Rightarrow> nat option" where
  "sqlx_next_by_id c i =
     (case sqlx_get_by_id c i of None \<Rightarrow> None | Some n \<Rightarrow> sqlx_get_by_id c (lnext (blinks c) n))"

definition sqlx_prev_by_id :: "sqlx_cache \<Rightarrow> nat option \<Rightarrow> nat option" where
  "sqlx_prev_by_id c i =
     (case sqlx_get_by_id c i of None \<Rightarrow> None | Some n \<Rightarrow> sqlx_get_by_id c (lprev (blinks c) n))"

definition on_base :: "nat \<Rightarrow> (sqlx_base \<Rightarrow> sqlx_base) \<Rightarrow> sqlx_cache \<Rightarrow> sqlx_cache" where
  "on_base i f c = c\<lparr>bases := (bases c)[i := f (bases c ! i)]\<rparr>"

text \<open>The lists are named by the status of their slots.\<close>

definition SQLX_REMOVE :: "nat \<Rightarrow> sqlx_base_status \<Rightarrow> sqlx_cache \<Rightarrow> sqlx_cache" where
  "SQLX_REMOVE i st c =
     (let b = beacon_of c st;
          b1 = (if bfront b = Some i then b\<lparr>bfront := sqlx_next_by_id c (bfront b)\<rparr> else b);
          b2 = (if bback b1 = Some i then b1\<lparr>bback := sqlx_prev_by_id c (bback b1)\<rparr> else b1);
          nx = sqlx_get_by_id c (lnext (blinks c) i);
          pv = sqlx_get_by_id c (lprev (blinks c) i);
          l = set_prev nx pv (set_next pv nx (blinks c))
      in on_base i (\<lambda>b. b\<lparr>b_status := None\<rparr>)
           (c\<lparr>beacon_of := (beacon_of c)(st := b2),
              blinks := set_next (Some i) None (set_prev (Some i) None l)\<rparr>))"

definition SQLX_UNSHIFT :: "time \<Rightarrow> nat \<Rightarrow> sqlx_base_status \<Rightarrow> sqlx_cache \<Rightarrow> sqlx_cache" where
  "SQLX_UNSHIFT now i st c =
     (let b = beacon_of c st;
          l = set_next (Some i) (bfront b) (set_next (Some i) None (set_prev (Some i) None (blinks c)));
          l1 = set_prev (sqlx_get_by_id c (bfront b)) (Some i) l;
          b1 = b\<lparr>bfront := Some i\<rparr>;
          b2 = (if bback b1 = None then b1\<lparr>bback := Some i\<rparr> else b1)
      in on_base i (\<lambda>b. b\<lparr>b_status := Some st, b_last_update := now\<rparr>)
           (c\<lparr>beacon_of := (beacon_of c)(st := b2), blinks := l1\<rparr>))"

definition sqlx_save_id :: "nat \<Rightarrow> sqlx_cache \<Rightarrow> sqlx_cache" where
  "sqlx_save_id i c =
     (case b_name (bases c ! i) of None \<Rightarrow> c
      | Some n \<Rightarrow> c\<lparr>bases_by_name := (bases_by_name c)(n := Some i)\<rparr>)"

definition sqlx_lookup_id :: "sqlx_cache \<Rightarrow> string \<Rightarrow> nat option" where
  "sqlx_lookup_id c hs = bases_by_name c hs"

definition sqlx_base_remove_from_list :: "nat \<Rightarrow> sqlx_cache \<Rightarrow> sqlx_cache" where
  "sqlx_base_remove_from_list i c =
     (case b_status (bases c ! i) of
        Some SQLX_BASE_FREE \<Rightarrow> SQLX_REMOVE i SQLX_BASE_FREE c
      | Some SQLX_BASE_IDLE \<Rightarrow> SQLX_REMOVE i SQLX_BASE_IDLE c
      | Some SQLX_BASE_IDLE_HOT \<Rightarrow> SQLX_REMOVE i SQLX_BASE_IDLE_HOT c
      | Some SQLX_BASE_USED \<Rightarrow> SQLX_REMOVE i SQLX_BASE_USED c
      | _ \<Rightarrow> c)"

definition sqlx_base_add_to_list :: "time \<Rightarrow> nat \<Rightarrow> sqlx_base_status \<Rightarrow> sqlx_cache \<Rightarrow> sqlx_cache" where
  "sqlx_base_add_to_list now i st c =
     (case st of
        SQLX_BASE_FREE \<Rightarrow> SQLX_UNSHIFT now i SQLX_BASE_FREE (c\<lparr>bases_used := bases_used c - 1\<rparr>)
      | SQLX_BASE_IDLE \<Rightarrow> SQLX_UNSHIFT now i SQLX_BASE_IDLE c
      | SQLX_BASE_IDLE_HOT \<Rightarrow> SQLX_UNSHIFT now i SQLX_BASE_IDLE_HOT c
      | SQLX_BASE_USED \<Rightarrow> SQLX_UNSHIFT now i SQLX_BASE_USED c
      | _ \<Rightarrow> on_base i (\<lambda>b. b\<lparr>b_status := Some st\<rparr>) c)"

definition sqlx_base_move_to_list :: "time \<Rightarrow> nat \<Rightarrow> sqlx_base_status \<Rightarrow> sqlx_cache \<Rightarrow> sqlx_cache" where
  "sqlx_base_move_to_list now i st c =
     (if Some st \<noteq> b_status (bases c ! i)
      then sqlx_base_add_to_list now i st (sqlx_base_remove_from_list i c) else c)"

definition has_idle_unlocked :: "sqlx_cache \<Rightarrow> bool" where
  "has_idle_unlocked c \<longleftrightarrow>
     bfront (beacon_of c SQLX_BASE_IDLE) \<noteq> None \<or> bfront (beacon_of c SQLX_BASE_IDLE_HOT) \<noteq> None"

text \<open>\<^verbatim>\<open>sqlx_base_reserve\<close>: the error and the slot reserved, if any.\<close>

definition sqlx_base_reserve ::
  "cache_env \<Rightarrow> string \<Rightarrow> sqlx_cache \<Rightarrow> gerror \<times> nat option \<times> sqlx_cache" where
  "sqlx_base_reserve e hs c =
     (if bases_used c \<ge> bases_max_soft c
      then (if has_idle_unlocked c then (None, None, c) else (Some CODE_UNAVAILABLE, None, c))
      else case sqlx_get_by_id c (bfront (beacon_of c SQLX_BASE_FREE)) of
        None \<Rightarrow> (None, None, c)
      | Some i \<Rightarrow>
          let c1 = c\<lparr>bases_used := bases_used c + 1\<rparr>;
              c2 = on_base i (\<lambda>b. b\<lparr>b_name := Some hs, b_count_open := 1, b_handle := None,
                      b_owner := Some (c_self e)\<rparr>) c1;
              c3 = sqlx_base_move_to_list (c_now e) i SQLX_BASE_USED c2
          in (None, Some i, sqlx_save_id i c3))"

section \<open>Expiration of a base\<close>

text \<open>\<^verbatim>\<open>_expire_base\<close> up to the release of the lock and the call of the hook, then after it.\<close>

definition expire_base_begin :: "cache_env \<Rightarrow> bool \<Rightarrow> nat \<Rightarrow> sqlx_cache \<Rightarrow> sqlx_cache" where
  "expire_base_begin e deleted i c =
     (let hdl = b_handle (bases c ! i);
          c1 = sqlx_base_move_to_list (c_now e) i
                 (if deleted then SQLX_BASE_CLOSING_FOR_DELETION else SQLX_BASE_CLOSING) c
      in if close_hook c1 then c1\<lparr>hook_calls := hook_calls c1 @ [Close_hook hdl]\<rparr> else c1)"

definition expire_base_end :: "cache_env \<Rightarrow> nat \<Rightarrow> sqlx_cache \<Rightarrow> sqlx_cache" where
  "expire_base_end e i c =
     (let n = b_name (bases c ! i);
          c1 = on_base i (\<lambda>b. b\<lparr>b_handle := None, b_heat := 0, b_owner := None, b_name := None,
                  b_count_open := 0, b_last_update := 0\<rparr>) c;
          c2 = sqlx_base_move_to_list (c_now e) i SQLX_BASE_FREE c1
      in case n of None \<Rightarrow> c2 | Some n \<Rightarrow> c2\<lparr>bases_by_name := (bases_by_name c2)(n := None)\<rparr>)"

text \<open>The environment once the hook has returned.\<close>

abbreviation later :: "cache_env \<Rightarrow> cache_env" where
  "later e \<equiv> e\<lparr>c_now := c_end e\<rparr>"

text \<open>
  \<^verbatim>\<open>_expire_specific_base\<close> up to the call of the hook; \<open>None\<close> when the base is too recent
  and the function returns 0.
\<close>

definition expire_specific_begin ::
  "cache_env \<Rightarrow> time \<Rightarrow> time \<Rightarrow> nat \<Rightarrow> sqlx_cache \<Rightarrow> sqlx_cache option" where
  "expire_specific_begin e now grace_delay i c =
     (if now > 0 \<and> (grace_delay \<le> 0 \<or> b_last_update (bases c ! i) > OLDEST now grace_delay) then None
      else Some (expire_base_begin e False i
             (sqlx_base_move_to_list (c_now e) i SQLX_BASE_USED
                (on_base i (\<lambda>b. b\<lparr>b_owner := Some (c_self e)\<rparr>) c))))"

definition expire_first_idle_begin ::
  "cache_conf \<Rightarrow> cache_env \<Rightarrow> time \<Rightarrow> sqlx_cache \<Rightarrow> (nat \<times> sqlx_cache) option" where
  "expire_first_idle_begin conf e now c =
     (let try = (\<lambda>st grace_delay. case bback (beacon_of c st) of None \<Rightarrow> None
                 | Some i \<Rightarrow> map_option (Pair i) (expire_specific_begin e now grace_delay i c))
      in case try SQLX_BASE_IDLE (cache_grace_delay_cool conf) of
           Some r \<Rightarrow> Some r
         | None \<Rightarrow> try SQLX_BASE_IDLE_HOT (cache_grace_delay_hot conf))"

section \<open>Configuration and creation\<close>

definition sqlx_cache_reconfigure :: "cache_conf \<Rightarrow> sqlx_cache \<Rightarrow> sqlx_cache" where
  "sqlx_cache_reconfigure conf c =
     c\<lparr>bases_max_soft :=
         (if sqliterepo_repo_max_bases_soft conf > 0
          then CLAMP (sqliterepo_repo_max_bases_soft conf) 1 (bases_max_hard c)
          else bases_max_hard c)\<rparr>"

definition sqlx_cache_set_running :: "bool \<Rightarrow> sqlx_cache \<Rightarrow> sqlx_cache" where
  "sqlx_cache_set_running r c = c\<lparr>is_running := r\<rparr>"

definition sqlx_cache_set_unlock_hook :: "bool \<Rightarrow> sqlx_cache \<Rightarrow> sqlx_cache" where
  "sqlx_cache_set_unlock_hook h c = c\<lparr>unlock_hook := h\<rparr>"

definition sqlx_cache_set_close_hook :: "bool \<Rightarrow> sqlx_cache \<Rightarrow> sqlx_cache" where
  "sqlx_cache_set_close_hook h c = c\<lparr>close_hook := h\<rparr>"

definition sqlx_cache_set_last_memory_usage :: "int \<Rightarrow> sqlx_cache \<Rightarrow> sqlx_cache" where
  "sqlx_cache_set_last_memory_usage usage c = c\<lparr>last_memory_usage := usage\<rparr>"

definition sqlx_cache_init :: "cache_conf \<Rightarrow> cache_env \<Rightarrow> sqlx_cache" where
  "sqlx_cache_init conf e =
     (let hard = (if sqliterepo_repo_max_bases_hard conf \<noteq> 0
                  then sqliterepo_repo_max_bases_hard conf else 1024);
          rrd = grid_single_rrd_create (c_now e div G_TIME_SPAN_SECOND) 60;
          base = \<lparr>b_name = None, b_owner = None, b_handle = None, b_last_update = 0, b_heat = 0,
                  b_count_open = 0, b_count_waiting = 0, b_status = None,
                  b_open_attempts = rrd, b_open_wait_time = rrd\<rparr>;
          c = \<lparr>bases_by_name = (\<lambda>_. None), bases = replicate (unat hard) base,
               blinks = \<lparr>lprev = (\<lambda>_. None), lnext = (\<lambda>_. None)\<rparr>,
               bases_max_soft = CLAMP (sqliterepo_repo_max_bases_soft conf) 1 hard,
               bases_max_hard = hard, bases_used = 0, is_running = False, last_memory_usage = 0,
               beacon_of = (\<lambda>_. \<lparr>bfront = None, bback = None\<rparr>),
               unlock_hook = False, close_hook = False, hook_calls = []\<rparr>
      in (fold (\<lambda>i. SQLX_UNSHIFT (c_now e) i SQLX_BASE_FREE) (rev [0..<unat hard]) c)
           \<lparr>is_running := True\<rparr>)"

section \<open>Load of a base\<close>

text \<open>
  The two functions that read the load update the slots of the counters; \<open>None\<close> is an access out
  of them, or a division by zero.  \<^verbatim>\<open>_load_too_high\<close> returns its average in micro-seconds here:
  the conversion to a floating-point number of seconds only serves the messages.
\<close>

definition base_is_accessible ::
  "cache_conf \<Rightarrow> sqlx_base \<Rightarrow> time \<Rightarrow> guint64 \<Rightarrow> (sqlx_base \<times> bool) option" where
  "base_is_accessible conf b now period =
     (let p = CLAMP (period div 1000000) 1 60
      in map_option (\<lambda>(g, d). (b\<lparr>b_open_attempts := g\<rparr>,
              d \<ge> p * ucast (cache_min_load_on_heavy_load conf)))
           (grid_single_rrd_get_delta (b_open_attempts b) (now div G_TIME_SPAN_SECOND) (uint p)))"

definition load_too_high ::
  "cache_conf \<Rightarrow> sqlx_base \<Rightarrow> time \<Rightarrow> time \<Rightarrow> (sqlx_base \<times> time) option" where
  "load_too_high conf b now remaining_time =
     Option.bind (grid_single_rrd_get_delta (b_open_attempts b) (now div G_TIME_SPAN_SECOND) 10)
       (\<lambda>(ga, dx). Option.bind
          (grid_single_rrd_get_delta (b_open_wait_time b) (now div G_TIME_SPAN_SECOND) 10)
          (\<lambda>(gw, dt).
             let b1 = b\<lparr>b_open_attempts := ga, b_open_wait_time := gw\<rparr>
             in if dx \<ge> ucast (10 * cache_min_load_on_heavy_load conf)
                then if dx = 0 then None
                     else let avg = sint (dt div dx)
                          in Some (b1, if avg > remaining_time then avg else 0)
                else Some (b1, 0)))"

end
