(* ===== verification/Cache_Inv.thy ===== *)
theory Cache_Inv
  imports Cache "HOL-Library.Multiset"
begin

text \<open>
  The invariant of the cache of bases: the lists agree with the statuses, the tree with the
  names, the number of used slots with the slots that are not free, and the owner and the counts
  of each slot with the threads that opened it, close it and wait for it.
\<close>

section \<open>The lists\<close>

definition listed :: "sqlx_base_status \<Rightarrow> bool" where
  "listed st \<longleftrightarrow> st \<noteq> SQLX_BASE_CLOSING \<and> st \<noteq> SQLX_BASE_CLOSING_FOR_DELETION"

definition lists_rep :: "sqlx_cache \<Rightarrow> (sqlx_base_status \<Rightarrow> nat list) \<Rightarrow> bool" where
  "lists_rep c f \<longleftrightarrow>
     fam_rep (blinks c) (beacon_of c) f \<and> (\<forall>st. \<forall>i\<in>set (f st). i < unat (bases_max_hard c))"

abbreviation slot_in :: "sqlx_cache \<Rightarrow> nat \<Rightarrow> bool" where
  "slot_in c i \<equiv> i < unat (bases_max_hard c)"

lemma get_by_id_in: "slot_in c i \<Longrightarrow> sqlx_get_by_id c (Some i) = Some i"
  by (simp add: sqlx_get_by_id_def base_id_out_def)

lemma get_by_id_None [simp]: "sqlx_get_by_id c None = None"
  by (simp add: sqlx_get_by_id_def)

lemma get_by_id_all:
  assumes "\<And>j. i = Some j \<Longrightarrow> slot_in c j"
  shows "sqlx_get_by_id c i = i"
  using assms by (cases i) (auto simp: get_by_id_in)

text \<open>In a family of lists every link leads to a node of a list.\<close>

lemma deque_links_in:
  assumes "is_deque l b xs" "x \<in> set xs"
  shows "lnext l x = Some y \<Longrightarrow> y \<in> set xs" "lprev l x = Some y \<Longrightarrow> y \<in> set xs"
proof -
  from assms(2) obtain ys zs where xs: "xs = ys @ x # zs" by (meson split_list)
  with is_deque_mid [of l b ys x zs] assms(1)
  show "lnext l x = Some y \<Longrightarrow> y \<in> set xs" "lprev l x = Some y \<Longrightarrow> y \<in> set xs"
    by (metis Un_iff hd_opt_SomeD last_opt_SomeD list.set_intros(2) set_append)+
qed

lemma fam_links_in:
  assumes "fam_rep l B f"
  shows "lnext l x = Some y \<Longrightarrow> \<exists>q. y \<in> set (f q)" "lprev l x = Some y \<Longrightarrow> \<exists>q. y \<in> set (f q)"
  using deque_links_in [OF fam_deque [OF assms], of x] fam_clean [OF assms, of x]
  by (metis clean_node_def option.distinct(1))+

lemma lists_links:
  assumes "lists_rep c f"
  shows "sqlx_get_by_id c (lnext (blinks c) x) = lnext (blinks c) x"
    "sqlx_get_by_id c (lprev (blinks c) x) = lprev (blinks c) x"
    "sqlx_get_by_id c (bfront (beacon_of c st)) = bfront (beacon_of c st)"
    "sqlx_get_by_id c (bback (beacon_of c st)) = bback (beacon_of c st)"
proof -
  from assms have fam: "fam_rep (blinks c) (beacon_of c) f"
    and rng: "\<And>st i. i \<in> set (f st) \<Longrightarrow> slot_in c i"
    by (auto simp: lists_rep_def)
  show "sqlx_get_by_id c (lnext (blinks c) x) = lnext (blinks c) x"
    "sqlx_get_by_id c (lprev (blinks c) x) = lprev (blinks c) x"
    by (rule get_by_id_all, use fam_links_in [OF fam, of x] rng in blast)+
  show "sqlx_get_by_id c (bfront (beacon_of c st)) = bfront (beacon_of c st)"
    "sqlx_get_by_id c (bback (beacon_of c st)) = bback (beacon_of c st)"
    by (rule get_by_id_all, metis fam_deque [OF fam] is_deque_front is_deque_back rng hd_opt_SomeD
        last_opt_SomeD)+
qed

lemma on_base_simps [simp]:
  "blinks (on_base i f c) = blinks c" "beacon_of (on_base i f c) = beacon_of c"
  "bases_by_name (on_base i f c) = bases_by_name c" "bases_used (on_base i f c) = bases_used c"
  "bases_max_hard (on_base i f c) = bases_max_hard c"
  "bases_max_soft (on_base i f c) = bases_max_soft c"
  "is_running (on_base i f c) = is_running c"
  "last_memory_usage (on_base i f c) = last_memory_usage c"
  "unlock_hook (on_base i f c) = unlock_hook c" "close_hook (on_base i f c) = close_hook c"
  "hook_calls (on_base i f c) = hook_calls c"
  "bases (on_base i f c) = (bases c)[i := f (bases c ! i)]"
  by (simp_all add: on_base_def)

lemma REMOVE_links:
  assumes "lists_rep c f" "slot_in c i"
  shows "blinks (SQLX_REMOVE i st c) = unlink_links i (blinks c)"
    "beacon_of (SQLX_REMOVE i st c) = (beacon_of c)(st := unlink_beacon i (blinks c) (beacon_of c st))"
  using lists_links [OF assms(1)] get_by_id_in [OF assms(2)]
  by (auto simp: SQLX_REMOVE_def Let_def unlink_links_def unlink_beacon_def sqlx_next_by_id_def
      sqlx_prev_by_id_def set_next_def set_prev_def fun_eq_iff split: option.splits)

lemma UNSHIFT_links:
  assumes "lists_rep c f"
  shows "blinks (SQLX_UNSHIFT now i st c) = push_front_links i (beacon_of c st) (blinks c)"
    "beacon_of (SQLX_UNSHIFT now i st c) = (beacon_of c)(st := push_front_beacon i (beacon_of c st))"
  using lists_links(3) [OF assms, of st]
  by (auto simp: SQLX_UNSHIFT_def Let_def push_front_links_def push_front_beacon_def
      set_next_def set_prev_def fun_eq_iff split: option.splits)

lemma REMOVE_simps [simp]:
  "bases_max_hard (SQLX_REMOVE i st c) = bases_max_hard c"
  "bases_max_soft (SQLX_REMOVE i st c) = bases_max_soft c"
  "bases_by_name (SQLX_REMOVE i st c) = bases_by_name c"
  "bases_used (SQLX_REMOVE i st c) = bases_used c"
  "is_running (SQLX_REMOVE i st c) = is_running c"
  "last_memory_usage (SQLX_REMOVE i st c) = last_memory_usage c"
  "unlock_hook (SQLX_REMOVE i st c) = unlock_hook c" "close_hook (SQLX_REMOVE i st c) = close_hook c"
  "hook_calls (SQLX_REMOVE i st c) = hook_calls c"
  "bases (SQLX_REMOVE i st c) = (bases c)[i := (bases c ! i)\<lparr>b_status := None\<rparr>]"
  by (simp_all add: SQLX_REMOVE_def Let_def)

lemma UNSHIFT_simps [simp]:
  "bases_max_hard (SQLX_UNSHIFT now i st c) = bases_max_hard c"
  "bases_max_soft (SQLX_UNSHIFT now i st c) = bases_max_soft c"
  "bases_by_name (SQLX_UNSHIFT now i st c) = bases_by_name c"
  "bases_used (SQLX_UNSHIFT now i st c) = bases_used c"
  "is_running (SQLX_UNSHIFT now i st c) = is_running c"
  "last_memory_usage (SQLX_UNSHIFT now i st c) = last_memory_usage c"
  "unlock_hook (SQLX_UNSHIFT now i st c) = unlock_hook c"
  "close_hook (SQLX_UNSHIFT now i st c) = close_hook c"
  "hook_calls (SQLX_UNSHIFT now i st c) = hook_calls c"
  "bases (SQLX_UNSHIFT now i st c)
     = (bases c)[i := (bases c ! i)\<lparr>b_status := Some st, b_last_update := now\<rparr>]"
  by (simp_all add: SQLX_UNSHIFT_def Let_def)

interpretation blists: deque_family lists_rep slot_in "\<lambda>st i. SQLX_REMOVE i st"
  "\<lambda>st i. SQLX_UNSHIFT now i st" "(#)" for now
proof
  show "distinct (f st)" if "lists_rep c f" for c f st
    using that by (auto simp: lists_rep_def intro: fam_distinct)
  show "set (f st) \<inter> set (f st') = {}" if "lists_rep c f" "st \<noteq> st'" for c f st st'
    using that fam_disjoint by (metis lists_rep_def)
  show "slot_in c i" if "lists_rep c f" "i \<in> set (f st)" for c f i st
    using that by (auto simp: lists_rep_def)
  show "lists_rep (SQLX_REMOVE i st c) (f(st := remove1 i (f st)))"
    if "lists_rep c f" "i \<in> set (f st)" for c f i st
  proof -
    from that have "slot_in c i" by (auto simp: lists_rep_def)
    note links = REMOVE_links [OF that(1) this, of st]
    from that have "fam_rep (blinks c) (beacon_of c) f" by (simp add: lists_rep_def)
    from fam_unlink [OF this that(2)] links
    have "fam_rep (blinks (SQLX_REMOVE i st c)) (beacon_of (SQLX_REMOVE i st c)) (f(st := remove1 i (f st)))"
      by simp
    moreover have "j < unat (bases_max_hard (SQLX_REMOVE i st c))"
      if "j \<in> set ((f(st := remove1 i (f st))) st')" for j st'
      using that \<open>lists_rep c f\<close> set_remove1_subset [of i "f st"]
      by (auto simp: lists_rep_def split: if_splits)
    ultimately show ?thesis by (simp add: lists_rep_def)
  qed
  show "lists_rep (SQLX_UNSHIFT now i st c) (f(st := i # f st))"
    if "lists_rep c f" "slot_in c i" "\<And>st'. i \<notin> set (f st')" for c f i st
    using that fam_push_front [of "blinks c" "beacon_of c" f i st] UNSHIFT_links [OF that(1), of now i st]
    by (auto simp: lists_rep_def split: if_splits)
qed auto

section \<open>Moving a slot\<close>

definition cache_wf :: "(sqlx_base_status \<Rightarrow> nat list) \<Rightarrow> sqlx_cache \<Rightarrow> bool" where
  "cache_wf f c \<longleftrightarrow>
     length (bases c) = unat (bases_max_hard c) \<and> lists_rep c f \<and>
     (\<forall>i st. i \<in> set (f st) \<longleftrightarrow> slot_in c i \<and> listed st \<and> b_status (bases c ! i) = Some st)"

definition lists_move ::
  "sqlx_base_status \<Rightarrow> sqlx_base_status \<Rightarrow> nat \<Rightarrow> (sqlx_base_status \<Rightarrow> nat list)
     \<Rightarrow> sqlx_base_status \<Rightarrow> nat list" where
  "lists_move st0 st i f =
     (if st0 = st then f
      else let g = (if listed st0 then f(st0 := remove1 i (f st0)) else f)
           in if listed st then g(st := i # g st) else g)"

definition moved :: "time \<Rightarrow> sqlx_base_status \<Rightarrow> sqlx_base \<Rightarrow> sqlx_base" where
  "moved now st b =
     (if b_status b = Some st then b
      else if listed st then b\<lparr>b_status := Some st, b_last_update := now\<rparr>
      else b\<lparr>b_status := Some st\<rparr>)"

lemma cache_wf_cong:
  assumes "cache_wf f c" "bases_max_hard c' = bases_max_hard c" "blinks c' = blinks c"
    "beacon_of c' = beacon_of c" "map b_status (bases c') = map b_status (bases c)"
  shows "cache_wf f c'"
proof -
  from assms(5) have "length (bases c') = length (bases c)" by (rule map_eq_imp_length_eq)
  moreover from assms(5) have "b_status (bases c' ! i) = b_status (bases c ! i)" if "i < length (bases c)" for i
    using that calculation by (metis nth_map)
  ultimately show ?thesis
    using assms(1-4) by (auto simp: cache_wf_def lists_rep_def)
qed

lemma cache_wf_slot: "cache_wf f c \<Longrightarrow> slot_in c i \<longleftrightarrow> i < length (bases c)"
  by (simp add: cache_wf_def)

lemma cache_wf_in:
  "cache_wf f c \<Longrightarrow> i \<in> set (f st) \<longleftrightarrow> slot_in c i \<and> listed st \<and> b_status (bases c ! i) = Some st"
  by (simp add: cache_wf_def)

text \<open>\<open>pre_wf f i c\<close>: as \<^const>\<open>cache_wf\<close>, the slot \<open>i\<close> being in no list.\<close>

definition pre_wf :: "(sqlx_base_status \<Rightarrow> nat list) \<Rightarrow> nat \<Rightarrow> sqlx_cache \<Rightarrow> bool" where
  "pre_wf f i c \<longleftrightarrow>
     length (bases c) = unat (bases_max_hard c) \<and> lists_rep c f \<and> slot_in c i \<and>
     (\<forall>j st. j \<in> set (f st) \<longleftrightarrow> j \<noteq> i \<and> slot_in c j \<and> listed st \<and> b_status (bases c ! j) = Some st)"

lemma REMOVE_pre:
  assumes "cache_wf f c" "slot_in c i" "b_status (bases c ! i) = Some st" "listed st"
  shows "pre_wf (f(st := remove1 i (f st))) i (SQLX_REMOVE i st c)"
proof -
  from assms have rep: "lists_rep c f" and i: "i \<in> set (f st)"
    by (auto simp: cache_wf_def)
  have "j \<in> set ((f(st := remove1 i (f st))) st') \<longleftrightarrow>
      j \<noteq> i \<and> slot_in c j \<and> listed st' \<and> b_status (bases c ! j) = Some st'" for j st'
    using assms blists.rep_distinct [OF rep, of st] cache_wf_in [OF assms(1), of j]
    by (cases "st' = st") (auto simp: set_remove1_eq)
  moreover have "b_status ((bases c)[i := (bases c ! i)\<lparr>b_status := None\<rparr>] ! j) = b_status (bases c ! j)"
    if "j \<noteq> i" for j using that by simp
  ultimately show ?thesis
    using blists.remove_rep [OF rep i] assms(1,2) unfolding pre_wf_def
    by (simp add: cache_wf_def cong: conj_cong)
qed

lemma UNSHIFT_wf:
  assumes "pre_wf f i c" "listed st"
  shows "cache_wf (f(st := i # f st)) (SQLX_UNSHIFT now i st c)"
proof -
  from assms have rep: "lists_rep c f" and i: "slot_in c i" "\<And>r. i \<notin> set (f r)"
    by (auto simp: pre_wf_def)
  from assms have "j \<in> set ((f(st := i # f st)) st') \<longleftrightarrow> slot_in c j \<and> listed st' \<and>
      b_status ((bases c)[i := (bases c ! i)\<lparr>b_status := Some st, b_last_update := now\<rparr>] ! j) = Some st'"
    for j st'
    by (cases "j = i"; cases "st' = st") (auto simp: pre_wf_def)
  with blists.add_rep [OF rep i] assms(1) show ?thesis
    by (simp add: cache_wf_def pre_wf_def)
qed

lemma REMOVE_any:
  assumes "cache_wf f c" "slot_in c i" "b_status (bases c ! i) = Some st"
  shows "pre_wf (if listed st then f(st := remove1 i (f st)) else f) i (sqlx_base_remove_from_list i c)"
    "bases (sqlx_base_remove_from_list i c)
       = (bases c)[i := if listed st then (bases c ! i)\<lparr>b_status := None\<rparr> else bases c ! i]"
  using REMOVE_pre [OF assms] assms
  by (cases st; auto simp: sqlx_base_remove_from_list_def listed_def pre_wf_def cache_wf_def)+

lemma ADD_any:
  assumes "pre_wf f i c"
  shows "cache_wf (if listed st then f(st := i # f st) else f) (sqlx_base_add_to_list now i st c)"
    "bases (sqlx_base_add_to_list now i st c)
       = (bases c)[i := if listed st then (bases c ! i)\<lparr>b_status := Some st, b_last_update := now\<rparr>
                        else (bases c ! i)\<lparr>b_status := Some st\<rparr>]"
proof -
  have "pre_wf f i (c\<lparr>bases_used := n\<rparr>)" for n
    using assms by (simp add: pre_wf_def lists_rep_def)
  from UNSHIFT_wf [OF this, of SQLX_BASE_FREE]
  have free: "cache_wf (f(SQLX_BASE_FREE := i # f SQLX_BASE_FREE))
      (SQLX_UNSHIFT now i SQLX_BASE_FREE (c\<lparr>bases_used := n\<rparr>))" for n
    by (simp add: listed_def)
  show "cache_wf (if listed st then f(st := i # f st) else f) (sqlx_base_add_to_list now i st c)"
  proof (cases "listed st")
    case True
    with UNSHIFT_wf [OF assms True, of now] free show ?thesis
      by (cases st) (simp_all add: sqlx_base_add_to_list_def listed_def)
  next
    case False
    with assms have "cache_wf f (on_base i (\<lambda>b. b\<lparr>b_status := Some st\<rparr>) c)"
      by (simp add: cache_wf_def pre_wf_def lists_rep_def nth_list_update) metis
    with False show ?thesis by (cases st) (simp_all add: sqlx_base_add_to_list_def listed_def)
  qed
  show "bases (sqlx_base_add_to_list now i st c)
       = (bases c)[i := if listed st then (bases c ! i)\<lparr>b_status := Some st, b_last_update := now\<rparr>
                        else (bases c ! i)\<lparr>b_status := Some st\<rparr>]"
    by (cases st) (simp_all add: sqlx_base_add_to_list_def listed_def)
qed

lemma move_wf:
  assumes "cache_wf f c" "slot_in c i" "b_status (bases c ! i) = Some st0"
  shows "cache_wf (lists_move st0 st i f) (sqlx_base_move_to_list now i st c)"
  using ADD_any(1) [OF REMOVE_any(1) [OF assms], of st now] assms
  by (auto simp: sqlx_base_move_to_list_def lists_move_def Let_def)

lemma move_bases:
  assumes "cache_wf f c" "slot_in c i" "b_status (bases c ! i) = Some st0"
  shows "bases (sqlx_base_move_to_list now i st c) = (bases c)[i := moved now st (bases c ! i)]"
  using ADD_any(2) [OF REMOVE_any(1) [OF assms], of now st] REMOVE_any(2) [OF assms] assms
  by (auto simp: sqlx_base_move_to_list_def moved_def cache_wf_def)

lemma move_used:
  "bases_used (sqlx_base_move_to_list now i st c)
     = (if st = SQLX_BASE_FREE \<and> b_status (bases c ! i) \<noteq> Some SQLX_BASE_FREE
        then bases_used c - 1 else bases_used c)"
  by (simp add: sqlx_base_move_to_list_def sqlx_base_add_to_list_def sqlx_base_remove_from_list_def
      split: sqlx_base_status.split option.split)

lemma move_simps [simp]:
  "bases_max_hard (sqlx_base_move_to_list now i st c) = bases_max_hard c"
  "bases_max_soft (sqlx_base_move_to_list now i st c) = bases_max_soft c"
  "bases_by_name (sqlx_base_move_to_list now i st c) = bases_by_name c"
  "is_running (sqlx_base_move_to_list now i st c) = is_running c"
  "last_memory_usage (sqlx_base_move_to_list now i st c) = last_memory_usage c"
  "unlock_hook (sqlx_base_move_to_list now i st c) = unlock_hook c"
  "close_hook (sqlx_base_move_to_list now i st c) = close_hook c"
  "hook_calls (sqlx_base_move_to_list now i st c) = hook_calls c"
  by (cases st; simp add: sqlx_base_move_to_list_def sqlx_base_add_to_list_def
      sqlx_base_remove_from_list_def split: sqlx_base_status.split option.split)+

lemma moved_simps [simp]:
  "b_status (moved now st b) = Some st" "b_name (moved now st b) = b_name b"
  "b_owner (moved now st b) = b_owner b" "b_handle (moved now st b) = b_handle b"
  "b_heat (moved now st b) = b_heat b" "b_count_open (moved now st b) = b_count_open b"
  "b_count_waiting (moved now st b) = b_count_waiting b"
  "b_open_attempts (moved now st b) = b_open_attempts b"
  "b_open_wait_time (moved now st b) = b_open_wait_time b"
  by (simp_all add: moved_def)

end
