(* ===== verification/Cache_Steps.thy ===== *)
theory Cache_Steps
  imports Cache_Inv
begin

text \<open>
  The invariant of the cache of bases with its users, and its preservation by every critical
  section.
\<close>

section \<open>The invariant\<close>

lemma unat_Suc_less:
  assumes "x < (y :: 'a :: len word)"
  shows "unat (x + 1) = unat x + 1"
proof -
  from assms have "unat x < unat y" by (simp add: word_less_nat_alt)
  moreover have "unat y < 2 ^ LENGTH('a)" by (rule unsigned_less)
  ultimately have "Suc (unat x) < 2 ^ LENGTH('a)" by linarith
  then show ?thesis by (cases "LENGTH('a) = 1") (simp_all add: unat_word_ariths)
qed

text \<open>
  The threads around each slot: those that opened its base (one occurrence per opening), the one
  that closes it, and the number of those that wait for it.
\<close>

record holders =
  h_users :: "nat \<Rightarrow> gthread multiset"
  h_closers :: "nat \<Rightarrow> gthread multiset"
  h_waiters :: "nat \<Rightarrow> nat"

definition slot_ok :: "gthread multiset \<Rightarrow> gthread multiset \<Rightarrow> nat \<Rightarrow> sqlx_base \<Rightarrow> bool" where
  "slot_ok users closers waiters b \<longleftrightarrow>
     rrd_wf 60 (b_open_attempts b) \<and> rrd_wf 60 (b_open_wait_time b) \<and>
     b_count_waiting b = of_nat waiters \<and>
     (case b_status b of
        None \<Rightarrow> False
      | Some SQLX_BASE_FREE \<Rightarrow> b_name b = None \<and> b_owner b = None \<and> b_count_open b = 0 \<and>
          users = {#} \<and> closers = {#}
      | Some SQLX_BASE_USED \<Rightarrow> b_name b \<noteq> None \<and> b_count_open b \<noteq> 0 \<and> closers = {#} \<and>
          (\<exists>t. b_owner b = Some t \<and> users = replicate_mset (unat (b_count_open b)) t)
      | Some SQLX_BASE_CLOSING \<Rightarrow> b_name b \<noteq> None \<and> b_count_open b = 0 \<and> users = {#} \<and>
          (\<exists>t. b_owner b = Some t \<and> closers = {#t#})
      | Some SQLX_BASE_CLOSING_FOR_DELETION \<Rightarrow> b_name b \<noteq> None \<and> b_count_open b = 0 \<and> users = {#} \<and>
          (\<exists>t. b_owner b = Some t \<and> closers = {#t#})
      | Some _ \<Rightarrow> b_name b \<noteq> None \<and> b_owner b = None \<and> b_count_open b = 0 \<and>
          users = {#} \<and> closers = {#})"

abbreviation slot_holds :: "holders \<Rightarrow> nat \<Rightarrow> sqlx_base \<Rightarrow> bool" where
  "slot_holds G i \<equiv> slot_ok (h_users G i) (h_closers G i) (h_waiters G i)"

definition names_ok :: "sqlx_cache \<Rightarrow> bool" where
  "names_ok c \<longleftrightarrow>
     (\<forall>n i. bases_by_name c n = Some i \<longleftrightarrow> slot_in c i \<and> b_name (bases c ! i) = Some n)"

definition busy :: "sqlx_base \<Rightarrow> nat" where
  "busy b = of_bool (b_status b \<noteq> Some SQLX_BASE_FREE)"

definition cache_inv :: "(sqlx_base_status \<Rightarrow> nat list) \<Rightarrow> holders \<Rightarrow> sqlx_cache \<Rightarrow> bool" where
  "cache_inv f G c \<longleftrightarrow>
     cache_wf f c \<and> bases_max_soft c \<le> bases_max_hard c \<and>
     (\<forall>i. slot_in c i \<longrightarrow> slot_holds G i (bases c ! i)) \<and>
     (\<forall>i. \<not> slot_in c i \<longrightarrow> h_users G i = {#} \<and> h_closers G i = {#} \<and> h_waiters G i = 0) \<and>
     names_ok c \<and> unat (bases_used c) = sum_list (map busy (bases c))"

lemma inv_wf: "cache_inv f G c \<Longrightarrow> cache_wf f c"
  by (simp add: cache_inv_def)

lemma inv_slot_ok: "cache_inv f G c \<Longrightarrow> slot_in c i \<Longrightarrow> slot_holds G i (bases c ! i)"
  by (simp add: cache_inv_def)

lemma inv_length: "cache_inv f G c \<Longrightarrow> length (bases c) = unat (bases_max_hard c)"
  by (simp add: cache_inv_def cache_wf_def)

lemma inv_lookup:
  "cache_inv f G c \<Longrightarrow> bases_by_name c n = Some i \<Longrightarrow> slot_in c i \<and> b_name (bases c ! i) = Some n"
  by (simp add: cache_inv_def names_ok_def)

lemma inv_names:
  "cache_inv f G c \<Longrightarrow> bases_by_name c n = Some i \<longleftrightarrow> slot_in c i \<and> b_name (bases c ! i) = Some n"
  by (simp add: cache_inv_def names_ok_def)

lemma sum_busy_update:
  "i < length bs \<Longrightarrow>
     sum_list (map busy (bs[i := b])) + busy (bs ! i) = sum_list (map busy bs) + busy b"
  using elem_le_sum_list [of i "map busy bs"] by (simp add: map_update sum_list_update)

text \<open>A section that changes one slot.\<close>

lemma inv_update:
  assumes inv: "cache_inv f G c" and i: "slot_in c i" and wf: "cache_wf f' c'"
    and hard: "bases_max_hard c' = bases_max_hard c" and soft: "bases_max_soft c' = bases_max_soft c"
    and bases: "bases c' = (bases c)[i := b]" and ok: "slot_holds G' i b"
    and others: "\<And>j. j \<noteq> i \<Longrightarrow> h_users G' j = h_users G j \<and> h_closers G' j = h_closers G j
      \<and> h_waiters G' j = h_waiters G j"
    and names: "names_ok c'"
    and used: "unat (bases_used c') + busy (bases c ! i) = unat (bases_used c) + busy b"
  shows "cache_inv f' G' c'"
proof -
  have len: "i < length (bases c)" using inv_length [OF inv] i by simp
  have "slot_holds G' j (bases c' ! j)" if "slot_in c j" for j
    using that inv_slot_ok [OF inv that] ok others [of j] len bases by (cases "j = i") simp_all
  moreover have "h_users G' j = {#} \<and> h_closers G' j = {#} \<and> h_waiters G' j = 0" if "\<not> slot_in c j" for j
    using that inv others [of j] i by (cases "j = i") (auto simp: cache_inv_def)
  moreover have "unat (bases_used c') = sum_list (map busy (bases c'))"
    using sum_busy_update [OF len, of b] used inv bases by (simp add: cache_inv_def)
  ultimately show ?thesis
    using wf names hard soft inv by (simp add: cache_inv_def)
qed

lemma names_same:
  assumes "cache_inv f G c" "bases_by_name c' = bases_by_name c" "bases_max_hard c' = bases_max_hard c"
    "bases c' = (bases c)[i := b]" "b_name b = b_name (bases c ! i)"
  shows "names_ok c'"
proof -
  have "b_name (bases c' ! j) = b_name (bases c ! j)" if "slot_in c j" for j
    using assms(4,5) that inv_length [OF assms(1)] by (cases "j = i") simp_all
  then show ?thesis using assms(1-3) by (auto simp: cache_inv_def names_ok_def)
qed

lemma inv_on_base:
  assumes inv: "cache_inv f G c" and i: "slot_in c i"
    and st: "b_status (g (bases c ! i)) = b_status (bases c ! i)"
    and nm: "b_name (g (bases c ! i)) = b_name (bases c ! i)"
    and ok: "slot_holds G' i (g (bases c ! i))"
    and others: "\<And>j. j \<noteq> i \<Longrightarrow> h_users G' j = h_users G j \<and> h_closers G' j = h_closers G j
      \<and> h_waiters G' j = h_waiters G j"
  shows "cache_inv f G' (on_base i g c)"
proof (rule inv_update [OF inv i _ _ _ _ ok others])
  show "cache_wf f (on_base i g c)"
    by (rule cache_wf_cong [OF inv_wf [OF inv]])
      (use st inv_length [OF inv] i in \<open>simp_all add: map_update, metis list_update_id length_map nth_map\<close>)
  show "names_ok (on_base i g c)"
    by (rule names_same [OF inv, where i = i and b = "g (bases c ! i)"]) (simp_all add: nm)
qed (simp_all add: busy_def st)

lemma inv_move:
  assumes inv: "cache_inv f G c" and i: "slot_in c i" and st: "b_status (bases c ! i) = Some st0"
    and d: "bases d = (bases c)[i := b]" "b_status b = Some st0" "blinks d = blinks c"
      "beacon_of d = beacon_of c" "bases_max_hard d = bases_max_hard c"
  shows "cache_wf (lists_move st0 st i f) (sqlx_base_move_to_list now i st d)"
    "bases (sqlx_base_move_to_list now i st d) = (bases c)[i := moved now st b]"
proof -
  have len: "i < length (bases c)" using inv_length [OF inv] i by simp
  have wf: "cache_wf f d"
    by (rule cache_wf_cong [OF inv_wf [OF inv]])
      (use d st len in \<open>simp_all add: map_update, metis list_update_id length_map nth_map\<close>)
  moreover have "slot_in d i" "b_status (bases d ! i) = Some st0" using d i len by simp_all
  ultimately show "cache_wf (lists_move st0 st i f) (sqlx_base_move_to_list now i st d)"
    "bases (sqlx_base_move_to_list now i st d) = (bases c)[i := moved now st b]"
    using move_wf [of f d i st0 st now] move_bases [of f d i st0 now st] d len by simp_all
qed

section \<open>Reservation\<close>

text \<open>The holders after a thread opened, closes or released a slot.\<close>

definition add_user :: "gthread \<Rightarrow> nat \<Rightarrow> holders \<Rightarrow> holders" where
  "add_user t i G = G\<lparr>h_users := (h_users G)(i := add_mset t (h_users G i))\<rparr>"

definition del_user :: "gthread \<Rightarrow> nat \<Rightarrow> holders \<Rightarrow> holders" where
  "del_user t i G = G\<lparr>h_users := (h_users G)(i := h_users G i - {#t#})\<rparr>"

definition add_closer :: "gthread \<Rightarrow> nat \<Rightarrow> holders \<Rightarrow> holders" where
  "add_closer t i G = G\<lparr>h_closers := (h_closers G)(i := add_mset t (h_closers G i))\<rparr>"

definition del_closer :: "gthread \<Rightarrow> nat \<Rightarrow> holders \<Rightarrow> holders" where
  "del_closer t i G = G\<lparr>h_closers := (h_closers G)(i := h_closers G i - {#t#})\<rparr>"

definition set_waiters :: "nat \<Rightarrow> nat \<Rightarrow> holders \<Rightarrow> holders" where
  "set_waiters i n G = G\<lparr>h_waiters := (h_waiters G)(i := n)\<rparr>"

lemmas holder_defs = add_user_def del_user_def add_closer_def del_closer_def set_waiters_def

lemma slot_FREE:
  "slot_ok us cs w b \<Longrightarrow> b_status b = Some SQLX_BASE_FREE \<Longrightarrow>
     b_name b = None \<and> b_owner b = None \<and> b_count_open b = 0 \<and> us = {#} \<and> cs = {#}"
  by (simp add: slot_ok_def)

lemma slot_idle:
  "slot_ok us cs w b \<Longrightarrow> b_status b = Some SQLX_BASE_IDLE \<or> b_status b = Some SQLX_BASE_IDLE_HOT \<Longrightarrow>
     b_name b \<noteq> None \<and> b_owner b = None \<and> b_count_open b = 0 \<and> us = {#} \<and> cs = {#}"
  by (auto simp: slot_ok_def)

lemma slot_USED:
  "slot_ok us cs w b \<Longrightarrow> b_status b = Some SQLX_BASE_USED \<Longrightarrow>
     b_name b \<noteq> None \<and> b_count_open b \<noteq> 0 \<and> cs = {#} \<and>
       (\<exists>t. b_owner b = Some t \<and> us = replicate_mset (unat (b_count_open b)) t)"
  by (simp add: slot_ok_def)

lemma slot_closing:
  "slot_ok us cs w b \<Longrightarrow>
     b_status b = Some SQLX_BASE_CLOSING \<or> b_status b = Some SQLX_BASE_CLOSING_FOR_DELETION \<Longrightarrow>
     b_name b \<noteq> None \<and> b_count_open b = 0 \<and> us = {#} \<and> (\<exists>t. b_owner b = Some t \<and> cs = {#t#})"
  by (auto simp: slot_ok_def)

lemma slot_status: "slot_ok us cs w b \<Longrightarrow> b_status b \<noteq> None"
  by (cases "b_status b") (simp_all add: slot_ok_def)

lemma inv_used_le: "cache_inv f G c \<Longrightarrow> unat (bases_used c) \<le> unat (bases_max_hard c)"
proof -
  assume inv: "cache_inv f G c"
  have "sum_list (map busy bs) \<le> length bs" for bs
    by (induction bs) (auto simp: busy_def)
  with inv inv_length [OF inv] show ?thesis by (metis cache_inv_def)
qed

lemma free_slot_left:
  assumes inv: "cache_inv f G c" and lt: "bases_used c < bases_max_soft c"
  shows "\<exists>i. bfront (beacon_of c SQLX_BASE_FREE) = Some i \<and> slot_in c i \<and>
    b_status (bases c ! i) = Some SQLX_BASE_FREE"
proof -
  from inv lt have "unat (bases_used c) < unat (bases_max_hard c)"
    by (simp add: cache_inv_def word_less_nat_alt word_le_nat_alt)
  then have "sum_list (map busy (bases c)) < length (bases c)"
    using inv inv_length [OF inv] by (simp add: cache_inv_def)
  moreover have "sum_list (map busy bs) = length bs" if "\<forall>b\<in>set bs. b_status b \<noteq> Some SQLX_BASE_FREE" for bs
    using that by (induction bs) (auto simp: busy_def)
  ultimately obtain b where "b \<in> set (bases c)" "b_status b = Some SQLX_BASE_FREE" by fastforce
  then obtain j where "slot_in c j" "b_status (bases c ! j) = Some SQLX_BASE_FREE"
    using inv_length [OF inv] by (metis in_set_conv_nth)
  then have "j \<in> set (f SQLX_BASE_FREE)"
    using cache_wf_in [OF inv_wf [OF inv]] by (simp add: listed_def)
  then obtain i where "hd_opt (f SQLX_BASE_FREE) = Some i" "i \<in> set (f SQLX_BASE_FREE)"
    by (cases "f SQLX_BASE_FREE") auto
  moreover have "bfront (beacon_of c SQLX_BASE_FREE) = hd_opt (f SQLX_BASE_FREE)"
    using inv_wf [OF inv] by (auto simp: cache_wf_def lists_rep_def dest: fam_deque is_deque_front)
  ultimately show ?thesis using cache_wf_in [OF inv_wf [OF inv]] by metis
qed

lemma inv_reserve:
  assumes inv: "cache_inv f G c" and new: "bases_by_name c hs = None"
    and r: "sqlx_base_reserve e hs c = (err, res, c')"
  shows "(\<exists>i f'. err = None \<and> res = Some i \<and> slot_in c i \<and> cache_inv f' (add_user (c_self e) i G) c' \<and>
      bases c' = (bases c)[i := bases c' ! i] \<and>
      b_name (bases c' ! i) = Some hs \<and> bases_max_hard c' = bases_max_hard c \<and>
      b_status (bases c ! i) = Some SQLX_BASE_FREE)
    \<or> (res = None \<and> c' = c \<and> (err = None \<longrightarrow> has_idle_unlocked c) \<and> bases_max_soft c \<le> bases_used c)"
proof (cases "bases_used c < bases_max_soft c")
  case False
  with r show ?thesis by (auto simp: sqlx_base_reserve_def split: if_splits)
next
  case True
  obtain i where i: "bfront (beacon_of c SQLX_BASE_FREE) = Some i" "slot_in c i"
      "b_status (bases c ! i) = Some SQLX_BASE_FREE"
    using free_slot_left [OF inv True] by auto
  let ?b = "(bases c ! i)\<lparr>b_name := Some hs, b_count_open := 1, b_handle := None, b_owner := Some (c_self e)\<rparr>"
  let ?c1 = "on_base i (\<lambda>b. b\<lparr>b_name := Some hs, b_count_open := 1, b_handle := None,
      b_owner := Some (c_self e)\<rparr>) (c\<lparr>bases_used := bases_used c + 1\<rparr>)"
  let ?c2 = "sqlx_base_move_to_list (c_now e) i SQLX_BASE_USED ?c1"
  let ?m = "moved (c_now e) SQLX_BASE_USED ?b"
  have len: "i < length (bases c)" using inv_length [OF inv] i by simp
  note mv = inv_move [OF inv i(2,3), where d = ?c1 and b = ?b and st = SQLX_BASE_USED
      and now = "c_now e", simplified, OF i(3)]
  from True have "\<not> bases_max_soft c \<le> bases_used c" by (simp add: not_le)
  with r i get_by_id_in [OF i(2)] mv(2) len have
    res: "err = None" "res = Some i" "c' = ?c2\<lparr>bases_by_name := (bases_by_name c)(hs := Some i)\<rparr>"
    by (auto simp: sqlx_base_reserve_def Let_def sqlx_save_id_def)
  note free = slot_FREE [OF inv_slot_ok [OF inv i(2)] i(3)]
  have "names_ok c'"
    unfolding names_ok_def
  proof (intro allI)
    fix n j
    show "bases_by_name c' n = Some j \<longleftrightarrow> slot_in c' j \<and> b_name (bases c' ! j) = Some n"
      using res mv(2) len i(2) free new inv_names [OF inv, of n j] inv_names [OF inv, of hs j]
      by (cases "j = i") auto
  qed
  moreover have "cache_wf (lists_move SQLX_BASE_FREE SQLX_BASE_USED i f) c'"
    using cache_wf_cong [OF mv(1)] res by simp
  moreover have "unat (bases_used c') = unat (bases_used c) + 1"
    using unat_Suc_less [OF True] res by (simp add: move_used)
  ultimately have "cache_inv (lists_move SQLX_BASE_FREE SQLX_BASE_USED i f) (add_user (c_self e) i G) c'"
    using res mv(2) inv_slot_ok [OF inv i(2)] free i
    by (intro inv_update [OF inv i(2), where b = ?m])
      (auto simp: busy_def slot_ok_def holder_defs)
  with res i mv(2) len show ?thesis by auto
qed

section \<open>Expiration\<close>

abbreviation closing :: "bool \<Rightarrow> sqlx_base_status" where
  "closing deleted \<equiv> if deleted then SQLX_BASE_CLOSING_FOR_DELETION else SQLX_BASE_CLOSING"

lemma begin_simps [simp]:
  "bases_max_hard (expire_base_begin e dl i c) = bases_max_hard c"
  "bases_max_soft (expire_base_begin e dl i c) = bases_max_soft c"
  "bases_by_name (expire_base_begin e dl i c) = bases_by_name c"
  "bases_used (expire_base_begin e dl i c) = bases_used c"
  "is_running (expire_base_begin e dl i c) = is_running c"
  by (simp_all add: expire_base_begin_def Let_def move_used)

lemma begin_effect:
  assumes "cache_wf f c" "slot_in c i" "b_status (bases c ! i) = Some st0"
  shows "cache_wf (lists_move st0 (closing dl) i f) (expire_base_begin e dl i c)"
    "bases (expire_base_begin e dl i c) = (bases c)[i := moved (c_now e) (closing dl) (bases c ! i)]"
proof -
  show "cache_wf (lists_move st0 (closing dl) i f) (expire_base_begin e dl i c)"
    by (rule cache_wf_cong [OF move_wf [OF assms, of "closing dl" "c_now e"]])
      (simp_all add: expire_base_begin_def Let_def)
  show "bases (expire_base_begin e dl i c) = (bases c)[i := moved (c_now e) (closing dl) (bases c ! i)]"
    using move_bases [OF assms, of "c_now e" "closing dl"] by (simp add: expire_base_begin_def Let_def)
qed

lemma inv_begin:
  assumes inv: "cache_inv f G c" and i: "slot_in c i"
    and old: "b_name (bases c ! i) \<noteq> None" "h_closers G i = {#}" "b_status (bases c ! i) \<noteq> Some SQLX_BASE_FREE"
    and wf: "cache_wf g d" and d: "bases d = (bases c)[i := b]" "bases_max_hard d = bases_max_hard c"
      "bases_max_soft d = bases_max_soft c" "bases_by_name d = bases_by_name c" "bases_used d = bases_used c"
    and b: "b_status b = Some st0" "b_name b = b_name (bases c ! i)" "b_owner b = Some t" "b_count_open b = 0"
      "b_count_waiting b = b_count_waiting (bases c ! i)"
      "b_open_attempts b = b_open_attempts (bases c ! i)"
      "b_open_wait_time b = b_open_wait_time (bases c ! i)"
  shows "cache_inv (lists_move st0 (closing dl) i g)
    (add_closer t i (G\<lparr>h_users := (h_users G)(i := {#})\<rparr>)) (expire_base_begin e dl i d)"
proof -
  have len: "i < length (bases c)" using inv_length [OF inv] i by simp
  have "slot_in d i" "b_status (bases d ! i) = Some st0" using i len b d by simp_all
  note eff = begin_effect [OF wf this, where dl = dl and e = e]
  from eff(2) d len have bs: "bases (expire_base_begin e dl i d)
      = (bases c)[i := moved (c_now e) (closing dl) b]" by simp
  show ?thesis
  proof (rule inv_update [OF inv i eff(1) _ _ bs])
    show "names_ok (expire_base_begin e dl i d)"
      by (rule names_same [OF inv _ _ bs]) (use d b in simp_all)
    show "slot_holds (add_closer t i (G\<lparr>h_users := (h_users G)(i := {#})\<rparr>)) i (moved (c_now e) (closing dl) b)"
      using inv_slot_ok [OF inv i] b old by (cases dl) (simp_all add: slot_ok_def holder_defs)
  qed (use d b old in \<open>simp_all add: holder_defs busy_def\<close>)
qed

lemma inv_specific_begin:
  assumes inv: "cache_inv f G c" and i: "slot_in c i"
    and st: "b_status (bases c ! i) = Some st0" "st0 = SQLX_BASE_IDLE \<or> st0 = SQLX_BASE_IDLE_HOT"
    and r: "expire_specific_begin e now delay i c = Some c'"
  shows "cache_inv (f(st0 := remove1 i (f st0))) (add_closer (c_self e) i G) c'"
    "bases c' = (bases c)[i := bases c' ! i]" "b_name (bases c' ! i) = b_name (bases c ! i)"
    "bases_max_hard c' = bases_max_hard c" "is_running c' = is_running c"
proof -
  let ?c1 = "on_base i (\<lambda>b. b\<lparr>b_owner := Some (c_self e)\<rparr>) c"
  let ?b = "(bases c ! i)\<lparr>b_owner := Some (c_self e)\<rparr>"
  let ?c2 = "sqlx_base_move_to_list (c_now e) i SQLX_BASE_USED ?c1"
  have len: "i < length (bases c)" using inv_length [OF inv] i by simp
  from st have ns: "st0 \<noteq> SQLX_BASE_USED" "st0 \<noteq> SQLX_BASE_FREE" "listed st0" by (auto simp: listed_def)
  note idle = slot_idle [OF inv_slot_ok [OF inv i]]
  have idle: "b_name (bases c ! i) \<noteq> None" "b_count_open (bases c ! i) = 0" "h_users G i = {#}"
    "h_closers G i = {#}" using idle st by auto
  note mv = inv_move [OF inv i st(1), where d = ?c1 and b = ?b and st = SQLX_BASE_USED
      and now = "c_now e", simplified, OF st(1)]
  have c': "c' = expire_base_begin e False i ?c2"
    using r by (auto simp: expire_specific_begin_def split: if_splits)
  have "cache_inv (lists_move SQLX_BASE_USED (closing False) i (lists_move st0 SQLX_BASE_USED i f))
      (add_closer (c_self e) i (G\<lparr>h_users := (h_users G)(i := {#})\<rparr>)) c'"
    unfolding c' by (rule inv_begin [OF inv i idle(1,4) _ mv])
      (use st ns idle in \<open>simp_all add: move_used\<close>)
  moreover have "lists_move SQLX_BASE_USED (closing False) i (lists_move st0 SQLX_BASE_USED i f)
      = f(st0 := remove1 i (f st0))"
    using ns by (auto simp: lists_move_def Let_def listed_def fun_eq_iff)
  moreover have "G\<lparr>h_users := (h_users G)(i := {#})\<rparr> = G" using idle(3) by (simp add: fun_upd_idem)
  ultimately show "cache_inv (f(st0 := remove1 i (f st0))) (add_closer (c_self e) i G) c'" by simp
  have "bases c' = (bases c)[i := moved (c_now e) SQLX_BASE_CLOSING (moved (c_now e) SQLX_BASE_USED ?b)]"
    unfolding c' using begin_effect(2) [OF mv(1), of i SQLX_BASE_USED e False] mv(2) i len by simp
  with len show "bases c' = (bases c)[i := bases c' ! i]" "b_name (bases c' ! i) = b_name (bases c ! i)"
    by simp_all
qed (use r in \<open>auto simp: expire_specific_begin_def split: if_splits\<close>)

lemma wf_back:
  assumes "cache_wf f c"
  shows "bback (beacon_of c st) = last_opt (f st)" "bfront (beacon_of c st) = hd_opt (f st)"
  using assms by (auto simp: cache_wf_def lists_rep_def dest: fam_deque is_deque_back is_deque_front)

lemma wf_back_slot:
  assumes "cache_wf f c" "bback (beacon_of c st) = Some i"
  shows "slot_in c i" "b_status (bases c ! i) = Some st"
  using assms wf_back [OF assms(1)] cache_wf_in [OF assms(1)] by (metis last_opt_SomeD)+

lemma first_idle_Some:
  assumes "expire_first_idle_begin conf e now c = Some (i, c')"
  obtains st delay where "st = SQLX_BASE_IDLE \<or> st = SQLX_BASE_IDLE_HOT" "bback (beacon_of c st) = Some i"
    "expire_specific_begin e now delay i c = Some c'"
  using assms by (auto simp: expire_first_idle_begin_def Let_def split: option.splits)

lemma inv_first_idle:
  assumes inv: "cache_inv f G c" and r: "expire_first_idle_begin conf e now c = Some (i, c')"
  shows "\<exists>f'. cache_inv f' (add_closer (c_self e) i G) c'" "slot_in c i"
    "bases_max_hard c' = bases_max_hard c"
proof -
  from r obtain st delay where st: "st = SQLX_BASE_IDLE \<or> st = SQLX_BASE_IDLE_HOT"
      "bback (beacon_of c st) = Some i" "expire_specific_begin e now delay i c = Some c'"
    by (rule first_idle_Some)
  note slot = wf_back_slot [OF inv_wf [OF inv] st(2)]
  from inv_specific_begin [OF inv slot st(1,3)] slot
  show "\<exists>f'. cache_inv f' (add_closer (c_self e) i G) c'" "slot_in c i"
    "bases_max_hard c' = bases_max_hard c" by auto
qed

lemma last_remove1: "distinct xs \<Longrightarrow> last_opt xs = Some x \<Longrightarrow> remove1 x xs = butlast xs"
  by (cases xs rule: rev_cases) (auto simp: remove1_append)

lemma inv_first_idle_lists:
  assumes inv: "cache_inv f G c" and r: "expire_first_idle_begin conf e 0 c = Some (i, c')"
  shows "\<exists>st. (st = SQLX_BASE_IDLE \<or> st = SQLX_BASE_IDLE_HOT \<and> f SQLX_BASE_IDLE = []) \<and>
    last_opt (f st) = Some i \<and> cache_inv (f(st := butlast (f st))) (add_closer (c_self e) i G) c' \<and>
    bases c' = (bases c)[i := bases c' ! i]"
proof -
  note bk = wf_back(1) [OF inv_wf [OF inv]]
  have rep: "lists_rep c f" using inv_wf [OF inv] by (simp add: cache_wf_def)
  obtain st delay where st: "st = SQLX_BASE_IDLE \<or> st = SQLX_BASE_IDLE_HOT \<and> f SQLX_BASE_IDLE = []"
      "bback (beacon_of c st) = Some i" "expire_specific_begin e 0 delay i c = Some c'"
    using r bk [of SQLX_BASE_IDLE]
    by (fastforce simp: expire_first_idle_begin_def expire_specific_begin_def Let_def split: option.splits)
  note slot = wf_back_slot [OF inv_wf [OF inv] st(2)]
  from st(1) have idle: "st = SQLX_BASE_IDLE \<or> st = SQLX_BASE_IDLE_HOT" by auto
  have "last_opt (f st) = Some i" using st(2) bk by simp
  moreover from this have "remove1 i (f st) = butlast (f st)"
    by (rule last_remove1 [OF blists.rep_distinct [OF rep]])
  ultimately show ?thesis
    using inv_specific_begin(1,2) [OF inv slot idle st(3)] st(1) by metis
qed

lemma first_idle_hooks:
  assumes inv: "cache_inv f G c" and r: "expire_first_idle_begin conf e 0 c = Some (i, c')"
    and hook: "close_hook c"
  shows "close_hook c'" "hook_calls c' = hook_calls c @ [Close_hook (b_handle (bases c ! i))]"
proof -
  from r obtain st delay where st: "bback (beacon_of c st) = Some i"
      "expire_specific_begin e 0 delay i c = Some c'"
    by (rule first_idle_Some)
  let ?c1 = "on_base i (\<lambda>b. b\<lparr>b_owner := Some (c_self e)\<rparr>) c"
  let ?b = "(bases c ! i)\<lparr>b_owner := Some (c_self e)\<rparr>"
  from st(2) have c': "c' = expire_base_begin e False i (sqlx_base_move_to_list (c_now e) i SQLX_BASE_USED ?c1)"
    by (simp add: expire_specific_begin_def)
  note slot = wf_back_slot [OF inv_wf [OF inv] st(1)]
  have "i < length (bases c)" using inv_length [OF inv] slot by simp
  moreover note inv_move(2) [OF inv slot, where d = ?c1 and b = ?b and st = SQLX_BASE_USED
      and now = "c_now e", simplified, OF slot(2)]
  ultimately show "close_hook c'" "hook_calls c' = hook_calls c @ [Close_hook (b_handle (bases c ! i))]"
    using hook unfolding c' by (simp_all add: expire_base_begin_def Let_def)
qed

lemma first_idle_found:
  assumes "cache_inv f G c" "has_idle_unlocked c"
  shows "expire_first_idle_begin conf e 0 c \<noteq> None"
  using assms(2) wf_back [OF inv_wf [OF assms(1)]]
  by (auto simp: has_idle_unlocked_def expire_first_idle_begin_def expire_specific_begin_def Let_def
      split: option.splits)

lemma inv_expire_end:
  assumes inv: "cache_inv f G c" and cl: "t \<in># h_closers G i"
  shows "cache_inv (f(SQLX_BASE_FREE := i # f SQLX_BASE_FREE)) (del_closer t i G) (expire_base_end e i c)"
    "bases (expire_base_end e i c) = (bases c)[i := bases (expire_base_end e i c) ! i]"
    "b_status (bases (expire_base_end e i c) ! i) = Some SQLX_BASE_FREE"
proof -
  have i: "slot_in c i" using inv cl by (auto simp: cache_inv_def)
  note ok = inv_slot_ok [OF inv i]
  have len: "i < length (bases c)" using inv_length [OF inv] i by simp
  obtain st0 where st: "b_status (bases c ! i) = Some st0" using slot_status [OF ok] by auto
  with ok cl have cl0: "st0 = SQLX_BASE_CLOSING \<or> st0 = SQLX_BASE_CLOSING_FOR_DELETION"
    by (cases st0) (auto simp: slot_ok_def)
  with slot_closing [OF ok] st have clo: "b_name (bases c ! i) \<noteq> None" "b_count_open (bases c ! i) = 0"
    "h_users G i = {#}" "h_closers G i = {#t#}" using cl by auto
  then obtain n where n: "b_name (bases c ! i) = Some n" by auto
  let ?g = "\<lambda>b. b\<lparr>b_handle := None, b_heat := 0, b_owner := None, b_name := None,
      b_count_open := 0, b_last_update := 0\<rparr>"
  let ?c1 = "on_base i ?g c"
  let ?c2 = "sqlx_base_move_to_list (c_now e) i SQLX_BASE_FREE ?c1"
  let ?m = "moved (c_now e) SQLX_BASE_FREE (?g (bases c ! i))"
  have c': "expire_base_end e i c = ?c2\<lparr>bases_by_name := (bases_by_name c)(n := None)\<rparr>"
    using n by (simp add: expire_base_end_def Let_def)
  note mv = inv_move [OF inv i st, where d = ?c1 and b = "?g (bases c ! i)" and st = SQLX_BASE_FREE
      and now = "c_now e", simplified, OF st]
  have used: "unat (bases_used c) > 0"
  proof -
    have "busy (bases c ! i) \<le> sum_list (map busy (bases c))"
      using elem_le_sum_list [of i "map busy (bases c)"] len by simp
    with st cl0 inv show ?thesis by (auto simp: busy_def cache_inv_def)
  qed
  have "names_ok (expire_base_end e i c)"
    unfolding names_ok_def
  proof (intro allI)
    fix m j
    show "bases_by_name (expire_base_end e i c) m = Some j \<longleftrightarrow>
        slot_in (expire_base_end e i c) j \<and> b_name (bases (expire_base_end e i c) ! j) = Some m"
      using c' mv(2) len i n inv_names [OF inv, of m j] inv_names [OF inv, of n i]
      by (cases "j = i") auto
  qed
  moreover have "cache_wf (lists_move st0 SQLX_BASE_FREE i f) (expire_base_end e i c)"
    using cache_wf_cong [OF mv(1)] c' by simp
  moreover have "unat (bases_used c - 1) = unat (bases_used c) - 1"
    using used by (intro unat_minus_one) auto
  ultimately have "cache_inv (lists_move st0 SQLX_BASE_FREE i f) (del_closer t i G) (expire_base_end e i c)"
    using c' mv(2) ok st cl0 clo used len
    by (intro inv_update [OF inv i, where b = ?m])
      (auto simp: busy_def slot_ok_def holder_defs move_used)
  moreover have "lists_move st0 SQLX_BASE_FREE i f = f(SQLX_BASE_FREE := i # f SQLX_BASE_FREE)"
    using cl0 by (auto simp: lists_move_def listed_def)
  ultimately show "cache_inv (f(SQLX_BASE_FREE := i # f SQLX_BASE_FREE)) (del_closer t i G)
      (expire_base_end e i c)" by simp
  show "bases (expire_base_end e i c) = (bases c)[i := bases (expire_base_end e i c) ! i]"
    "b_status (bases (expire_base_end e i c) ! i) = Some SQLX_BASE_FREE"
    using c' mv(2) len by simp_all
qed

lemma end_simps [simp]:
  "bases_max_hard (expire_base_end e i c) = bases_max_hard c"
  "close_hook (expire_base_end e i c) = close_hook c"
  "hook_calls (expire_base_end e i c) = hook_calls c"
  by (simp_all add: expire_base_end_def Let_def split: option.split)

end
