(* ===== verification/Cache_Ops.thy ===== *)
theory Cache_Ops
  imports Cache
begin

text \<open>
  The operations of the cache of bases (\<^verbatim>\<open>sqliterepo/cache.c\<close>): opening and locking a base,
  unlocking and closing it, the expirations, the handles and the statistics.
\<close>

section \<open>Opening a base\<close>

text \<open>
  The local variables of \<^verbatim>\<open>sqlx_cache_open_and_lock_base\<close> that live across its retries.
\<close>

record open_ctx =
  o_hname :: string
  o_urgent :: bool
  o_start :: time
  o_deadline :: time
  o_margin :: time
  o_attempts :: nat
  o_base :: "nat option"

definition open_begin :: "cache_conf \<Rightarrow> cache_env \<Rightarrow> string \<Rightarrow> bool \<Rightarrow> time \<Rightarrow> open_ctx" where
  "open_begin conf e hname urgent deadline =
     (let start = c_now e;
          local_deadline = start + cache_timeout_open conf;
          dl = (if deadline \<le> 0 then local_deadline else min deadline local_deadline)
      in \<lparr>o_hname = hname, o_urgent = urgent, o_start = start, o_deadline = dl,
          o_margin = min ((dl - start) sdiv 2) (2 * cache_period_cond_wait conf),
          o_attempts = 0, o_base = None\<rparr>)"

text \<open>
  What one pass from the label \<^verbatim>\<open>retry\<close> leads to: the base is open, an error is returned, the
  thread waits for the base to be released or closed, it recycles an idle base and retries, or it
  retries at once.  \<open>Stuck\<close> stands for \<^verbatim>\<open>g_assert_not_reached\<close> and for undefined behaviours.
\<close>

datatype open_outcome = Opened nat | Failed code | Wait_used nat | Wait_closing nat | Recycle nat
  | Again | Stuck

text \<open>The part after the tests: the accounting of the duration.\<close>

definition open_finish ::
  "cache_env \<Rightarrow> bool \<Rightarrow> open_outcome \<Rightarrow> open_ctx \<Rightarrow> sqlx_cache \<Rightarrow> open_outcome \<times> open_ctx \<times> sqlx_cache" where
  "open_finish e opened r x c =
     (case o_base x of None \<Rightarrow> (r, x, c)
      | Some i \<Rightarrow>
          let b = bases c ! i; secs = c_end e div G_TIME_SPAN_SECOND; wait_time = c_end e - o_start x
          in if opened then
               (case (grid_single_rrd_add (b_open_attempts b) secs 1,
                      grid_single_rrd_add (b_open_wait_time b) secs (word_of_int wait_time)) of
                  (Some ga, Some gw) \<Rightarrow>
                    (r, x, on_base i (\<lambda>b. b\<lparr>b_open_attempts := ga, b_open_wait_time := gw,
                        b_heat := (if o_attempts x = 1 \<and> wait_time < G_TIME_SPAN_MILLISECOND
                                      \<and> b_count_waiting b < 2 then 0 else b_heat b)\<rparr>) c)
                | _ \<Rightarrow> (Stuck, x, c))
             else (r, x, c))"

text \<open>The deadline is over: which error is returned.\<close>

definition open_too_late ::
  "cache_conf \<Rightarrow> cache_env \<Rightarrow> nat \<Rightarrow> open_ctx \<Rightarrow> sqlx_cache \<Rightarrow> (code \<times> sqlx_cache) option" where
  "open_too_late conf e i x c =
     (let b = bases c ! i; wait_time = c_now e - o_start x
      in if b_status b = Some SQLX_BASE_USED \<and> b_owner b = Some (c_self e)
         then Some (CODE_GATEWAY_TIMEOUT, c)
         else if o_attempts x < 2 then Some (CODE_UNAVAILABLE, c)
         else if cache_fail_on_heavy_load conf
         then Option.bind (base_is_accessible conf b (c_now e) (word_of_int wait_time))
                (\<lambda>(b1, acc).
                   if acc then map_option (\<lambda>(b2, _). (CODE_EXCESSIVE_LOAD, on_base i (\<lambda>_. b2) c))
                                 (load_too_high conf b1 (c_now e) 0)
                   else Some (CODE_UNAVAILABLE, on_base i (\<lambda>_. b1) c))
         else Some (CODE_UNAVAILABLE, c))"

text \<open>
  The base is used by another thread: an error when the load is too high, or a wait.  The alert
  on a heavy load is only a message.
\<close>

definition open_used_by_other ::
  "cache_conf \<Rightarrow> cache_env \<Rightarrow> nat \<Rightarrow> open_ctx \<Rightarrow> sqlx_cache \<Rightarrow> (gerror \<times> sqlx_cache) option" where
  "open_used_by_other conf e i x c =
     (let waiting = on_base i (\<lambda>b. b\<lparr>b_count_waiting := b_count_waiting b + 1, b_heat := 1\<rparr>)
      in if o_urgent x then Some (None, waiting c)
         else let margin = (if \<not> cache_fail_on_heavy_load conf \<and> cache_alert_on_heavy_load conf
                            then o_margin x else 0)
              in map_option (\<lambda>(b1, avg).
                   let c1 = on_base i (\<lambda>_. b1) c
                   in if avg > 0 \<and> cache_fail_on_heavy_load conf
                      then (Some CODE_EXCESSIVE_LOAD, c1) else (None, waiting c1))
                 (load_too_high conf (bases c ! i) (c_now e)
                    ((o_deadline x - c_now e) - margin)))"

definition open_idle :: "cache_env \<Rightarrow> nat \<Rightarrow> sqlx_cache \<Rightarrow> sqlx_cache" where
  "open_idle e i c =
     on_base i (\<lambda>b. b\<lparr>b_count_open := b_count_open b + 1, b_owner := Some (c_self e)\<rparr>)
       (sqlx_base_move_to_list (c_now e) i SQLX_BASE_USED c)"

text \<open>The base is not in the tree: a free slot is reserved, or an idle one is recycled.\<close>

definition open_new ::
  "cache_conf \<Rightarrow> cache_env \<Rightarrow> open_ctx \<Rightarrow> sqlx_cache \<Rightarrow> open_outcome \<times> open_ctx \<times> sqlx_cache" where
  "open_new conf e x c =
     (case sqlx_base_reserve e (o_hname x) c of
        (Some err, r, c1) \<Rightarrow> open_finish e False (Failed err) (x\<lparr>o_base := r\<rparr>) c1
      | (None, Some i, c1) \<Rightarrow> open_finish e False (Opened i) (x\<lparr>o_base := Some i\<rparr>) c1
      | (None, None, c1) \<Rightarrow>
          (case expire_first_idle_begin conf e 0 c1 of
             Some (i, c2) \<Rightarrow> (Recycle i, x\<lparr>o_base := None\<rparr>, c2)
           | None \<Rightarrow> (Again, x\<lparr>o_base := None\<rparr>, c1)))"

text \<open>The base is in the tree, at the slot \<open>i\<close>.\<close>

definition open_known ::
  "cache_conf \<Rightarrow> cache_env \<Rightarrow> nat \<Rightarrow> open_ctx \<Rightarrow> sqlx_cache
     \<Rightarrow> open_outcome \<times> open_ctx \<times> sqlx_cache" where
  "open_known conf e i x c =
     (if o_deadline x - c_now e \<le> 0
      then (case open_too_late conf e i x c of None \<Rightarrow> (Stuck, x, c)
            | Some (err, c1) \<Rightarrow> open_finish e False (Failed err) x c1)
      else case b_status (bases c ! i) of
        Some SQLX_BASE_FREE \<Rightarrow> (Stuck, x, c)
      | Some SQLX_BASE_IDLE \<Rightarrow> open_finish e True (Opened i) x (open_idle e i c)
      | Some SQLX_BASE_IDLE_HOT \<Rightarrow> open_finish e True (Opened i) x (open_idle e i c)
      | Some SQLX_BASE_USED \<Rightarrow>
          if b_owner (bases c ! i) \<noteq> Some (c_self e)
          then (case open_used_by_other conf e i x c of None \<Rightarrow> (Stuck, x, c)
                | Some (Some err, c1) \<Rightarrow> open_finish e False (Failed err) x c1
                | Some (None, c1) \<Rightarrow> (Wait_used i, x, c1))
          else open_finish e False (Opened i) x
                 (on_base i (\<lambda>b. b\<lparr>b_owner := Some (c_self e), b_count_open := b_count_open b + 1\<rparr>) c)
      | Some SQLX_BASE_CLOSING \<Rightarrow> (Wait_closing i, x, c)
      | Some SQLX_BASE_CLOSING_FOR_DELETION \<Rightarrow>
          open_finish e False (Failed CODE_CONTAINER_NOTFOUND) x c
      | None \<Rightarrow> (Stuck, x, c))"

definition open_attempt ::
  "cache_conf \<Rightarrow> cache_env \<Rightarrow> open_ctx \<Rightarrow> sqlx_cache \<Rightarrow> open_outcome \<times> open_ctx \<times> sqlx_cache" where
  "open_attempt conf e x c =
     (let x1 = x\<lparr>o_attempts := o_attempts x + 1\<rparr> in
      if \<not> is_running c then open_finish e False (Failed CODE_UNAVAILABLE) x1 c
      else case sqlx_lookup_id c (o_hname x) of
        None \<Rightarrow> open_new conf e x1 c
      | Some i \<Rightarrow> open_known conf e i (x1\<lparr>o_base := Some i\<rparr>) c)"

text \<open>The decrement after the wait for a base in use.\<close>

definition open_wait_end :: "nat \<Rightarrow> sqlx_cache \<Rightarrow> sqlx_cache" where
  "open_wait_end i = on_base i (\<lambda>b. b\<lparr>b_count_waiting := b_count_waiting b - 1\<rparr>)"

text \<open>
  The whole operation.  Each element of the list is one pass: its environment, and what the other
  threads do while this one waits or calls the hook.  \<open>None\<close>: the list ends before the
  operation does.
\<close>

fun open_loop ::
  "cache_conf \<Rightarrow> (cache_env \<times> (sqlx_cache \<Rightarrow> sqlx_cache)) list \<Rightarrow> open_ctx \<Rightarrow> sqlx_cache
     \<Rightarrow> (open_outcome \<times> sqlx_cache) option" where
  "open_loop conf [] x c = None"
| "open_loop conf ((e, others) # es) x c =
     (case open_attempt conf e x c of
        (Wait_used i, x1, c1) \<Rightarrow> open_loop conf es x1 (open_wait_end i (others c1))
      | (Wait_closing i, x1, c1) \<Rightarrow> open_loop conf es x1 (others c1)
      | (Recycle i, x1, c1) \<Rightarrow> open_loop conf es x1 (expire_base_end (later e) i (others c1))
      | (Again, x1, c1) \<Rightarrow> open_loop conf es x1 c1
      | (r, x1, c1) \<Rightarrow> Some (r, c1))"

definition sqlx_cache_open_and_lock_base ::
  "cache_conf \<Rightarrow> (cache_env \<times> (sqlx_cache \<Rightarrow> sqlx_cache)) list \<Rightarrow> string \<Rightarrow> bool \<Rightarrow> time \<Rightarrow> sqlx_cache
     \<Rightarrow> (open_outcome \<times> sqlx_cache) option" where
  "sqlx_cache_open_and_lock_base conf es hname urgent deadline c =
     (case es of [] \<Rightarrow> None
      | (e, others) # _ \<Rightarrow> open_loop conf es (open_begin conf e hname urgent deadline) c)"

section \<open>Closing a base\<close>

datatype close_outcome = Closed | Close_failed code | Close_expiring nat | Close_stuck

text \<open>
  \<^verbatim>\<open>sqlx_cache_unlock_and_close_base\<close>.  \<open>Close_expiring i\<close>: the lock is released while the hook
  closes the base of the slot \<open>i\<close>, and \<^const>\<open>expire_base_end\<close> ends the operation.
\<close>

definition close_to_idle ::
  "cache_conf \<Rightarrow> cache_env \<Rightarrow> nat \<Rightarrow> sqlx_cache \<Rightarrow> close_outcome \<times> sqlx_cache" where
  "close_to_idle conf e i c =
     (let c1 = (if unlock_hook c
                then c\<lparr>hook_calls := hook_calls c @ [Unlock_hook (b_handle (bases c ! i))]\<rparr> else c);
          c2 = on_base i (\<lambda>b. b\<lparr>b_owner := None\<rparr>) c1;
          c3 = sqlx_base_move_to_list (c_now e) i
                 (if b_heat (bases c2 ! i) \<ge> cache_heat_threshold conf
                  then SQLX_BASE_IDLE_HOT else SQLX_BASE_IDLE) c2
      in if ram_exhausted conf c3 \<and> has_idle_unlocked c3
         then (case expire_first_idle_begin conf e 0 c3 of
                 Some (j, c4) \<Rightarrow> (Close_expiring j, c4) | None \<Rightarrow> (Closed, c3))
         else (Closed, c3))"

definition sqlx_cache_unlock_and_close_base ::
  "cache_conf \<Rightarrow> cache_env \<Rightarrow> int \<Rightarrow> guint32 \<Rightarrow> sqlx_cache \<Rightarrow> close_outcome \<times> sqlx_cache" where
  "sqlx_cache_unlock_and_close_base conf e bd flags c =
     (if base_id_out c bd then (Close_failed CODE_INTERNAL_ERROR, c)
      else let i = nat bd; b = bases c ! i in
      case b_status b of
        Some SQLX_BASE_USED \<Rightarrow>
          if b_owner b \<noteq> Some (c_self e) \<or> b_count_open b < 1 then (Close_stuck, c)
          else let c1 = on_base i (\<lambda>b. b\<lparr>b_count_open := b_count_open b - 1\<rparr>) c
               in if b_count_open (bases c1 ! i) \<noteq> 0 then (Closed, c1)
                  else if and flags (or SQLX_CLOSE_IMMEDIATELY SQLX_CLOSE_FOR_DELETION) \<noteq> 0
                  then (Close_expiring i,
                        expire_base_begin e (and flags SQLX_CLOSE_FOR_DELETION \<noteq> 0) i c1)
                  else close_to_idle conf e i c1
      | Some SQLX_BASE_CLOSING \<Rightarrow>
          if b_owner b = None \<or> b_owner b = Some (c_self e) then (Close_stuck, c)
          else (Close_failed CODE_INTERNAL_ERROR, c)
      | Some SQLX_BASE_CLOSING_FOR_DELETION \<Rightarrow>
          if b_owner b = None \<or> b_owner b = Some (c_self e) then (Close_stuck, c)
          else (Close_failed CODE_INTERNAL_ERROR, c)
      | None \<Rightarrow> (Closed, c)
      | Some _ \<Rightarrow>
          if b_owner b \<noteq> None \<or> b_count_open b \<noteq> 0 then (Close_stuck, c)
          else (Close_failed CODE_INTERNAL_ERROR, c))"

section \<open>Expirations and statistics\<close>

text \<open>
  The loops of the expirations, with the list of the passes as above; the first result is the
  number of bases closed.
\<close>

fun expire_all_loop ::
  "cache_conf \<Rightarrow> (cache_env \<times> (sqlx_cache \<Rightarrow> sqlx_cache)) list \<Rightarrow> nat \<Rightarrow> sqlx_cache
     \<Rightarrow> (nat \<times> sqlx_cache) option" where
  "expire_all_loop conf [] nb c = None"
| "expire_all_loop conf ((e, others) # es) nb c =
     (case expire_first_idle_begin conf e 0 c of
        None \<Rightarrow> Some (nb, c)
      | Some (i, c1) \<Rightarrow> expire_all_loop conf es (nb + 1) (expire_base_end (later e) i (others c1)))"

definition sqlx_cache_expire_all ::
  "cache_conf \<Rightarrow> (cache_env \<times> (sqlx_cache \<Rightarrow> sqlx_cache)) list \<Rightarrow> sqlx_cache
     \<Rightarrow> (nat \<times> sqlx_cache) option" where
  "sqlx_cache_expire_all conf es c = expire_all_loop conf es 0 c"

fun expire_loop ::
  "cache_conf \<Rightarrow> (cache_env \<times> (sqlx_cache \<Rightarrow> sqlx_cache)) list \<Rightarrow> nat \<Rightarrow> time \<Rightarrow> nat \<Rightarrow> sqlx_cache
     \<Rightarrow> (nat \<times> sqlx_cache) option" where
  "expire_loop conf [] mx deadline nb c = None"
| "expire_loop conf ((e, others) # es) mx deadline nb c =
     (if \<not> (mx = 0 \<or> nb < mx) then Some (nb, c)
      else if c_now e > deadline then Some (nb, c)
      else case expire_first_idle_begin conf e (c_now e) c of
        None \<Rightarrow> Some (nb, c)
      | Some (i, c1) \<Rightarrow> expire_loop conf es mx deadline (nb + 1) (expire_base_end (later e) i (others c1)))"

definition sqlx_cache_expire ::
  "cache_conf \<Rightarrow> (cache_env \<times> (sqlx_cache \<Rightarrow> sqlx_cache)) list \<Rightarrow> time \<Rightarrow> nat \<Rightarrow> time \<Rightarrow> sqlx_cache
     \<Rightarrow> (nat \<times> sqlx_cache) option" where
  "sqlx_cache_expire conf es start mx duration c = expire_loop conf es mx (start + duration) 0 c"

definition sqlx_cache_get_handle :: "sqlx_cache \<Rightarrow> nat \<Rightarrow> handle" where
  "sqlx_cache_get_handle c bd = b_handle (bases c ! bd)"

definition sqlx_cache_set_handle :: "nat \<Rightarrow> handle \<Rightarrow> sqlx_cache \<Rightarrow> sqlx_cache" where
  "sqlx_cache_set_handle bd sq3 = on_base bd (\<lambda>b. b\<lparr>b_handle := sq3\<rparr>)"

text \<open>
  The loop of \<^verbatim>\<open>_count_beacon\<close>; its first argument bounds the number of nodes it visits, and
  \<open>None\<close> stands for a list that does not end within it.
\<close>

fun count_loop :: "nat \<Rightarrow> nat links \<Rightarrow> nat option \<Rightarrow> nat option" where
  "count_loop n l None = Some 0"
| "count_loop 0 l (Some i) = None"
| "count_loop (Suc n) l (Some i) = map_option Suc (count_loop n l (lnext l i))"

definition count_beacon :: "sqlx_cache \<Rightarrow> sqlx_base_status \<Rightarrow> nat option" where
  "count_beacon c st =
     count_loop (unat (bases_max_hard c)) (blinks c) (bfront (beacon_of c st))"

record cache_counts =
  n_max :: nat
  n_soft_max :: nat
  n_cold :: "nat option"
  n_hot :: "nat option"
  n_used :: "nat option"

definition sqlx_cache_count :: "sqlx_cache \<Rightarrow> cache_counts" where
  "sqlx_cache_count c =
     \<lparr>n_max = unat (bases_max_hard c), n_soft_max = unat (bases_max_soft c),
      n_cold = count_beacon c SQLX_BASE_IDLE, n_hot = count_beacon c SQLX_BASE_IDLE_HOT,
      n_used = count_beacon c SQLX_BASE_USED\<rparr>"

end
