(* ===== verification/Cache_Open.thy ===== *)
theory Cache_Open
  imports Cache_Steps Cache_Ops
begin

text \<open>
  What a pass of the opening of a base, and its closing, do to the invariant of the cache.
\<close>

section \<open>Opening\<close>

text \<open>
  The bounds of \<^verbatim>\<open>conf.json\<close> on the minimal load, and a clock that has reached the minute the
  counters of load look back to.
\<close>

definition conf_ok :: "cache_conf \<Rightarrow> bool" where
  "conf_ok conf \<longleftrightarrow> 1 \<le> cache_min_load_on_heavy_load conf \<and> cache_min_load_on_heavy_load conf \<le> 10000"

definition env_ok :: "cache_env \<Rightarrow> bool" where
  "env_ok e \<longleftrightarrow> 60 * G_TIME_SPAN_SECOND \<le> c_now e \<and> c_now e \<le> c_end e"

lemma env_secs: "env_ok e \<Longrightarrow> 60 \<le> c_now e div 1000000 \<and> 60 \<le> c_end e div 1000000"
  using zdiv_mono1 [of "60 * 1000000" "c_now e" 1000000] zdiv_mono1 [of "60 * 1000000" "c_end e" 1000000]
  by (simp add: env_ok_def)

lemma unat_ucast_32_64: "unat (ucast (w :: guint32) :: guint64) = unat w"
proof -
  have "unat w < 2 ^ LENGTH(32)" by (rule unsigned_less)
  also have "\<dots> \<le> 2 ^ 64" by simp
  finally show ?thesis by (simp add: unsigned_ucast_eq take_bit_nat_eq_self)
qed

lemma min_load_pos:
  assumes "conf_ok conf" "(dx :: guint64) \<ge> ucast (10 * cache_min_load_on_heavy_load conf)"
  shows "dx \<noteq> 0"
proof -
  let ?m = "cache_min_load_on_heavy_load conf"
  have m: "1 \<le> unat ?m" "unat ?m \<le> 10000" using assms(1) by (simp_all add: conf_ok_def word_le_nat_alt)
  have "unat (10 * ?m) = 10 * unat ?m" by (subst unat_mult_lem [THEN iffD1]) (use m in simp_all)
  moreover have "unat (10 * ?m) \<le> unat dx"
    using assms(2) unfolding word_le_nat_alt unat_ucast_32_64 .
  ultimately have "unat dx \<noteq> 0" using m by linarith
  then show ?thesis by auto
qed

definition counters_of :: "sqlx_base \<Rightarrow> sqlx_base \<Rightarrow> bool" where
  "counters_of b b' \<longleftrightarrow>
     b_status b' = b_status b \<and> b_name b' = b_name b \<and> b_owner b' = b_owner b \<and>
     b_handle b' = b_handle b \<and> b_last_update b' = b_last_update b \<and> b_heat b' = b_heat b \<and>
     b_count_open b' = b_count_open b \<and> b_count_waiting b' = b_count_waiting b \<and>
     rrd_wf 60 (b_open_attempts b') \<and> rrd_wf 60 (b_open_wait_time b')"

lemma slot_ok_rrds:
  "slot_ok u k w b \<Longrightarrow> rrd_wf 60 (b_open_attempts b) \<and> rrd_wf 60 (b_open_wait_time b)"
  by (simp add: slot_ok_def)

lemma slot_ok_cong:
  assumes "slot_ok u k w b" "b_status b' = b_status b" "b_name b' = b_name b" "b_owner b' = b_owner b"
    "b_count_open b' = b_count_open b" "b_count_waiting b' = of_nat w'"
    "rrd_wf 60 (b_open_attempts b')" "rrd_wf 60 (b_open_wait_time b')"
  shows "slot_ok u k w' b'"
  using assms unfolding slot_ok_def by presburger

lemma counters_slot_ok: "slot_ok u k w b \<Longrightarrow> counters_of b b' \<Longrightarrow> slot_ok u k w b'"
  by (rule slot_ok_cong [of u k w b]) (simp_all add: counters_of_def slot_ok_def)

lemma counters_trans: "counters_of b b1 \<Longrightarrow> counters_of b1 b2 \<Longrightarrow> counters_of b b2"
  by (simp add: counters_of_def)

lemma counters_wf:
  "counters_of b b' \<Longrightarrow> rrd_wf 60 (b_open_attempts b')"
  "counters_of b b' \<Longrightarrow> rrd_wf 60 (b_open_wait_time b')"
  by (simp_all add: counters_of_def)

lemma load_too_high_total:
  assumes "rrd_wf 60 (b_open_attempts b)" "rrd_wf 60 (b_open_wait_time b)" "conf_ok conf"
    "60 \<le> now div 1000000"
  shows "\<exists>b' avg. load_too_high conf b now rt = Some (b', avg) \<and> counters_of b b'"
proof -
  let ?s = "now div 1000000"
  obtain ga dx gw dt where g: "grid_single_rrd_get_delta (b_open_attempts b) ?s 10 = Some (ga, dx)"
      "rrd_wf 60 ga" "grid_single_rrd_get_delta (b_open_wait_time b) ?s 10 = Some (gw, dt)" "rrd_wf 60 gw"
    using wf_delta [OF assms(1), of ?s 10] wf_delta [OF assms(2), of ?s 10] assms(4) by auto
  let ?b = "b\<lparr>b_open_attempts := ga, b_open_wait_time := gw\<rparr>"
  have "counters_of b ?b" using g by (simp add: counters_of_def)
  moreover have "\<exists>avg. load_too_high conf b now rt = Some (?b, avg)"
  proof (cases "ucast (10 * cache_min_load_on_heavy_load conf) \<le> dx")
    case True
    then have "dx \<noteq> 0" by (rule min_load_pos [OF assms(3)])
    with True show ?thesis unfolding load_too_high_def g(1,3) by (simp add: Let_def)
  next
    case False
    then show ?thesis unfolding load_too_high_def g(1,3) by (simp add: Let_def)
  qed
  ultimately show ?thesis by blast
qed

lemma accessible_total:
  assumes "rrd_wf 60 (b_open_attempts b)" "rrd_wf 60 (b_open_wait_time b)" "60 \<le> now div 1000000"
  shows "\<exists>b' acc. base_is_accessible conf b now period = Some (b', acc) \<and> counters_of b b'"
proof -
  let ?p = "CLAMP (period div 1000000) 1 60 :: guint64"
  have "?p \<le> 60" by (simp add: CLAMP_def not_less)
  then have "uint ?p \<le> 60" unfolding word_le_def by simp
  with wf_delta [OF assms(1), of "now div 1000000" "uint ?p"] assms(3) obtain g d where
    "grid_single_rrd_get_delta (b_open_attempts b) (now div 1000000) (uint ?p) = Some (g, d)" "rrd_wf 60 g"
    by auto
  then show ?thesis using assms(2) by (simp add: base_is_accessible_def Let_def counters_of_def)
qed

lemma inv_counters:
  assumes "cache_inv f G c" "slot_in c i" "counters_of (bases c ! i) b"
  shows "cache_inv f G (on_base i (\<lambda>_. b) c)"
  by (rule inv_on_base [OF assms(1,2)])
    (use assms(3) counters_slot_ok [OF inv_slot_ok [OF assms(1,2)]] in \<open>simp_all add: counters_of_def\<close>)

lemma inv_too_late:
  assumes inv: "cache_inv f G c" and i: "slot_in c i" and cf: "conf_ok conf" and e: "env_ok e"
  shows "\<exists>err c'. open_too_late conf e i x c = Some (err, c') \<and> cache_inv f G c'"
proof -
  note rrds = slot_ok_rrds [OF inv_slot_ok [OF inv i]] and secs = env_secs [OF e]
  obtain b1 acc where b1: "base_is_accessible conf (bases c ! i) (c_now e)
      (word_of_int (c_now e - o_start x)) = Some (b1, acc)" "counters_of (bases c ! i) b1"
    using accessible_total rrds secs by blast
  obtain b2 avg where b2: "load_too_high conf b1 (c_now e) 0 = Some (b2, avg)" "counters_of b1 b2"
    using load_too_high_total counters_wf [OF b1(2)] cf secs by blast
  show ?thesis
    using b1 b2 inv inv_counters [OF inv i b1(2)] inv_counters [OF inv i counters_trans [OF b1(2) b2(2)]]
    by (simp add: open_too_late_def Let_def)
qed

lemma inv_used_by_other:
  assumes inv: "cache_inv f G c" and i: "slot_in c i" and cf: "conf_ok conf" and e: "env_ok e"
    and st: "b_status (bases c ! i) = Some SQLX_BASE_USED"
  shows "\<exists>err c'. open_used_by_other conf e i x c = Some (err, c') \<and>
    cache_inv f (if err = None then set_waiters i (h_waiters G i + 1) G else G) c'"
proof -
  have wait: "cache_inv f (set_waiters i (h_waiters G i + 1) G)
      (on_base i (\<lambda>b. b\<lparr>b_count_waiting := b_count_waiting b + 1, b_heat := 1\<rparr>) c1)"
    if "cache_inv f G c1" "slot_in c1 i" for c1
  proof (rule inv_on_base [OF that])
    show "slot_holds (set_waiters i (h_waiters G i + 1) G) i
        ((bases c1 ! i)\<lparr>b_count_waiting := b_count_waiting (bases c1 ! i) + 1, b_heat := 1\<rparr>)"
      using inv_slot_ok [OF that]
      by (simp add: holder_defs) (rule slot_ok_cong, auto simp: slot_ok_def add.commute)
  qed (simp_all add: holder_defs)
  obtain b1 avg where b1: "load_too_high conf (bases c ! i) (c_now e)
      (o_deadline x - c_now e - (if \<not> cache_fail_on_heavy_load conf \<and> cache_alert_on_heavy_load conf
         then o_margin x else 0)) = Some (b1, avg)" "counters_of (bases c ! i) b1"
    using load_too_high_total slot_ok_rrds [OF inv_slot_ok [OF inv i]] cf env_secs [OF e] by blast
  note c1 = inv_counters [OF inv i b1(2)]
  have i1: "slot_in (on_base i (\<lambda>_. b1) c) i" using i by simp
  show ?thesis
  proof (cases "o_urgent x")
    case True
    then show ?thesis using wait [OF inv i] by (simp add: open_used_by_other_def Let_def)
  next
    case False
    then show ?thesis
      unfolding open_used_by_other_def Let_def b1(1)
      using c1 wait [OF c1 i1] by (cases "0 < avg \<and> cache_fail_on_heavy_load conf") simp_all
  qed
qed

lemma open_idle_fields [simp]:
  "bases_max_hard (open_idle e i c) = bases_max_hard c" "is_running (open_idle e i c) = is_running c"
  by (simp_all add: open_idle_def)

lemma inv_open_idle:
  assumes inv: "cache_inv f G c" and i: "slot_in c i"
    and st: "b_status (bases c ! i) = Some st0" "st0 = SQLX_BASE_IDLE \<or> st0 = SQLX_BASE_IDLE_HOT"
  shows "\<exists>f'. cache_inv f' (add_user (c_self e) i G) (open_idle e i c)"
    "b_name (bases (open_idle e i c) ! i) = b_name (bases c ! i)"
proof -
  have len: "i < length (bases c)" using inv_length [OF inv] i by simp
  have idle: "b_name (bases c ! i) \<noteq> None" "b_count_open (bases c ! i) = 0" "h_users G i = {#}"
    "h_closers G i = {#}" using slot_idle [OF inv_slot_ok [OF inv i]] st by auto
  let ?m = "moved (c_now e) SQLX_BASE_USED (bases c ! i)"
  let ?b = "?m\<lparr>b_count_open := b_count_open ?m + 1, b_owner := Some (c_self e)\<rparr>"
  note mv = inv_move [OF inv i st(1), where d = c and b = "bases c ! i" and st = SQLX_BASE_USED
      and now = "c_now e", simplified, OF st(1)]
  have bs: "bases (open_idle e i c) = (bases c)[i := ?b]"
    using mv(2) len by (simp add: open_idle_def)
  have wf: "cache_wf (lists_move st0 SQLX_BASE_USED i f) (open_idle e i c)"
    by (rule cache_wf_cong [OF mv(1)]) (use bs mv(2) len in \<open>simp_all add: open_idle_def map_update\<close>)
  have "cache_inv (lists_move st0 SQLX_BASE_USED i f) (add_user (c_self e) i G) (open_idle e i c)"
  proof (rule inv_update [OF inv i wf _ _ bs])
    show "names_ok (open_idle e i c)"
      by (rule names_same [OF inv _ _ bs]) (simp_all add: open_idle_def)
    show "slot_holds (add_user (c_self e) i G) i ?b"
      using inv_slot_ok [OF inv i] idle by (simp add: slot_ok_def holder_defs)
  qed (use st in \<open>auto simp: open_idle_def move_used holder_defs busy_def\<close>)
  then show "\<exists>f'. cache_inv f' (add_user (c_self e) i G) (open_idle e i c)" by blast
  show "b_name (bases (open_idle e i c) ! i) = b_name (bases c ! i)" using bs len by simp
qed

lemma inv_open_own:
  assumes inv: "cache_inv f G c" and i: "slot_in c i"
    and st: "b_status (bases c ! i) = Some SQLX_BASE_USED" "b_owner (bases c ! i) = Some t"
    and room: "size (h_users G i) + 1 < 2 ^ 32"
  shows "cache_inv f (add_user t i G)
    (on_base i (\<lambda>b. b\<lparr>b_owner := Some t, b_count_open := b_count_open b + 1\<rparr>) c)"
proof (rule inv_on_base [OF inv i])
  let ?b = "bases c ! i"
  from slot_USED [OF inv_slot_ok [OF inv i] st(1)] st(2)
  have us: "h_users G i = replicate_mset (unat (b_count_open ?b)) t" "b_name ?b \<noteq> None"
    "h_closers G i = {#}" by auto
  define n where "n = unat (b_count_open ?b)"
  have size: "size (h_users G i) = n" by (simp add: us n_def)
  have "unat (b_count_open ?b) + unat (1 :: guint32) < 2 ^ LENGTH(32)"
    using room unfolding size n_def by simp
  then have suc: "unat (b_count_open ?b + 1) = Suc n"
    using unat_add_lem [of "b_count_open ?b" 1] unfolding n_def by simp
  then have "b_count_open ?b + 1 \<noteq> 0" by (metis nat.distinct(1) unat_0)
  moreover have "h_users (add_user t i G) i = replicate_mset (unat (b_count_open ?b + 1)) t"
    unfolding suc by (simp add: holder_defs us n_def)
  moreover have "b_count_waiting ?b = of_nat (h_waiters G i)" "rrd_wf 60 (b_open_attempts ?b)"
    "rrd_wf 60 (b_open_wait_time ?b)" using inv_slot_ok [OF inv i] unfolding slot_ok_def by blast+
  ultimately show "slot_holds (add_user t i G) i
      (?b\<lparr>b_owner := Some t, b_count_open := b_count_open ?b + 1\<rparr>)"
    unfolding slot_ok_def using us(2,3) st(1) by (simp add: add_user_def)
qed (simp_all add: holder_defs)

text \<open>What each outcome of a pass means for the holders.\<close>

fun open_post :: "gthread \<Rightarrow> string \<Rightarrow> holders \<Rightarrow> open_outcome \<Rightarrow> sqlx_cache \<Rightarrow> bool" where
  "open_post t n G (Opened i) c \<longleftrightarrow>
     (\<exists>f. cache_inv f (add_user t i G) c) \<and> slot_in c i \<and> b_name (bases c ! i) = Some n"
| "open_post t n G (Failed err) c \<longleftrightarrow> (\<exists>f. cache_inv f G c)"
| "open_post t n G (Wait_used i) c \<longleftrightarrow> (\<exists>f. cache_inv f (set_waiters i (h_waiters G i + 1) G) c)"
| "open_post t n G (Wait_closing i) c \<longleftrightarrow> (\<exists>f. cache_inv f G c)"
| "open_post t n G (Recycle i) c \<longleftrightarrow> (\<exists>f. cache_inv f (add_closer t i G) c)"
| "open_post t n G Again c \<longleftrightarrow> False"
| "open_post t n G Stuck c \<longleftrightarrow> False"

lemma finish_unopened [simp]: "open_finish e False r x c = (r, x, c)"
  by (simp add: open_finish_def Let_def split: option.split)

lemma finish_opened:
  assumes inv: "cache_inv f G c" and i: "slot_in c i" and e: "env_ok e" and x: "o_base x = Some i"
  shows "\<exists>c'. open_finish e True r x c = (r, x, c') \<and> cache_inv f G c' \<and>
    bases_max_hard c' = bases_max_hard c \<and> b_name (bases c' ! i) = b_name (bases c ! i)"
proof -
  let ?b = "bases c ! i" and ?s = "c_end e div 1000000"
  have len: "i < length (bases c)" using inv_length [OF inv] i by simp
  note rrds = slot_ok_rrds [OF inv_slot_ok [OF inv i]] and secs = env_secs [OF e]
  have s0: "0 \<le> ?s" using secs by linarith
  obtain ga where ga: "grid_single_rrd_add (b_open_attempts ?b) ?s 1 = Some ga" "rrd_wf 60 ga"
    using wf_add [OF conjunct1 [OF rrds] s0] by blast
  obtain gw where gw: "grid_single_rrd_add (b_open_wait_time ?b) ?s (word_of_int (c_end e - o_start x)) = Some gw"
      "rrd_wf 60 gw"
    using wf_add [OF conjunct2 [OF rrds] s0] by blast
  note g = ga gw
  let ?h = "\<lambda>b. b\<lparr>b_open_attempts := ga, b_open_wait_time := gw, b_heat :=
      (if o_attempts x = 1 \<and> c_end e - o_start x < 1000 \<and> b_count_waiting b < 2 then 0 else b_heat b)\<rparr>"
  have "open_finish e True r x c = (r, x, on_base i ?h c)"
    unfolding open_finish_def x Let_def option.case g by simp
  moreover have "cache_inv f G (on_base i ?h c)"
  proof (rule inv_on_base [OF inv i])
    show "slot_holds G i (?h ?b)"
      by (rule slot_ok_cong [OF inv_slot_ok [OF inv i]])
        (use g inv_slot_ok [OF inv i] in \<open>simp_all add: slot_ok_def\<close>)
  qed simp_all
  ultimately show ?thesis using len by simp
qed

lemma attempt_new:
  assumes inv: "cache_inv f G c" and new: "bases_by_name c (o_hname x) = None"
    and r: "open_new conf e x c = (r, x', c')"
  shows "open_post (c_self e) (o_hname x) G r c'"
proof -
  obtain err res c1 where res: "sqlx_base_reserve e (o_hname x) c = (err, res, c1)"
    by (metis prod_cases3)
  from inv_reserve [OF inv new res] consider
    (slot) i f' where "err = None" "res = Some i" "slot_in c i" "cache_inv f' (add_user (c_self e) i G) c1"
      "b_name (bases c1 ! i) = Some (o_hname x)" "bases_max_hard c1 = bases_max_hard c"
  | (error) code where "err = Some code" "res = None" "c1 = c"
  | (full) "err = None" "res = None" "c1 = c" "has_idle_unlocked c"
    by (cases err) auto
  then show ?thesis
  proof cases
    case slot
    with r res show ?thesis by (auto simp: open_new_def)
  next
    case error
    with r res inv show ?thesis by (auto simp: open_new_def)
  next
    case full
    then obtain i c2 where first: "expire_first_idle_begin conf e 0 c = Some (i, c2)"
      using first_idle_found [OF inv, of conf e] by auto
    with full r res have "r = Recycle i" "c' = c2"
      by (auto simp: open_new_def)
    with inv_first_idle(1) [OF inv first] show ?thesis by simp
  qed
qed

lemma known_late:
  "o_deadline x \<le> c_now e \<Longrightarrow> open_too_late conf e i x c = Some (err, c1) \<Longrightarrow>
     open_known conf e i x c = (Failed err, x, c1)"
  by (simp add: open_known_def)

lemma known_in_time:
  assumes "\<not> o_deadline x \<le> c_now e"
  shows "b_status (bases c ! i) = Some SQLX_BASE_IDLE \<Longrightarrow>
      open_known conf e i x c = open_finish e True (Opened i) x (open_idle e i c)"
    "b_status (bases c ! i) = Some SQLX_BASE_IDLE_HOT \<Longrightarrow>
      open_known conf e i x c = open_finish e True (Opened i) x (open_idle e i c)"
    "b_status (bases c ! i) = Some SQLX_BASE_USED \<Longrightarrow> b_owner (bases c ! i) = Some (c_self e) \<Longrightarrow>
      open_known conf e i x c = (Opened i, x,
        on_base i (\<lambda>b. b\<lparr>b_owner := Some (c_self e), b_count_open := b_count_open b + 1\<rparr>) c)"
    "b_status (bases c ! i) = Some SQLX_BASE_USED \<Longrightarrow> b_owner (bases c ! i) \<noteq> Some (c_self e) \<Longrightarrow>
      open_used_by_other conf e i x c = Some (err, c1) \<Longrightarrow>
      open_known conf e i x c = (case err of None \<Rightarrow> Wait_used i | Some k \<Rightarrow> Failed k, x, c1)"
    "b_status (bases c ! i) = Some SQLX_BASE_CLOSING \<Longrightarrow> open_known conf e i x c = (Wait_closing i, x, c)"
    "b_status (bases c ! i) = Some SQLX_BASE_CLOSING_FOR_DELETION \<Longrightarrow>
      open_known conf e i x c = (Failed CODE_CONTAINER_NOTFOUND, x, c)"
  using assms by (simp_all add: open_known_def split: option.split)

lemma known_idle_ok:
  assumes inv: "cache_inv f G c" and i: "slot_in c i" and e: "env_ok e" and base: "o_base x = Some i"
    and st: "b_status (bases c ! i) = Some st0" "st0 = SQLX_BASE_IDLE \<or> st0 = SQLX_BASE_IDLE_HOT"
    and name: "b_name (bases c ! i) = Some n"
  shows "\<exists>c1. open_finish e True (Opened i) x (open_idle e i c) = (Opened i, x, c1) \<and>
    open_post (c_self e) n G (Opened i) c1"
proof -
  obtain f' where f': "cache_inv f' (add_user (c_self e) i G) (open_idle e i c)"
    using inv_open_idle(1) [OF inv i st] by blast
  have i': "slot_in (open_idle e i c) i" using i by simp
  obtain c1 where c1: "open_finish e True (Opened i) x (open_idle e i c) = (Opened i, x, c1)"
      "cache_inv f' (add_user (c_self e) i G) c1" "bases_max_hard c1 = bases_max_hard (open_idle e i c)"
      "b_name (bases c1 ! i) = b_name (bases (open_idle e i c) ! i)"
    using finish_opened [OF f' i' e base, of "Opened i"] by blast
  then have "open_post (c_self e) n G (Opened i) c1"
    using i name inv_open_idle(2) [OF inv i st] by auto
  with c1(1) show ?thesis by blast
qed

lemma attempt_known:
  assumes inv: "cache_inv f G c" and old: "bases_by_name c (o_hname x) = Some i"
    and cf: "conf_ok conf" and e: "env_ok e" and room: "size (h_users G i) + 1 < 2 ^ 32"
    and base: "o_base x = Some i"
  shows "\<exists>r c'. open_known conf e i x c = (r, x, c') \<and> open_post (c_self e) (o_hname x) G r c'"
proof -
  from inv_lookup [OF inv old] have i: "slot_in c i" and name: "b_name (bases c ! i) = Some (o_hname x)"
    by simp_all
  let ?b = "bases c ! i"
  note ok = inv_slot_ok [OF inv i]
  have post: ?thesis if "open_known conf e i x c = (r, x, c')" "open_post (c_self e) (o_hname x) G r c'" for r c'
    using that by blast
  show ?thesis
  proof (cases "o_deadline x \<le> c_now e")
    case True
    obtain err c1 where "open_too_late conf e i x c = Some (err, c1)" "cache_inv f G c1"
      using inv_too_late [OF inv i cf e] by blast
    with known_late [OF True] show ?thesis by (intro post) auto
  next
    case in_time: False
    note known = known_in_time [OF in_time]
    obtain st where st: "b_status ?b = Some st" using slot_status [OF ok] by blast
    show ?thesis
    proof (cases st)
      case SQLX_BASE_FREE
      with st slot_FREE [OF ok] name show ?thesis by simp
    next
      case SQLX_BASE_IDLE
      with st known(1) known_idle_ok [OF inv i e base st _ name] show ?thesis by auto
    next
      case SQLX_BASE_IDLE_HOT
      with st known(2) known_idle_ok [OF inv i e base st _ name] show ?thesis by auto
    next
      case SQLX_BASE_USED
      with st have used: "b_status ?b = Some SQLX_BASE_USED" by simp
      show ?thesis
      proof (cases "b_owner ?b = Some (c_self e)")
        case True
        from known(3) [OF used True] show ?thesis
          by (rule post) (use inv_open_own [OF inv i used True room] i name inv_length [OF inv] in auto)
      next
        case False
        obtain err c1 where o: "open_used_by_other conf e i x c = Some (err, c1)"
            "cache_inv f (if err = None then set_waiters i (h_waiters G i + 1) G else G) c1"
          using inv_used_by_other [OF inv i cf e used] by blast
        from known(4) [OF used False o(1)] show ?thesis
          by (rule post) (use o(2) in \<open>cases err, auto\<close>)
      qed
    next
      case SQLX_BASE_CLOSING
      with st have "b_status ?b = Some SQLX_BASE_CLOSING" by simp
      from known(5) [OF this] show ?thesis by (rule post) (use inv in auto)
    next
      case SQLX_BASE_CLOSING_FOR_DELETION
      with st have "b_status ?b = Some SQLX_BASE_CLOSING_FOR_DELETION" by simp
      from known(6) [OF this] show ?thesis by (rule post) (use inv in auto)
    qed
  qed
qed

lemma attempt_ok:
  assumes "cache_inv f G c" "conf_ok conf" "env_ok e" "\<And>i. size (h_users G i) + 1 < 2 ^ 32"
    and "open_attempt conf e x c = (r, x', c')"
  shows "open_post (c_self e) (o_hname x) G r c'"
proof (cases "is_running c")
  case run: True
  let ?x = "x\<lparr>o_attempts := o_attempts x + 1\<rparr>"
  show ?thesis
  proof (cases "bases_by_name c (o_hname x)")
    case None
    with run assms(5) have "open_new conf e ?x c = (r, x', c')"
      by (simp add: open_attempt_def sqlx_lookup_id_def)
    from attempt_new [OF assms(1) _ this] None show ?thesis by simp
  next
    case (Some i)
    with run assms(5) have "open_known conf e i (?x\<lparr>o_base := Some i\<rparr>) c = (r, x', c')"
      by (simp add: open_attempt_def sqlx_lookup_id_def)
    with attempt_known [OF assms(1) _ assms(2,3,4), of "?x\<lparr>o_base := Some i\<rparr>" i] Some
    show ?thesis by auto
  qed
next
  case False
  with assms show ?thesis by (auto simp: open_attempt_def Let_def)
qed

lemma inv_wait_end:
  assumes inv: "cache_inv f G c" and w: "h_waiters G i > 0"
  shows "cache_inv f (set_waiters i (h_waiters G i - 1) G) (open_wait_end i c)"
proof -
  have i: "slot_in c i" using inv w by (auto simp: cache_inv_def)
  show ?thesis
    unfolding open_wait_end_def
  proof (rule inv_on_base [OF inv i])
    have "b_count_waiting (bases c ! i) = of_nat (h_waiters G i)"
      using inv_slot_ok [OF inv i] by (simp add: slot_ok_def)
    then have "b_count_waiting (bases c ! i) - 1 = of_nat (h_waiters G i - 1)"
      using w by (simp add: of_nat_diff)
    then show "slot_holds (set_waiters i (h_waiters G i - 1) G) i
        ((bases c ! i)\<lparr>b_count_waiting := b_count_waiting (bases c ! i) - 1\<rparr>)"
      using slot_ok_cong [OF inv_slot_ok [OF inv i]] slot_ok_rrds [OF inv_slot_ok [OF inv i]]
      by (simp add: holder_defs)
  qed (simp_all add: holder_defs)
qed

section \<open>Closing\<close>

fun close_post :: "gthread \<Rightarrow> nat \<Rightarrow> holders \<Rightarrow> close_outcome \<Rightarrow> sqlx_cache \<Rightarrow> bool" where
  "close_post t i G Closed c \<longleftrightarrow> (\<exists>f. cache_inv f (del_user t i G) c)"
| "close_post t i G (Close_expiring j) c \<longleftrightarrow> (\<exists>f. cache_inv f (add_closer t j (del_user t i G)) c)"
| "close_post t i G (Close_failed err) c \<longleftrightarrow> False"
| "close_post t i G Close_stuck c \<longleftrightarrow> False"

text \<open>A slot its last user releases.\<close>

lemma last_user:
  assumes "slot_ok us cs w b" "b_status b = Some SQLX_BASE_USED" "t \<in># us"
  shows "b_owner b = Some t" "b_name b \<noteq> None" "cs = {#}"
    "b_count_open b - 1 = 0 \<Longrightarrow> us - {#t#} = {#}"
    "us - {#t#} = replicate_mset (unat (b_count_open b - 1)) t"
proof -
  from slot_USED [OF assms(1,2)] assms(3) have us: "us = replicate_mset (unat (b_count_open b)) t"
    and *: "b_count_open b \<noteq> 0" "b_owner b = Some t" "b_name b \<noteq> None" "cs = {#}"
    by (auto simp del: set_mset_replicate_mset_subset dest: in_replicate_mset [THEN iffD1])
  then show "b_owner b = Some t" "b_name b \<noteq> None" "cs = {#}" by simp_all
  have n: "unat (b_count_open b - 1) = unat (b_count_open b) - 1" using * by (simp add: unat_minus_one)
  have pos: "0 < unat (b_count_open b)" using * by (simp add: unat_gt_0)
  then obtain m where "unat (b_count_open b) = Suc m" by (cases "unat (b_count_open b)") auto
  with us n show eq: "us - {#t#} = replicate_mset (unat (b_count_open b - 1)) t" by simp
  then show "us - {#t#} = {#}" if "b_count_open b - 1 = 0" using that by simp
qed

lemma h_users_del [simp]: "h_users (del_user t i G) i = h_users G i - {#t#}"
  by (simp add: del_user_def)

lemma close_post_idle:
  assumes inv: "cache_inv f G c" and i: "slot_in c i" and us: "c_self e \<in># h_users G i"
    and st: "b_status (bases c ! i) = Some SQLX_BASE_USED" and last: "b_count_open (bases c ! i) - 1 = 0"
    and r: "close_to_idle conf e i (on_base i (\<lambda>b. b\<lparr>b_count_open := b_count_open b - 1\<rparr>) c) = (r, c')"
  shows "close_post (c_self e) i G r c'"
proof -
  let ?t = "c_self e" and ?b = "bases c ! i"
  let ?c1 = "on_base i (\<lambda>b. b\<lparr>b_count_open := b_count_open b - 1\<rparr>) c"
  have len: "i < length (bases c)" using inv_length [OF inv] i by simp
  note lu = last_user [OF inv_slot_ok [OF inv i] st us]
  define c2 where "c2 = (if unlock_hook ?c1
      then ?c1\<lparr>hook_calls := hook_calls ?c1 @ [Unlock_hook (b_handle (bases ?c1 ! i))]\<rparr> else ?c1)"
  define c3 where "c3 = on_base i (\<lambda>b. b\<lparr>b_owner := None\<rparr>) c2"
  define st1 where "st1 = (if b_heat (bases c3 ! i) \<ge> cache_heat_threshold conf
      then SQLX_BASE_IDLE_HOT else SQLX_BASE_IDLE)"
  define c4 where "c4 = sqlx_base_move_to_list (c_now e) i st1 c3"
  let ?b3 = "?b\<lparr>b_count_open := b_count_open ?b - 1, b_owner := None\<rparr>"
  have c3: "bases c3 = (bases c)[i := ?b3]" "blinks c3 = blinks c" "beacon_of c3 = beacon_of c"
    "bases_max_hard c3 = bases_max_hard c" "bases_max_soft c3 = bases_max_soft c"
    "bases_by_name c3 = bases_by_name c" "bases_used c3 = bases_used c"
    using len by (auto simp: c3_def c2_def)
  have b3: "b_status ?b3 = Some SQLX_BASE_USED" using st by simp
  note mv = inv_move [OF inv i st c3(1) b3 c3(2-4), where st = st1 and now = "c_now e", folded c4_def]
  have idle: "st1 = SQLX_BASE_IDLE \<or> st1 = SQLX_BASE_IDLE_HOT" by (simp add: st1_def)
  have inv4: "cache_inv (lists_move SQLX_BASE_USED st1 i f) (del_user ?t i G) c4"
  proof (rule inv_update [OF inv i mv(1) _ _ mv(2)])
    show "names_ok c4"
      by (rule names_same [OF inv _ _ mv(2)]) (simp_all add: c4_def c3)
    show "slot_holds (del_user ?t i G) i (moved (c_now e) st1 ?b3)"
      using inv_slot_ok [OF inv i] lu(2,3) lu(4) [OF last] last idle
      by (auto simp: slot_ok_def del_user_def)
  qed (use idle st c3 in \<open>auto simp: c4_def move_used holder_defs busy_def\<close>)
  have "close_to_idle conf e i ?c1 = (if ram_exhausted conf c4 \<and> has_idle_unlocked c4
      then (case expire_first_idle_begin conf e 0 c4 of
              Some (j, c5) \<Rightarrow> (Close_expiring j, c5) | None \<Rightarrow> (Closed, c4))
      else (Closed, c4))"
    unfolding close_to_idle_def Let_def c4_def st1_def c3_def c2_def by (rule refl)
  with r inv4 inv_first_idle(1) [OF inv4, of conf e 0] show ?thesis
    by (auto split: if_splits option.splits)
qed

lemma close_ok:
  assumes inv: "cache_inv f G c" and us: "c_self e \<in># h_users G i"
    and r: "sqlx_cache_unlock_and_close_base conf e (int i) flags c = (r, c')"
  shows "close_post (c_self e) i G r c'"
proof -
  let ?t = "c_self e" and ?b = "bases c ! i"
  let ?g = "\<lambda>b. b\<lparr>b_count_open := b_count_open b - 1\<rparr>"
  let ?c1 = "on_base i ?g c"
  have i: "slot_in c i" using inv us by (auto simp: cache_inv_def)
  note ok = inv_slot_ok [OF inv i]
  have len: "i < length (bases c)" using inv_length [OF inv] i by simp
  obtain st0 where "b_status ?b = Some st0" using slot_status [OF ok] by blast
  with ok us have st: "b_status ?b = Some SQLX_BASE_USED" by (cases st0) (auto simp: slot_ok_def)
  note lu = last_user [OF ok st us]
  from slot_USED [OF ok st] have n0: "b_count_open ?b \<noteq> 0" by simp
  then have "\<not> b_count_open ?b < 1" by (simp add: word_less_1)
  with i st lu(1) len r have r': "(if b_count_open ?b - 1 \<noteq> 0 then (Closed, ?c1)
      else if and flags (or 1 2) \<noteq> 0 then (Close_expiring i, expire_base_begin e (and flags 2 \<noteq> 0) i ?c1)
      else close_to_idle conf e i ?c1) = (r, c')"
    by (simp add: sqlx_cache_unlock_and_close_base_def base_id_out_def Let_def split: if_splits)
  have b1: "bases ?c1 = (bases c)[i := ?g ?b]" by simp
  have wf1: "cache_wf f ?c1"
    by (rule cache_wf_cong [OF inv_wf [OF inv]])
      (use len in \<open>simp_all add: map_update, metis list_update_id length_map nth_map\<close>)
  consider (again) "b_count_open ?b - 1 \<noteq> 0" "r = Closed" "c' = ?c1"
    | (expire) dl where "b_count_open ?b - 1 = 0" "r = Close_expiring i" "c' = expire_base_begin e dl i ?c1"
    | (idle) "b_count_open ?b - 1 = 0" "close_to_idle conf e i ?c1 = (r, c')"
    using r' by (auto split: if_splits)
  then show ?thesis
  proof cases
    case again
    have "cache_inv f (del_user ?t i G) ?c1"
    proof (rule inv_on_base [OF inv i])
      show "slot_holds (del_user ?t i G) i (?g ?b)"
        using ok lu(1,2,3,5) again(1) st by (simp add: slot_ok_def del_user_def)
    qed (simp_all add: holder_defs)
    with again show ?thesis by auto
  next
    case expire
    have "cache_inv (lists_move SQLX_BASE_USED (closing dl) i f)
        (add_closer ?t i (G\<lparr>h_users := (h_users G)(i := {#})\<rparr>)) (expire_base_begin e dl i ?c1)"
      by (rule inv_begin [OF inv i lu(2,3) _ wf1 b1]) (use st lu expire(1) in simp_all)
    moreover have "G\<lparr>h_users := (h_users G)(i := {#})\<rparr> = del_user ?t i G"
      using lu(4) [OF expire(1)] by (simp add: del_user_def)
    ultimately show ?thesis using expire by auto
  next
    case idle
    from close_post_idle [OF inv i us st idle] show ?thesis .
  qed
qed

lemma inv_set_handle:
  assumes inv: "cache_inv f G c" and i: "slot_in c i"
  shows "cache_inv f G (sqlx_cache_set_handle i h c)"
  unfolding sqlx_cache_set_handle_def
proof (rule inv_on_base [OF inv i])
  show "slot_holds G i ((bases c ! i)\<lparr>b_handle := h\<rparr>)"
    by (rule slot_ok_cong [OF inv_slot_ok [OF inv i]])
      (use inv_slot_ok [OF inv i] in \<open>simp_all add: slot_ok_def\<close>)
qed simp_all

end
