(* ===== verification/Cache_System.thy ===== *)
theory Cache_System
  imports Cache_Open
begin

text \<open>
  The cache of bases with its threads: any interleaving of the critical sections of its
  operations.  The clients only close and configure what they hold.
\<close>

section \<open>The initial cache\<close>

definition no_holders :: holders where
  "no_holders = \<lparr>h_users = (\<lambda>_. {#}), h_closers = (\<lambda>_. {#}), h_waiters = (\<lambda>_. 0)\<rparr>"

lemma CLAMP_le: "low \<le> high \<Longrightarrow> CLAMP x low high \<le> high"
  by (simp add: CLAMP_def not_less)

definition stacked :: "time \<Rightarrow> nat \<Rightarrow> sqlx_cache \<Rightarrow> nat \<Rightarrow> sqlx_cache" where
  "stacked now n c k = fold (\<lambda>i. SQLX_UNSHIFT now i SQLX_BASE_FREE) (rev [k..<n]) c"

definition free_lists :: "nat \<Rightarrow> nat \<Rightarrow> sqlx_base_status \<Rightarrow> nat list" where
  "free_lists k n st = (if st = SQLX_BASE_FREE then [k..<n] else [])"

definition free_base :: "time \<Rightarrow> sqlx_base \<Rightarrow> sqlx_base" where
  "free_base now b = b\<lparr>b_status := Some SQLX_BASE_FREE, b_last_update := now\<rparr>"

lemma stack_free:
  assumes "k \<le> n" and c: "bases c = replicate n b" "b_status b = None" "n = unat (bases_max_hard c)"
    "blinks c = \<lparr>lprev = (\<lambda>_. None), lnext = (\<lambda>_. None)\<rparr>" "beacon_of c = (\<lambda>_. \<lparr>bfront = None, bback = None\<rparr>)"
  shows "cache_wf (free_lists k n) (stacked now n c k) \<and> bases (stacked now n c k) = replicate k b @ replicate (n - k) (free_base now b) \<and>
    bases_max_hard (stacked now n c k) = bases_max_hard c \<and> bases_max_soft (stacked now n c k) = bases_max_soft c \<and>
    bases_by_name (stacked now n c k) = bases_by_name c \<and> bases_used (stacked now n c k) = bases_used c"
  using assms(1)
proof (induction k rule: inc_induct)
  case base
  have "fam_rep (blinks c) (beacon_of c) (\<lambda>_. [])"
    by (rule fam_repI) (simp_all add: c is_deque_def clean_node_def)
  moreover have "free_lists n n = (\<lambda>_. [])" by (simp add: free_lists_def fun_eq_iff)
  ultimately show ?case
    using c by (simp add: stacked_def cache_wf_def lists_rep_def)
next
  case (step k)
  let ?f = "free_lists (Suc k) n" and ?D = "stacked now n c"
  from step have wf: "cache_wf ?f (?D (Suc k))"
    and bs: "bases (?D (Suc k)) = replicate (Suc k) b @ replicate (n - Suc k) (free_base now b)"
    and hard: "bases_max_hard (?D (Suc k)) = bases_max_hard c" by simp_all
  have D: "?D k = SQLX_UNSHIFT now k SQLX_BASE_FREE (?D (Suc k))"
    using step(2) by (simp add: stacked_def upt_conv_Cons)
  have kb: "bases (?D (Suc k)) ! k = b" by (simp add: bs nth_append del: replicate_Suc)
  have "pre_wf ?f k (?D (Suc k))"
    using wf kb c(2,3) hard step(2) by (auto simp: pre_wf_def cache_wf_def)
  moreover have "?f(SQLX_BASE_FREE := k # ?f SQLX_BASE_FREE) = free_lists k n"
    using step(2) by (simp add: free_lists_def fun_eq_iff upt_conv_Cons)
  ultimately have "cache_wf (free_lists k n) (?D k)"
    using UNSHIFT_wf [of ?f k "?D (Suc k)" SQLX_BASE_FREE now] unfolding D by (simp add: listed_def)
  moreover have "bases (stacked now n c k) = replicate k b @ replicate (n - k) (free_base now b)"
    using step(2) kb unfolding D UNSHIFT_simps bs
    by (simp add: replicate_append_same [symmetric] list_update_append free_base_def Suc_diff_Suc [symmetric])
  ultimately show ?case using step by (simp add: D)
qed

lemma inv_init:
  assumes "0 \<le> c_now e"
  shows "\<exists>f. cache_inv f no_holders (sqlx_cache_init conf e)"
proof -
  define hard where "hard = (if sqliterepo_repo_max_bases_hard conf \<noteq> 0
      then sqliterepo_repo_max_bases_hard conf else 1024)"
  define g where "g = grid_single_rrd_create (c_now e div 1000000) 60"
  define b where "b = \<lparr>b_name = None, b_owner = None, b_handle = None, b_last_update = 0, b_heat = 0,
      b_count_open = 0, b_count_waiting = 0, b_status = None, b_open_attempts = g, b_open_wait_time = g\<rparr>"
  define c where "c = \<lparr>bases_by_name = (\<lambda>_. None), bases = replicate (unat hard) b,
      blinks = \<lparr>lprev = (\<lambda>_. None), lnext = (\<lambda>_. None)\<rparr>,
      bases_max_soft = CLAMP (sqliterepo_repo_max_bases_soft conf) 1 hard,
      bases_max_hard = hard, bases_used = 0, is_running = False, last_memory_usage = 0,
      beacon_of = (\<lambda>_. \<lparr>bfront = None, bback = None\<rparr>),
      unlock_hook = False, close_hook = False, hook_calls = []\<rparr>"
  define d where "d = stacked (c_now e) (unat hard) c 0"
  have init: "sqlx_cache_init conf e = d\<lparr>is_running := True\<rparr>"
    unfolding sqlx_cache_init_def Let_def d_def stacked_def c_def b_def g_def hard_def by (rule refl)
  have c: "bases c = replicate (unat hard) b" "b_status b = None" "unat hard = unat (bases_max_hard c)"
    "blinks c = \<lparr>lprev = (\<lambda>_. None), lnext = (\<lambda>_. None)\<rparr>"
    "beacon_of c = (\<lambda>_. \<lparr>bfront = None, bback = None\<rparr>)" "bases_max_hard c = hard"
    "bases_max_soft c = CLAMP (sqliterepo_repo_max_bases_soft conf) 1 hard" "bases_by_name c = (\<lambda>_. None)"
    "bases_used c = 0"
    by (simp_all add: c_def b_def)
  note st = stack_free [OF le0 c(1-5), of "c_now e", folded d_def]
  have d: "cache_wf (free_lists 0 (unat hard)) d" "bases d = replicate (unat hard) (free_base (c_now e) b)"
    "bases_max_hard d = hard" "bases_max_soft d = CLAMP (sqliterepo_repo_max_bases_soft conf) 1 hard"
    "bases_by_name d = (\<lambda>_. None)" "bases_used d = 0"
    using st by (simp_all add: c(6-9))
  have "rrd_wf 60 g" unfolding g_def by (rule wf_create) (use assms in simp_all)
  then have ok: "slot_ok {#} {#} 0 (free_base (c_now e) b)"
    by (simp add: slot_ok_def free_base_def b_def)
  have "hard \<noteq> 0" by (simp add: hard_def)
  then have "1 \<le> hard" unfolding linorder_not_less [symmetric] by (simp add: word_less_1)
  then have "bases_max_soft d \<le> bases_max_hard d" by (simp add: d CLAMP_le)
  moreover have "cache_wf (free_lists 0 (unat hard)) (d\<lparr>is_running := True\<rparr>)"
    by (rule cache_wf_cong [OF d(1)]) simp_all
  moreover have "sum_list (map busy (bases d)) = 0" by (simp add: d busy_def free_base_def)
  ultimately have "cache_inv (free_lists 0 (unat hard)) no_holders (d\<lparr>is_running := True\<rparr>)"
    using d ok by (auto simp: cache_inv_def names_ok_def no_holders_def free_base_def b_def)
  then show ?thesis unfolding init by blast
qed

section \<open>The interleavings\<close>

fun open_holders :: "gthread \<Rightarrow> open_outcome \<Rightarrow> holders \<Rightarrow> holders" where
  "open_holders t (Opened i) G = add_user t i G"
| "open_holders t (Wait_used i) G = set_waiters i (h_waiters G i + 1) G"
| "open_holders t (Recycle i) G = add_closer t i G"
| "open_holders t r G = G"

fun close_holders :: "gthread \<Rightarrow> nat \<Rightarrow> close_outcome \<Rightarrow> holders \<Rightarrow> holders" where
  "close_holders t i Closed G = del_user t i G"
| "close_holders t i (Close_expiring j) G = add_closer t j (del_user t i G)"
| "close_holders t i r G = G"

inductive cache_step :: "sqlx_cache \<times> holders \<Rightarrow> sqlx_cache \<times> holders \<Rightarrow> bool" where
  pass: "conf_ok conf \<Longrightarrow> env_ok e \<Longrightarrow> (\<And>i. size (h_users G i) + 1 < 2 ^ 32) \<Longrightarrow>
    open_attempt conf e x c = (r, x', c') \<Longrightarrow> cache_step (c, G) (c', open_holders (c_self e) r G)"
| wait_end: "0 < h_waiters G i \<Longrightarrow>
    cache_step (c, G) (open_wait_end i c, set_waiters i (h_waiters G i - 1) G)"
| unlock: "c_self e \<in># h_users G i \<Longrightarrow>
    sqlx_cache_unlock_and_close_base conf e (int i) flags c = (r, c') \<Longrightarrow>
    cache_step (c, G) (c', close_holders (c_self e) i r G)"
| expire: "expire_first_idle_begin conf e now c = Some (i, c') \<Longrightarrow>
    cache_step (c, G) (c', add_closer (c_self e) i G)"
| expired: "t \<in># h_closers G i \<Longrightarrow> cache_step (c, G) (expire_base_end e i c, del_closer t i G)"
| set_handle: "t \<in># h_users G i \<Longrightarrow> cache_step (c, G) (sqlx_cache_set_handle i h c, G)"
| reconfigure: "cache_step (c, G) (sqlx_cache_reconfigure conf c, G)"
| set_running: "cache_step (c, G) (sqlx_cache_set_running b c, G)"
| set_unlock_hook: "cache_step (c, G) (sqlx_cache_set_unlock_hook b c, G)"
| set_close_hook: "cache_step (c, G) (sqlx_cache_set_close_hook b c, G)"
| set_memory: "cache_step (c, G) (sqlx_cache_set_last_memory_usage u c, G)"

inductive cache_reach :: "sqlx_cache \<times> holders \<Rightarrow> bool" where
  init: "0 \<le> c_now e \<Longrightarrow> cache_reach (sqlx_cache_init conf e, no_holders)"
| step: "cache_reach s \<Longrightarrow> cache_step s s' \<Longrightarrow> cache_reach s'"

lemma inv_same:
  assumes inv: "cache_inv f G c"
    and "bases c' = bases c" "blinks c' = blinks c" "beacon_of c' = beacon_of c"
      "bases_max_hard c' = bases_max_hard c" "bases_by_name c' = bases_by_name c"
      "bases_used c' = bases_used c" "bases_max_soft c' \<le> bases_max_hard c"
  shows "cache_inv f G c'"
proof -
  have "cache_wf f c'" by (rule cache_wf_cong [OF inv_wf [OF inv]]) (simp_all add: assms)
  with assms show ?thesis by (simp add: cache_inv_def names_ok_def)
qed

lemma inv_reconfigure:
  assumes inv: "cache_inv f G c"
  shows "cache_inv f G (sqlx_cache_reconfigure conf c)"
proof (rule inv_same [OF inv])
  show "bases_max_soft (sqlx_cache_reconfigure conf c) \<le> bases_max_hard c"
    by (auto simp: sqlx_cache_reconfigure_def CLAMP_def not_less not_le)
qed (simp_all add: sqlx_cache_reconfigure_def)

lemma open_post_holders:
  "open_post t n G r c \<Longrightarrow> \<exists>f. cache_inv f (open_holders t r G) c"
  by (cases r) auto

lemma close_post_holders:
  "close_post t i G r c \<Longrightarrow> \<exists>f. cache_inv f (close_holders t i r G) c"
  by (cases r) auto

theorem cache_reach_inv: "cache_reach (c, G) \<Longrightarrow> \<exists>f. cache_inv f G c"
proof (induction "(c, G)" arbitrary: c G rule: cache_reach.induct)
  case (init e conf)
  then show ?case by (rule inv_init)
next
  case (step s c' G')
  obtain c G where s: "s = (c, G)" by (cases s)
  with step.hyps(2) obtain f where inv: "cache_inv f G c" by blast
  from step.hyps(3) [unfolded s] show ?case
  proof cases
    case (pass conf e x r x')
    from attempt_ok [OF inv pass(2-5)] have "open_post (c_self e) (o_hname x) G r c'" .
    with pass(1) show ?thesis by (auto intro: open_post_holders)
  next
    case (wait_end i)
    with inv_wait_end [OF inv] show ?thesis by auto
  next
    case (unlock e i conf flags r)
    with close_ok [OF inv] show ?thesis by (auto intro: close_post_holders)
  next
    case (expire conf e now i)
    with inv_first_idle(1) [OF inv] show ?thesis by auto
  next
    case (expired t i e)
    with inv_expire_end(1) [OF inv] show ?thesis by auto
  next
    case (set_handle t i h)
    moreover from this have "slot_in c i" using inv by (auto simp: cache_inv_def)
    ultimately show ?thesis using inv_set_handle [OF inv] by auto
  next
    case (reconfigure conf)
    with inv_reconfigure [OF inv] show ?thesis by auto
  next
    case (set_running b)
    with inv_same [OF inv, of c'] inv show ?thesis by (auto simp: sqlx_cache_set_running_def cache_inv_def)
  next
    case (set_unlock_hook b)
    with inv_same [OF inv, of c'] inv show ?thesis by (auto simp: sqlx_cache_set_unlock_hook_def cache_inv_def)
  next
    case (set_close_hook b)
    with inv_same [OF inv, of c'] inv show ?thesis by (auto simp: sqlx_cache_set_close_hook_def cache_inv_def)
  next
    case (set_memory u)
    with inv_same [OF inv, of c'] inv show ?thesis
      by (auto simp: sqlx_cache_set_last_memory_usage_def cache_inv_def)
  qed
qed

end
