(* ===== verification/Cache_Props.thy ===== *)
theory Cache_Props
  imports Cache_System
begin

text \<open>
  Properties of the cache of bases, in every state its threads can reach.
\<close>

section \<open>Examples\<close>

definition conf0 :: cache_conf where
  "conf0 = \<lparr>sqliterepo_max_rss = 0, sqliterepo_repo_max_bases_soft = 2, sqliterepo_repo_max_bases_hard = 2,
     cache_fail_on_heavy_load = True, cache_alert_on_heavy_load = True, cache_min_load_on_heavy_load = 64,
     cache_timeout_open = 20000000, cache_period_cond_wait = 1000000, cache_heat_threshold = 1,
     cache_grace_delay_cool = 1000, cache_grace_delay_hot = 1000\<rparr>"

definition tick :: "gthread \<Rightarrow> time \<Rightarrow> cache_env" where
  "tick t now = \<lparr>c_self = t, c_now = now, c_end = now + 10\<rparr>"

definition ctx0 :: "string \<Rightarrow> open_ctx" where
  "ctx0 n = open_begin conf0 (tick 1 100000000) n False 0"

definition cache0 :: sqlx_cache where
  "cache0 = sqlx_cache_init conf0 (tick 1 100000000)"

lemma conf0_ok: "conf_ok conf0"
  by (simp add: conf_ok_def conf0_def)

lemma tick_ok: "60000000 \<le> now \<Longrightarrow> env_ok (tick t now)"
  by (simp add: env_ok_def tick_def)

lemma cache0_reach: "cache_reach (cache0, no_holders)"
  unfolding cache0_def by (rule cache_reach.init) (simp add: tick_def)

lemma stacked_fields:
  "bases_used (fold (\<lambda>i. SQLX_UNSHIFT now i st) is c) = bases_used c"
  "bases_by_name (fold (\<lambda>i. SQLX_UNSHIFT now i st) is c) = bases_by_name c"
  "bases_max_soft (fold (\<lambda>i. SQLX_UNSHIFT now i st) is c) = bases_max_soft c"
  "bases_max_hard (fold (\<lambda>i. SQLX_UNSHIFT now i st) is c) = bases_max_hard c"
  by (induction "is" arbitrary: c) simp_all

lemma cache0_fields:
  "bases_used cache0 = 0" "bases_by_name cache0 = (\<lambda>_. None)" "bases_max_soft cache0 = 2" "is_running cache0"
  by (simp_all add: cache0_def sqlx_cache_init_def Let_def stacked_fields conf0_def CLAMP_def)

lemma held_example:
  "\<exists>c i. cache_reach (c, add_user 1 i no_holders) \<and> is_running c \<and> bases_by_name c ''A'' = Some i \<and>
     b_status (bases c ! i) = Some SQLX_BASE_USED \<and> b_owner (bases c ! i) = Some 1"
proof -
  let ?e = "tick 1 100000000"
  obtain f where inv: "cache_inv f no_holders cache0" using cache_reach_inv [OF cache0_reach] by blast
  obtain r x c where pass: "open_attempt conf0 ?e (ctx0 ''A'') cache0 = (r, x, c)" by (metis prod_cases3)
  have env: "env_ok ?e" by (simp add: tick_ok)
  have room: "size (h_users no_holders i) + 1 < 2 ^ 32" for i by (simp add: no_holders_def)
  have step: "cache_step (cache0, no_holders) (c, open_holders 1 r no_holders)"
    using cache_step.pass [OF conf0_ok env room pass] by (simp add: tick_def)
  obtain err res c1 where res: "sqlx_base_reserve ?e ''A'' cache0 = (err, res, c1)" by (metis prod_cases3)
  from inv_reserve [OF inv _ res] obtain i where i: "err = None" "res = Some i"
    by (auto simp: cache0_fields)
  with res pass have ri: "r = Opened i" "c = c1"
    by (auto simp: open_attempt_def Let_def sqlx_lookup_id_def cache0_fields open_new_def ctx0_def open_begin_def)
  have run: "is_running c"
    using res i cache0_fields unfolding ri
    by (auto simp: sqlx_base_reserve_def Let_def sqlx_save_id_def split: if_splits option.splits)
  from attempt_ok [OF inv conf0_ok env room pass] ri(1) obtain f' where
    inv': "cache_inv f' (add_user 1 i no_holders) c" and slot: "slot_in c i" "b_name (bases c ! i) = Some ''A''"
    by (auto simp: ctx0_def open_begin_def Let_def tick_def)
  note ok = inv_slot_ok [OF inv' slot(1)]
  have user: "1 \<in># h_users (add_user 1 i no_holders) i" by (simp add: add_user_def)
  obtain st where "b_status (bases c ! i) = Some st" using slot_status [OF ok] by blast
  with ok user have st: "b_status (bases c ! i) = Some SQLX_BASE_USED"
    by (cases st) (auto simp: slot_ok_def)
  with last_user(1) [OF ok st user] run slot inv_names [OF inv']
    cache_reach.step [OF cache0_reach step] ri(1)
  show ?thesis by (intro exI [of _ c] exI [of _ i]) simp
qed

section \<open>Mutual exclusion\<close>

text \<open>
  C3: a base is open in one slot at most and locked by one thread at most, whatever the
  interleaving of the openings, closings and expirations.
\<close>

theorem base_held_once:
  assumes reach: "cache_reach (c, G)" and t: "t \<in># h_users G i" and t': "t' \<in># h_users G j"
    and same: "b_name (bases c ! i) = b_name (bases c ! j)"
  shows "i = j \<and> t = t' \<and> b_status (bases c ! i) = Some SQLX_BASE_USED \<and> b_owner (bases c ! i) = Some t"
proof -
  obtain f where inv: "cache_inv f G c" using cache_reach_inv [OF reach] by blast
  have used: "slot_in c k \<and> b_status (bases c ! k) = Some SQLX_BASE_USED \<and> b_owner (bases c ! k) = Some u"
    if "u \<in># h_users G k" for u k
  proof -
    have k: "slot_in c k" using inv that by (auto simp: cache_inv_def)
    then obtain st where "b_status (bases c ! k) = Some st" using slot_status [OF inv_slot_ok [OF inv]] by blast
    with inv_slot_ok [OF inv k] that have "b_status (bases c ! k) = Some SQLX_BASE_USED"
      by (cases st) (auto simp: slot_ok_def)
    with k last_user(1) [OF inv_slot_ok [OF inv k] _ that] show ?thesis by simp
  qed
  obtain n where "b_name (bases c ! i) = Some n"
    using slot_USED [OF inv_slot_ok [OF inv]] used [OF t] by blast
  with same used [OF t] used [OF t'] have "bases_by_name c n = Some i" "bases_by_name c n = Some j"
    using inv_names [OF inv] by auto
  with used [OF t] used [OF t'] show ?thesis by auto
qed

theorem base_held_once_witness:
  "\<exists>c i. cache_reach (c, add_user 1 i no_holders) \<and> b_owner (bases c ! i) = Some 1"
proof -
  obtain c i where r: "cache_reach (c, add_user 1 i no_holders)" using held_example by blast
  have "1 \<in># h_users (add_user 1 i no_holders) i" by (simp add: add_user_def)
  from base_held_once [OF r this this refl] r show ?thesis by blast
qed

section \<open>Openings and closings\<close>



text \<open>
  C16: the outcome of a pass on a known base, by the status of its slot: after the deadline an
  error, in time the base when it is idle or already locked by the thread, a wait when another
  thread has it (or an error on heavy load) or closes it, and an error when it is being deleted.
\<close>

theorem open_by_status:
  assumes "cache_reach (c, G)" "conf_ok conf" "env_ok e" "is_running c" "bases_by_name c (o_hname x) = Some i"
  shows "fst (open_attempt conf e x c) \<in>
    (if o_deadline x \<le> c_now e then {Failed CODE_GATEWAY_TIMEOUT, Failed CODE_UNAVAILABLE, Failed CODE_EXCESSIVE_LOAD}
     else case the (b_status (bases c ! i)) of
       SQLX_BASE_IDLE \<Rightarrow> {Opened i}
     | SQLX_BASE_IDLE_HOT \<Rightarrow> {Opened i}
     | SQLX_BASE_USED \<Rightarrow>
         if b_owner (bases c ! i) = Some (c_self e) then {Opened i}
         else if cache_fail_on_heavy_load conf \<and> \<not> o_urgent x then {Wait_used i, Failed CODE_EXCESSIVE_LOAD}
         else {Wait_used i}
     | SQLX_BASE_CLOSING \<Rightarrow> {Wait_closing i}
     | SQLX_BASE_CLOSING_FOR_DELETION \<Rightarrow> {Failed CODE_CONTAINER_NOTFOUND}
     | SQLX_BASE_FREE \<Rightarrow> {})"
proof -
  let ?x = "x\<lparr>o_attempts := o_attempts x + 1, o_base := Some i\<rparr>" and ?b = "bases c ! i"
  obtain f where inv: "cache_inv f G c" using cache_reach_inv [OF assms(1)] by blast
  from inv_lookup [OF inv assms(5)] have i: "slot_in c i" and name: "b_name ?b = Some (o_hname x)" by simp_all
  note ok = inv_slot_ok [OF inv i]
  have att: "open_attempt conf e x c = open_known conf e i ?x c"
    using assms(4,5) by (simp add: open_attempt_def sqlx_lookup_id_def)
  show ?thesis
  proof (cases "o_deadline x \<le> c_now e")
    case True
    obtain err c1 where late: "open_too_late conf e i ?x c = Some (err, c1)"
      using inv_too_late [OF inv i assms(2,3)] by blast
    then have "err \<in> {CODE_GATEWAY_TIMEOUT, CODE_UNAVAILABLE, CODE_EXCESSIVE_LOAD}"
      by (auto simp: open_too_late_def Let_def Option.bind_eq_Some_conv split: if_splits)
    with True known_late [OF _ late] show ?thesis unfolding att by auto
  next
    case False
    then have intime: "\<not> o_deadline ?x \<le> c_now e" by simp
    note known = known_in_time [OF intime]
    obtain st where st: "b_status ?b = Some st" using slot_status [OF ok] by blast
    have "fst (open_finish e True (Opened i) ?x (open_idle e i c)) = Opened i"
      if "st = SQLX_BASE_IDLE \<or> st = SQLX_BASE_IDLE_HOT"
      using known_idle_ok [OF inv i assms(3) _ st that name, of ?x] by auto
    moreover have "fst (open_known conf e i ?x c) \<in>
        (if cache_fail_on_heavy_load conf \<and> \<not> o_urgent x then {Wait_used i, Failed CODE_EXCESSIVE_LOAD} else {Wait_used i})"
      if "st = SQLX_BASE_USED" "b_owner ?b \<noteq> Some (c_self e)"
    proof -
      from that st have used: "b_status ?b = Some SQLX_BASE_USED" by simp
      obtain err c1 where o: "open_used_by_other conf e i ?x c = Some (err, c1)"
        using inv_used_by_other [OF inv i assms(2,3) used] by blast
      then have "err = None \<or> err = Some CODE_EXCESSIVE_LOAD \<and> cache_fail_on_heavy_load conf \<and> \<not> o_urgent x"
        by (auto simp: open_used_by_other_def Let_def split: if_splits)
      with known(4) [OF used that(2) o] show ?thesis by auto
    qed
    ultimately show ?thesis
      using False st slot_FREE [OF ok] name known(1-3,5,6) [of c i conf]
      unfolding att by (cases st) auto
  qed
qed

theorem open_by_status_witness:
  "\<exists>c i. cache_reach (c, add_user 1 i no_holders) \<and>
    fst (open_attempt conf0 (tick 1 100000000) (ctx0 ''A'') c) = Opened i"
proof -
  obtain c i where r: "cache_reach (c, add_user 1 i no_holders)" "is_running c" "bases_by_name c ''A'' = Some i"
      "b_status (bases c ! i) = Some SQLX_BASE_USED" "b_owner (bases c ! i) = Some 1"
    using held_example by blast
  have "o_hname (ctx0 ''A'') = ''A''" "o_deadline (ctx0 ''A'') = 120000000"
    by (simp_all add: ctx0_def open_begin_def Let_def tick_def conf0_def)
  with open_by_status [OF r(1) conf0_ok tick_ok r(2), of 100000000 "ctx0 ''A''" i 1] r
  show ?thesis by (auto simp: tick_def)
qed

section \<open>Statistics\<close>








section \<open>Expiration of all the bases\<close>

fun walk :: "nat \<Rightarrow> nat links \<Rightarrow> nat option \<Rightarrow> nat list" where
  "walk (Suc n) l (Some i) = i # walk n l (lnext l i)"
| "walk n l j = []"


lemma walk_None [simp]: "walk n l None = []"
  by (cases n) simp_all











section \<open>Load over a minute\<close>

text \<open>
  C38: a request that has waited for a minute or more never sees the load of the base: the counter
  of the openings over its whole period is always null, so the base is not "accessible" and the
  request gets the error of a busy base, whatever the load was.
\<close>

theorem busy_after_a_minute:
  assumes "cache_reach (c, G)" "conf_ok conf" "env_ok e" "i < length (bases c)" "60000000 \<le> unat period"
  shows "\<exists>b. base_is_accessible conf (bases c ! i) (c_now e) period = Some (b, False)"
proof -
  obtain f where inv: "cache_inv f G c" using cache_reach_inv [OF assms(1)] by blast
  have i: "slot_in c i" using inv_length [OF inv] assms(4) by simp
  note rrds = slot_ok_rrds [OF inv_slot_ok [OF inv i]]
  let ?p = "CLAMP (period div 1000000) 1 60 :: guint64"
  have "60 \<le> unat (period div 1000000)"
    using div_le_mono [OF assms(5), of 1000000] by (simp add: unat_div)
  then have "60 \<le> period div 1000000" by (simp add: word_le_nat_alt)
  then have p: "?p = 60" by (auto simp: CLAMP_def not_less)
  obtain b acc where acc: "base_is_accessible conf (bases c ! i) (c_now e) period = Some (b, acc)"
    using accessible_total [OF conjunct1 [OF rrds] conjunct2 [OF rrds]] env_secs [OF assms(3)] by blast
  then obtain g d where d: "grid_single_rrd_get_delta (b_open_attempts (bases c ! i)) (c_now e div 1000000) 60
      = Some (g, d)" "acc \<longleftrightarrow> d \<ge> 60 * ucast (cache_min_load_on_heavy_load conf)"
    by (auto simp: base_is_accessible_def Let_def p)
  have "r_period (b_open_attempts (bases c ! i)) = 60" using rrds by (simp add: rrd_wf_def)
  then have "d = 0" using rrd_delta_full [of _ _ g d] d(1) by (metis zero_less_numeral)
  moreover have "60 * ucast (cache_min_load_on_heavy_load conf) \<noteq> (0 :: guint64)"
  proof -
    let ?m = "cache_min_load_on_heavy_load conf"
    have m: "1 \<le> unat ?m" "unat ?m \<le> 10000" using assms(2) by (simp_all add: conf_ok_def word_le_nat_alt)
    have "unat (60 * ucast ?m :: guint64) = 60 * unat ?m"
      by (subst unat_mult_lem [THEN iffD1]) (use m in \<open>simp_all add: unat_ucast_32_64\<close>)
    with m show ?thesis by (metis mult_is_0 not_one_le_zero unat_0 zero_neq_numeral)
  qed
  ultimately have "\<not> acc" using d(2) by simp
  with acc show ?thesis by simp
qed

theorem busy_after_a_minute_witness:
  "\<exists>b. base_is_accessible conf0 (bases cache0 ! 0) 100000000 60000000 = Some (b, False)"
proof -
  obtain f where inv: "cache_inv f no_holders cache0" using cache_reach_inv [OF cache0_reach] by blast
  have "length (bases cache0) = 2"
    using inv_length [OF inv] by (simp add: cache0_def sqlx_cache_init_def Let_def stacked_fields conf0_def)
  then show ?thesis
    using busy_after_a_minute [OF cache0_reach conf0_ok tick_ok, of 100000000 0 60000000] by (simp add: tick_def)
qed

end
