(* ===== verification/Lru.thy ===== *)
theory Lru
  imports Linked "HOL-Library.Multiset"
begin

text \<open>
  The LRU tree of \<^verbatim>\<open>core/lrutree.c\<close>: nodes indexed by key in a red-black tree and chained from
  the most to the least recently used.  The resolver and the buffer of events rest on it.

  A node is named by its key, two keys being the same when the comparison function of the tree
  says so; the tree maps a key to the access time and the value of its node, and the fields
  \<open>prev\<close> and \<open>next\<close> are those of \<^theory_text>\<open>Linked\<close>.  The calls to the two liberation hooks are logged in
  \<open>l_freed\<close>.  Reading the clock is the argument \<open>now\<close>.  A loop returns an option, so that
  running forever is \<open>None\<close>.
\<close>

section \<open>State\<close>

datatype ('k, 'v) freed = Kfree 'k | Vfree 'v

record 'v lru_node =
  n_atime :: time
  n_v :: 'v

record ('k, 'v) lru_tree_s =
  l_kfree :: bool
  l_vfree :: bool
  l_flags :: guint32
  l_count :: int
  l_base :: "'k \<Rightarrow> 'v lru_node option"
  l_links :: "'k links"
  l_ends :: "'k beacon"
  l_freed :: "('k, 'v) freed list"

abbreviation (input) LTO_NOATIME :: guint32 where "LTO_NOATIME \<equiv> 1"
abbreviation (input) LTO_NOUTIME :: guint32 where "LTO_NOUTIME \<equiv> 2"

text \<open>The node a pointer designates, and \<^verbatim>\<open>RB_FIND\<close>.\<close>

definition node_at :: "('k, 'v) lru_tree_s \<Rightarrow> 'k option \<Rightarrow> 'v lru_node option" where
  "node_at lt p = Option.bind p (l_base lt)"

lemma node_at_simps [simp]: "node_at lt None = None" "node_at lt (Some k) = l_base lt k"
  by (simp_all add: node_at_def)

section \<open>Nodes\<close>

definition node_cleanup :: "'k \<Rightarrow> 'v \<Rightarrow> ('k, 'v) lru_tree_s \<Rightarrow> ('k, 'v) lru_tree_s" where
  "node_cleanup k v lt =
     lt\<lparr>l_freed := l_freed lt @ (if l_vfree lt then [Vfree v] else [])
                             @ (if l_kfree lt then [Kfree k] else [])\<rparr>"

definition node_update ::
  "'k \<Rightarrow> 'v lru_node \<Rightarrow> 'v \<Rightarrow> ('k, 'v) lru_tree_s \<Rightarrow> ('k, 'v) lru_tree_s" where
  "node_update k n v lt =
     (let lt1 = node_cleanup k (n_v n) lt in lt1\<lparr>l_base := (l_base lt1)(k \<mapsto> n\<lparr>n_v := v\<rparr>)\<rparr>)"

definition node_deq_extract :: "'k \<Rightarrow> ('k, 'v) lru_tree_s \<Rightarrow> ('k, 'v) lru_tree_s" where
  "node_deq_extract k lt =
     lt\<lparr>l_ends := unlink_beacon k (l_links lt) (l_ends lt), l_links := unlink_links k (l_links lt)\<rparr>"

definition node_deq_push_front :: "'k \<Rightarrow> ('k, 'v) lru_tree_s \<Rightarrow> ('k, 'v) lru_tree_s" where
  "node_deq_push_front k lt =
     (case bfront (l_ends lt) of
        None \<Rightarrow> lt\<lparr>l_links := set_prev (Some k) None (set_next (Some k) None (l_links lt)),
                   l_ends := \<lparr>bfront = Some k, bback = Some k\<rparr>\<rparr>
      | Some f \<Rightarrow> lt\<lparr>l_links := set_prev (Some f) (Some k) (set_next (Some k) (Some f)
                                  (set_prev (Some k) None (l_links lt))),
                     l_ends := (l_ends lt)\<lparr>bfront := Some k\<rparr>\<rparr>)"

definition node_touch :: "time \<Rightarrow> 'k \<Rightarrow> ('k, 'v) lru_tree_s \<Rightarrow> ('k, 'v) lru_tree_s" where
  "node_touch now k lt =
     lt\<lparr>l_base := (l_base lt)(k := map_option (\<lambda>n. n\<lparr>n_atime := now\<rparr>) (l_base lt k))\<rparr>"

section \<open>The tree\<close>

definition lru_tree_create :: "bool \<Rightarrow> bool \<Rightarrow> guint32 \<Rightarrow> ('k, 'v) lru_tree_s" where
  "lru_tree_create kfree vfree options =
     \<lparr>l_kfree = kfree, l_vfree = vfree, l_flags = options, l_count = 0, l_base = Map.empty,
      l_links = \<lparr>lprev = (\<lambda>_. None), lnext = (\<lambda>_. None)\<rparr>,
      l_ends = \<lparr>bfront = None, bback = None\<rparr>, l_freed = []\<rparr>"

text \<open>
  The loop of \<^verbatim>\<open>lru_tree_destroy\<close> frees the nodes from the front; the tree itself goes with it,
  so that only the log remains.
\<close>

partial_function (option) destroy_loop ::
  "('k, 'v) lru_tree_s \<Rightarrow> ('k, 'v) freed list option" where
  "destroy_loop lt =
     (case bfront (l_ends lt) of
        None \<Rightarrow> Some (l_freed lt)
      | Some k \<Rightarrow>
          let nx = lnext (l_links lt) k;
              lt1 = lt\<lparr>l_ends := (l_ends lt)\<lparr>bfront := nx\<rparr>,
                       l_links := set_prev nx None (l_links lt)\<rparr>
          in destroy_loop (case l_base lt k of None \<Rightarrow> lt1 | Some n \<Rightarrow> node_cleanup k (n_v n) lt1))"

definition lru_tree_destroy :: "('k, 'v) lru_tree_s \<Rightarrow> ('k, 'v) freed list option" where
  "lru_tree_destroy lt = destroy_loop lt"

definition lru_tree_insert ::
  "time \<Rightarrow> 'k \<Rightarrow> 'v \<Rightarrow> ('k, 'v) lru_tree_s \<Rightarrow> ('k, 'v) lru_tree_s" where
  "lru_tree_insert now k v lt =
     (case l_base lt k of
        None \<Rightarrow>
          let lt1 = lt\<lparr>l_base := (l_base lt)(k \<mapsto> \<lparr>n_atime = 0, n_v = v\<rparr>), l_count := l_count lt + 1\<rparr>
          in node_touch now k (node_deq_push_front k lt1)
      | Some n \<Rightarrow>
          let lt1 = node_update k n v lt
          in if and (l_flags lt) LTO_NOUTIME = 0
             then node_touch now k (node_deq_push_front k (node_deq_extract k lt1))
             else lt1)"

definition lru_tree_get ::
  "time \<Rightarrow> 'k \<Rightarrow> ('k, 'v) lru_tree_s \<Rightarrow> 'v option \<times> ('k, 'v) lru_tree_s" where
  "lru_tree_get now k lt =
     (case l_base lt k of
        None \<Rightarrow> (None, lt)
      | Some n \<Rightarrow>
          (Some (n_v n),
           if and (l_flags lt) LTO_NOATIME = 0
           then node_touch now k (node_deq_push_front k (node_deq_extract k lt)) else lt))"

definition lru_tree_remove :: "'k \<Rightarrow> ('k, 'v) lru_tree_s \<Rightarrow> bool \<times> ('k, 'v) lru_tree_s" where
  "lru_tree_remove k lt =
     (case l_base lt k of
        None \<Rightarrow> (False, lt)
      | Some n \<Rightarrow>
          let lt1 = node_deq_extract k (lt\<lparr>l_base := (l_base lt)(k := None)\<rparr>)
          in (True, node_cleanup k (n_v n) (lt1\<lparr>l_count := l_count lt1 - 1\<rparr>)))"

definition lru_steal ::
  "'k option \<Rightarrow> ('k, 'v) lru_tree_s \<Rightarrow> ('k \<times> 'v) option \<times> ('k, 'v) lru_tree_s" where
  "lru_steal p lt =
     (case p of None \<Rightarrow> (None, lt)
      | Some k \<Rightarrow>
        (case l_base lt k of
           None \<Rightarrow> (None, lt)
         | Some n \<Rightarrow>
             let lt1 = node_deq_extract k (lt\<lparr>l_base := (l_base lt)(k := None)\<rparr>)
             in (Some (k, n_v n), lt1\<lparr>l_count := l_count lt1 - 1\<rparr>)))"

text \<open>\<^verbatim>\<open>REMOVE_NODE\<close>: the key goes first here.\<close>

definition remove_node :: "'k option \<Rightarrow> ('k, 'v) lru_tree_s \<Rightarrow> ('k, 'v) lru_tree_s" where
  "remove_node p lt =
     (case lru_steal p lt of
        (None, lt1) \<Rightarrow> lt1
      | (Some (k, v), lt1) \<Rightarrow>
          lt1\<lparr>l_freed := l_freed lt1 @ (if l_kfree lt1 then [Kfree k] else [])
                                   @ (if l_vfree lt1 then [Vfree v] else [])\<rparr>)"

definition lru_tree_steal :: "'k \<Rightarrow> ('k, 'v) lru_tree_s \<Rightarrow> 'v option \<times> ('k, 'v) lru_tree_s" where
  "lru_tree_steal k lt =
     (case l_base lt k of
        None \<Rightarrow> (None, lt)
      | Some _ \<Rightarrow>
          (case lru_steal (Some k) lt of
             (None, lt1) \<Rightarrow> (None, lt1)
           | (Some (pk, pv), lt1) \<Rightarrow>
               (Some pv, lt1\<lparr>l_freed := l_freed lt1 @ (if l_kfree lt1 then [Kfree pk] else [])\<rparr>)))"

text \<open>\<^verbatim>\<open>lru_tree_foreach\<close>: the pairs the hook is called with, until it answers TRUE.\<close>

partial_function (option) foreach_loop ::
  "('k \<Rightarrow> 'v \<Rightarrow> bool) \<Rightarrow> ('k, 'v) lru_tree_s \<Rightarrow> 'k option \<Rightarrow> ('k \<times> 'v) list \<Rightarrow> ('k \<times> 'v) list option" where
  "foreach_loop h lt p acc =
     (case p of None \<Rightarrow> Some acc
      | Some k \<Rightarrow>
        (case l_base lt k of
           None \<Rightarrow> Some acc
         | Some n \<Rightarrow>
             if h k (n_v n) then Some (acc @ [(k, n_v n)])
             else foreach_loop h lt (lnext (l_links lt) k) (acc @ [(k, n_v n)])))"

definition lru_tree_foreach ::
  "('k \<Rightarrow> 'v \<Rightarrow> bool) \<Rightarrow> ('k, 'v) lru_tree_s \<Rightarrow> ('k \<times> 'v) list option" where
  "lru_tree_foreach h lt = foreach_loop h lt (bfront (l_ends lt)) []"

definition lru_tree_get_oldest_key :: "('k, 'v) lru_tree_s \<Rightarrow> 'k option" where
  "lru_tree_get_oldest_key lt = bback (l_ends lt)"

definition lru_tree_count :: "('k, 'v) lru_tree_s \<Rightarrow> int" where
  "lru_tree_count lt = l_count lt"

definition remove_last :: "('k, 'v) lru_tree_s \<Rightarrow> ('k, 'v) lru_tree_s" where
  "remove_last lt = remove_node (bback (l_ends lt)) lt"

partial_function (option) older_loop ::
  "time \<Rightarrow> guint32 \<Rightarrow> ('k, 'v) lru_tree_s \<Rightarrow> (guint32 \<times> ('k, 'v) lru_tree_s) option" where
  "older_loop oldest removed lt =
     (case node_at lt (bback (l_ends lt)) of
        None \<Rightarrow> Some (removed, lt)
      | Some n \<Rightarrow>
          if n_atime n < oldest then older_loop oldest (removed + 1) (remove_last lt)
          else Some (removed, lt))"

definition lru_tree_remove_older ::
  "time \<Rightarrow> ('k, 'v) lru_tree_s \<Rightarrow> (guint32 \<times> ('k, 'v) lru_tree_s) option" where
  "lru_tree_remove_older oldest lt = older_loop oldest 0 lt"

partial_function (option) exceeding_loop ::
  "guint32 \<Rightarrow> guint32 \<Rightarrow> ('k, 'v) lru_tree_s \<Rightarrow> (guint32 \<times> ('k, 'v) lru_tree_s) option" where
  "exceeding_loop mx removed lt =
     (if bback (l_ends lt) \<noteq> None \<and> l_count lt > uint mx
      then exceeding_loop mx (removed + 1) (remove_last lt)
      else Some (removed, lt))"

definition lru_tree_remove_exceeding ::
  "guint32 \<Rightarrow> ('k, 'v) lru_tree_s \<Rightarrow> (guint32 \<times> ('k, 'v) lru_tree_s) option" where
  "lru_tree_remove_exceeding mx lt = exceeding_loop mx 0 lt"

partial_function (option) matching_loop ::
  "('k \<Rightarrow> 'v \<Rightarrow> bool) \<Rightarrow> 'k option \<Rightarrow> guint32 \<Rightarrow> ('k, 'v) lru_tree_s
     \<Rightarrow> (guint32 \<times> ('k, 'v) lru_tree_s) option" where
  "matching_loop flt p removed lt =
     (case p of None \<Rightarrow> Some (removed, lt)
      | Some k \<Rightarrow>
        (case l_base lt k of
           None \<Rightarrow> Some (removed, lt)
         | Some n \<Rightarrow>
             if flt k (n_v n)
             then matching_loop flt (lnext (l_links lt) k) (removed + 1) (remove_node (Some k) lt)
             else matching_loop flt (lnext (l_links lt) k) removed lt))"

definition lru_tree_remove_matching ::
  "('k \<Rightarrow> 'v \<Rightarrow> bool) \<Rightarrow> ('k, 'v) lru_tree_s \<Rightarrow> (guint32 \<times> ('k, 'v) lru_tree_s) option" where
  "lru_tree_remove_matching flt lt = matching_loop flt (bfront (l_ends lt)) 0 lt"

text \<open>\<^verbatim>\<open>lru_tree_foreach_older_steal\<close>: the pairs given to the hook, which then owns them.\<close>

partial_function (option) older_steal_loop ::
  "time \<Rightarrow> guint32 \<Rightarrow> ('k \<times> 'v) list \<Rightarrow> ('k, 'v) lru_tree_s
     \<Rightarrow> (('k \<times> 'v) list \<times> ('k, 'v) lru_tree_s) option" where
  "older_steal_loop oldest mx given lt =
     (case node_at lt (bback (l_ends lt)) of
        None \<Rightarrow> Some (given, lt)
      | Some n \<Rightarrow>
          if n_atime n < oldest \<and> mx > 0
          then (case lru_steal (bback (l_ends lt)) lt of
                  (None, lt1) \<Rightarrow> older_steal_loop oldest (mx - 1) given lt1
                | (Some kv, lt1) \<Rightarrow> older_steal_loop oldest (mx - 1) (given @ [kv]) lt1)
          else Some (given, lt))"

definition lru_tree_foreach_older_steal ::
  "time \<Rightarrow> guint32 \<Rightarrow> ('k, 'v) lru_tree_s \<Rightarrow> (('k \<times> 'v) list \<times> ('k, 'v) lru_tree_s) option" where
  "lru_tree_foreach_older_steal oldest mx lt = older_steal_loop oldest mx [] lt"

section \<open>What the tree holds\<close>

text \<open>
  The entries of a tree, from the most to the least recently used.  \<open>lru_rep now lt es\<close>: the
  red-black tree, the chain and the counter agree on the entries \<open>es\<close>, whose access times do
  not increase along the chain and do not exceed \<open>now\<close>.
\<close>

type_synonym ('k, 'v) entries = "('k \<times> 'v lru_node) list"

definition lru_rep :: "time \<Rightarrow> ('k, 'v) lru_tree_s \<Rightarrow> ('k, 'v) entries \<Rightarrow> bool" where
  "lru_rep now lt es \<longleftrightarrow>
     is_deque (l_links lt) (l_ends lt) (map fst es) \<and> l_base lt = map_of es \<and>
     l_count lt = int (length es) \<and>
     sorted_wrt (\<lambda>a b. n_atime (snd b) \<le> n_atime (snd a)) es \<and>
     (\<forall>e \<in> set es. n_atime (snd e) \<le> now)"

definition without :: "'k \<Rightarrow> ('k, 'v) entries \<Rightarrow> ('k, 'v) entries" where
  "without k es = filter (\<lambda>e. fst e \<noteq> k) es"

definition same_conf :: "('k, 'v) lru_tree_s \<Rightarrow> ('k, 'v) lru_tree_s \<Rightarrow> bool" where
  "same_conf lt lt' \<longleftrightarrow>
     l_kfree lt' = l_kfree lt \<and> l_vfree lt' = l_vfree lt \<and> l_flags lt' = l_flags lt"

lemma same_conf_refl [simp]: "same_conf lt lt"
  by (simp add: same_conf_def)

lemma same_conf_trans: "same_conf a b \<Longrightarrow> same_conf b c \<Longrightarrow> same_conf a c"
  by (simp add: same_conf_def)

lemma rep_distinct_keys: "lru_rep now lt es \<Longrightarrow> distinct (map fst es)"
  by (auto simp: lru_rep_def dest: is_deque_distinct)

lemma rep_base: "lru_rep now lt es \<Longrightarrow> l_base lt = map_of es"
  by (simp add: lru_rep_def)

lemma rep_front: "lru_rep now lt es \<Longrightarrow> bfront (l_ends lt) = hd_opt (map fst es)"
  by (auto simp: lru_rep_def is_deque_def)

lemma rep_back: "lru_rep now lt es \<Longrightarrow> bback (l_ends lt) = last_opt (map fst es)"
  by (auto simp: lru_rep_def is_deque_def)

lemma rep_later: "lru_rep now lt es \<Longrightarrow> now \<le> now' \<Longrightarrow> lru_rep now' lt es"
  by (force simp: lru_rep_def)

lemma without_append [simp]: "without k (xs @ ys) = without k xs @ without k ys"
  by (simp add: without_def)

lemma without_Cons [simp]: "without k (e # es) = (if fst e = k then without k es else e # without k es)"
  by (simp add: without_def)

lemma without_Nil [simp]: "without k [] = []"
  by (simp add: without_def)

lemma without_absent: "k \<notin> fst ` set es \<Longrightarrow> without k es = es"
  by (induction es) (auto simp: without_def)

lemma without_unmapped: "map_of es k = None \<Longrightarrow> without k es = es"
  by (simp add: without_absent map_of_eq_None_iff)

lemma map_of_without: "map_of (without k es) = (map_of es)(k := None)"
  unfolding without_def by (induction es) (auto simp: fun_eq_iff)

lemma set_without: "set (without k es) = {e \<in> set es. fst e \<noteq> k}"
  by (simp add: without_def)

lemma map_of_mid:
  assumes "distinct (map fst es)" "map_of es k = Some n"
  obtains xs ys where "es = xs @ (k, n) # ys" "without k es = xs @ ys"
    "k \<notin> fst ` set xs" "k \<notin> fst ` set ys"
proof -
  from assms(2) have "(k, n) \<in> set es" by (rule map_of_SomeD)
  then obtain xs ys where es: "es = xs @ (k, n) # ys" by (meson split_list)
  with assms(1) have "k \<notin> fst ` set xs" "k \<notin> fst ` set ys" by auto
  moreover from this es have "without k es = xs @ ys"
    by (simp add: without_absent)
  ultimately show ?thesis using that es by blast
qed

section \<open>The elementary moves\<close>

lemma extract_fields [simp]:
  "l_base (node_deq_extract k lt) = l_base lt" "l_count (node_deq_extract k lt) = l_count lt"
  "l_freed (node_deq_extract k lt) = l_freed lt" "l_flags (node_deq_extract k lt) = l_flags lt"
  "l_kfree (node_deq_extract k lt) = l_kfree lt" "l_vfree (node_deq_extract k lt) = l_vfree lt"
  by (simp_all add: node_deq_extract_def)

lemma push_fields [simp]:
  "l_base (node_deq_push_front k lt) = l_base lt" "l_count (node_deq_push_front k lt) = l_count lt"
  "l_freed (node_deq_push_front k lt) = l_freed lt" "l_flags (node_deq_push_front k lt) = l_flags lt"
  "l_kfree (node_deq_push_front k lt) = l_kfree lt" "l_vfree (node_deq_push_front k lt) = l_vfree lt"
  by (simp_all add: node_deq_push_front_def split: option.split)

lemma touch_fields [simp]:
  "l_links (node_touch now k lt) = l_links lt" "l_ends (node_touch now k lt) = l_ends lt"
  "l_count (node_touch now k lt) = l_count lt"
  "l_freed (node_touch now k lt) = l_freed lt" "l_flags (node_touch now k lt) = l_flags lt"
  "l_kfree (node_touch now k lt) = l_kfree lt" "l_vfree (node_touch now k lt) = l_vfree lt"
  by (simp_all add: node_touch_def)

lemma cleanup_fields [simp]:
  "l_base (node_cleanup k v lt) = l_base lt" "l_links (node_cleanup k v lt) = l_links lt"
  "l_ends (node_cleanup k v lt) = l_ends lt" "l_count (node_cleanup k v lt) = l_count lt"
  "l_flags (node_cleanup k v lt) = l_flags lt"
  "l_kfree (node_cleanup k v lt) = l_kfree lt" "l_vfree (node_cleanup k v lt) = l_vfree lt"
  by (simp_all add: node_cleanup_def)

lemma extract_deque:
  assumes "is_deque (l_links lt) (l_ends lt) (xs @ k # ys)"
  shows "is_deque (l_links (node_deq_extract k lt)) (l_ends (node_deq_extract k lt)) (xs @ ys)"
  using is_deque_unlink [OF assms] by (simp add: node_deq_extract_def)

lemma push_deque:
  assumes "is_deque (l_links lt) (l_ends lt) xs" "k \<notin> set xs"
  shows "is_deque (l_links (node_deq_push_front k lt)) (l_ends (node_deq_push_front k lt)) (k # xs)"
proof -
  let ?l = "push_front_links k (l_ends lt) (l_links lt)"
  let ?b = "push_front_beacon k (l_ends lt)"
  have "l_links (node_deq_push_front k lt) = ?l"
    by (auto simp: node_deq_push_front_def push_front_links_def set_next_def set_prev_def
        split: option.split)
  moreover have "l_ends (node_deq_push_front k lt) = ?b"
    using is_deque_front [OF assms(1)] is_deque_back [OF assms(1)]
    by (cases xs rule: rev_cases)
      (auto simp: node_deq_push_front_def push_front_beacon_def hd_opt_append split: option.split)
  ultimately show ?thesis using is_deque_push_front [OF assms] by simp
qed

section \<open>The moves keep the representation\<close>

lemma rep_removal:
  assumes "lru_rep now lt es" "map_of es k = Some n"
  shows "lru_rep now ((node_deq_extract k (lt\<lparr>l_base := (l_base lt)(k := None)\<rparr>))
           \<lparr>l_count := l_count lt - 1\<rparr>) (without k es)"
proof -
  obtain xs ys where es: "es = xs @ (k, n) # ys" and w: "without k es = xs @ ys"
    using map_of_mid [OF rep_distinct_keys [OF assms(1)] assms(2)] by metis
  have "is_deque (l_links lt) (l_ends lt) (map fst xs @ k # map fst ys)"
    using assms(1) by (simp add: lru_rep_def es)
  from extract_deque [of "lt\<lparr>l_base := (l_base lt)(k := None)\<rparr>", simplified, OF this]
  have "is_deque (l_links (node_deq_extract k (lt\<lparr>l_base := (l_base lt)(k := None)\<rparr>)))
      (l_ends (node_deq_extract k (lt\<lparr>l_base := (l_base lt)(k := None)\<rparr>))) (map fst (xs @ ys))"
    by simp
  moreover have "map_of (xs @ ys) = (map_of es)(k := None)"
    using map_of_without [of k es] w by simp
  ultimately show ?thesis
    using assms(1) unfolding w by (auto simp: lru_rep_def es sorted_wrt_append)
qed

lemma rep_push:
  assumes "is_deque (l_links lt) (l_ends lt) (map fst es)" "k \<notin> fst ` set es"
    and "l_base lt k = Some n" "(l_base lt)(k := None) = map_of es"
    and "l_count lt = int (length es) + 1"
    and "sorted_wrt (\<lambda>a b. n_atime (snd b) \<le> n_atime (snd a)) es"
    and "\<forall>e \<in> set es. n_atime (snd e) \<le> now"
  shows "lru_rep now (node_touch now k (node_deq_push_front k lt)) ((k, n\<lparr>n_atime := now\<rparr>) # es)"
proof -
  have "l_base (node_touch now k (node_deq_push_front k lt)) = map_of ((k, n\<lparr>n_atime := now\<rparr>) # es)"
    using assms(3) by (simp add: node_touch_def flip: assms(4))
  moreover have "is_deque (l_links (node_deq_push_front k lt)) (l_ends (node_deq_push_front k lt))
      (k # map fst es)"
    by (rule push_deque [OF assms(1)]) (use assms(2) in auto)
  ultimately show ?thesis
    using assms(5-7) by (simp add: lru_rep_def)
qed

lemma rep_new:
  assumes "lru_rep now lt es" "map_of es k = None"
  shows "lru_rep now (node_touch now k (node_deq_push_front k
           (lt\<lparr>l_base := (l_base lt)(k \<mapsto> \<lparr>n_atime = 0, n_v = v\<rparr>), l_count := l_count lt + 1\<rparr>)))
         ((k, \<lparr>n_atime = now, n_v = v\<rparr>) # es)"
proof -
  have "(map_of es)(k := None) = map_of es"
    using assms(2) by (simp add: fun_upd_idem)
  with rep_push [of "lt\<lparr>l_base := (l_base lt)(k \<mapsto> \<lparr>n_atime = 0, n_v = v\<rparr>), l_count := l_count lt + 1\<rparr>"
      es k "\<lparr>n_atime = 0, n_v = v\<rparr>" now] assms
  show ?thesis by (simp add: lru_rep_def map_of_eq_None_iff)
qed

lemma rep_to_front:
  assumes "lru_rep now lt es" "map_of es k = Some n"
  shows "lru_rep now (node_touch now k (node_deq_push_front k (node_deq_extract k lt)))
         ((k, n\<lparr>n_atime := now\<rparr>) # without k es)"
proof (rule rep_push)
  obtain xs ys where es: "es = xs @ (k, n) # ys" and w: "without k es = xs @ ys"
    using map_of_mid [OF rep_distinct_keys [OF assms(1)] assms(2)] by metis
  have "is_deque (l_links lt) (l_ends lt) (map fst xs @ k # map fst ys)"
    using assms(1) by (simp add: lru_rep_def es)
  from extract_deque [OF this]
  show "is_deque (l_links (node_deq_extract k lt)) (l_ends (node_deq_extract k lt))
      (map fst (without k es))" by (simp add: w)
  show "l_count (node_deq_extract k lt) = int (length (without k es)) + 1"
    using assms(1) unfolding w by (simp add: lru_rep_def es)
  show "sorted_wrt (\<lambda>a b. n_atime (snd b) \<le> n_atime (snd a)) (without k es)"
    using assms(1) unfolding w by (simp add: lru_rep_def es sorted_wrt_append)
qed (use assms in \<open>auto simp: set_without lru_rep_def map_of_without\<close>)

definition with_value :: "'k \<Rightarrow> 'v \<Rightarrow> ('k, 'v) entries \<Rightarrow> ('k, 'v) entries" where
  "with_value k v es = map (\<lambda>(j, m). (j, if j = k then m\<lparr>n_v := v\<rparr> else m)) es"

lemma with_value_keys [simp]: "map fst (with_value k v es) = map fst es"
  by (simp add: with_value_def case_prod_beta)

lemma with_value_simps [simp]:
  "with_value k v [] = []"
  "with_value k v (e # es) = (fst e, if fst e = k then (snd e)\<lparr>n_v := v\<rparr> else snd e) # with_value k v es"
  by (simp_all add: with_value_def case_prod_beta)

lemma with_value_length [simp]: "length (with_value k v es) = length es"
  by (simp add: with_value_def)

lemma map_of_with_value:
  assumes "map_of es k = Some n"
  shows "map_of (with_value k v es) = (map_of es)(k \<mapsto> n\<lparr>n_v := v\<rparr>)"
proof -
  have "map_of (with_value k v es) j = (if j = k then map_option (\<lambda>m. m\<lparr>n_v := v\<rparr>) (map_of es k)
      else map_of es j)" for j
    by (induction es) auto
  with assms show ?thesis by (auto simp: fun_eq_iff)
qed

lemma with_value_times:
  "sorted_wrt (\<lambda>a b. n_atime (snd b) \<le> n_atime (snd a)) (with_value k v es) =
   sorted_wrt (\<lambda>a b. n_atime (snd b) \<le> n_atime (snd a)) es"
  "(\<forall>e \<in> set (with_value k v es). n_atime (snd e) \<le> now) = (\<forall>e \<in> set es. n_atime (snd e) \<le> now)"
proof -
  show 2: "(\<forall>e \<in> set (with_value k v es). n_atime (snd e) \<le> now) = (\<forall>e \<in> set es. n_atime (snd e) \<le> now)"
    for now es by (induction es) auto
  show "sorted_wrt (\<lambda>a b. n_atime (snd b) \<le> n_atime (snd a)) (with_value k v es) =
   sorted_wrt (\<lambda>a b. n_atime (snd b) \<le> n_atime (snd a)) es"
    by (induction es) (auto simp: 2)
qed

lemma without_with_value: "without k (with_value k v es) = without k es"
  by (induction es) auto

lemma rep_update:
  assumes "lru_rep now lt es" "map_of es k = Some n"
  shows "lru_rep now (node_update k n v lt) (with_value k v es)"
  using assms(1) map_of_with_value [OF assms(2), of v]
  by (simp add: node_update_def Let_def lru_rep_def with_value_times)

section \<open>The operations, one by one\<close>

text \<open>The log of a removal, and what each operation does to the entries.\<close>

lemma create_rep: "lru_rep now (lru_tree_create kf vf fl) []"
  by (simp add: lru_rep_def lru_tree_create_def is_deque_def)

lemma insert_rep:
  assumes "lru_rep now lt es"
  shows "lru_rep now (lru_tree_insert now k v lt)
     (case map_of es k of
        None \<Rightarrow> (k, \<lparr>n_atime = now, n_v = v\<rparr>) # es
      | Some n \<Rightarrow> if and (l_flags lt) LTO_NOUTIME = 0
                  then (k, \<lparr>n_atime = now, n_v = v\<rparr>) # without k es else with_value k v es)"
proof (cases "map_of es k")
  case None
  with rep_new [OF assms None] rep_base [OF assms] show ?thesis
    by (simp add: lru_tree_insert_def)
next
  case (Some n)
  note upd = rep_update [OF assms Some, of v]
  have "map_of (with_value k v es) k = Some (n\<lparr>n_v := v\<rparr>)"
    by (simp add: map_of_with_value [OF Some])
  note front = rep_to_front [OF upd this]
  have "n\<lparr>n_v := v, n_atime := now\<rparr> = \<lparr>n_atime = now, n_v = v\<rparr>" by simp
  with Some upd front rep_base [OF assms] show ?thesis
    by (simp add: lru_tree_insert_def without_with_value)
qed

lemma get_rep:
  assumes "lru_rep now lt es"
  shows "fst (lru_tree_get now k lt) = map_option n_v (map_of es k)"
    and "lru_rep now (snd (lru_tree_get now k lt))
     (case map_of es k of
        None \<Rightarrow> es
      | Some n \<Rightarrow> if and (l_flags lt) LTO_NOATIME = 0
                  then (k, n\<lparr>n_atime := now\<rparr>) # without k es else es)"
  using assms rep_base [OF assms] rep_to_front [OF assms, of k]
  by (auto simp: lru_tree_get_def split: option.split)

text \<open>The tree once a node has left it.\<close>

definition unstored :: "'k \<Rightarrow> ('k, 'v) lru_tree_s \<Rightarrow> ('k, 'v) lru_tree_s" where
  "unstored k lt =
     (node_deq_extract k (lt\<lparr>l_base := (l_base lt)(k := None)\<rparr>))\<lparr>l_count := l_count lt - 1\<rparr>"

lemmas unstored_rep = rep_removal [folded unstored_def]

lemma unstored_fields [simp]:
  "l_freed (unstored k lt) = l_freed lt" "l_flags (unstored k lt) = l_flags lt"
  "l_kfree (unstored k lt) = l_kfree lt" "l_vfree (unstored k lt) = l_vfree lt"
  "l_links (unstored k lt) = unlink_links k (l_links lt)"
  by (simp_all add: unstored_def node_deq_extract_def)

lemma steal_node:
  assumes "l_base lt k = Some n"
  shows "lru_steal (Some k) lt = (Some (k, n_v n), unstored k lt)"
  using assms by (simp add: lru_steal_def unstored_def Let_def)

definition logged :: "('k, 'v) freed list \<Rightarrow> ('k, 'v) lru_tree_s \<Rightarrow> ('k, 'v) lru_tree_s" where
  "logged xs lt = lt\<lparr>l_freed := l_freed lt @ xs\<rparr>"

lemma logged_fields [simp]:
  "l_freed (logged xs lt) = l_freed lt @ xs" "l_flags (logged xs lt) = l_flags lt"
  "l_kfree (logged xs lt) = l_kfree lt" "l_vfree (logged xs lt) = l_vfree lt"
  "l_links (logged xs lt) = l_links lt" "l_base (logged xs lt) = l_base lt"
  by (simp_all add: logged_def)

lemma logged_rep [simp]: "lru_rep now (logged xs lt) es = lru_rep now lt es"
  by (simp add: lru_rep_def logged_def)

lemma remove_node_eq:
  assumes "l_base lt k = Some n"
  shows "remove_node (Some k) lt =
     logged ((if l_kfree lt then [Kfree k] else []) @ (if l_vfree lt then [Vfree (n_v n)] else []))
       (unstored k lt)"
  using steal_node [OF assms] by (simp add: remove_node_def logged_def)

lemma tree_remove_eq:
  "lru_tree_remove k lt =
     (case l_base lt k of
        None \<Rightarrow> (False, lt)
      | Some n \<Rightarrow> (True, logged ((if l_vfree lt then [Vfree (n_v n)] else [])
                               @ (if l_kfree lt then [Kfree k] else [])) (unstored k lt)))"
  by (simp add: lru_tree_remove_def Let_def node_cleanup_def logged_def unstored_def
      split: option.split)

lemma tree_steal_eq:
  "lru_tree_steal k lt =
     (case l_base lt k of
        None \<Rightarrow> (None, lt)
      | Some n \<Rightarrow> (Some (n_v n), logged (if l_kfree lt then [Kfree k] else []) (unstored k lt)))"
  using steal_node [of lt k]
  by (auto simp: lru_tree_steal_def logged_def split: option.split)

lemma tree_remove_rep:
  assumes "lru_rep now lt es"
  shows "fst (lru_tree_remove k lt) \<longleftrightarrow> map_of es k \<noteq> None"
    and "lru_rep now (snd (lru_tree_remove k lt)) (without k es)"
  using assms rep_base [OF assms] unstored_rep [OF assms, of k] without_unmapped [of es k]
  by (auto simp: tree_remove_eq split: option.split)

lemma tree_steal_rep:
  assumes "lru_rep now lt es"
  shows "fst (lru_tree_steal k lt) = map_option n_v (map_of es k)"
    and "lru_rep now (snd (lru_tree_steal k lt)) (without k es)"
  using assms rep_base [OF assms] unstored_rep [OF assms, of k] without_unmapped [of es k]
  by (auto simp: tree_steal_eq split: option.split)

section \<open>The loops\<close>

text \<open>
  Each loop returns, and what it leaves is a filter of the entries.  The two loops from the back
  rest on the order of the access times: the first entry that is recent enough ends them.
\<close>

lemma rep_snoc:
  assumes "lru_rep now lt (es @ [(k, n)])"
  shows "bback (l_ends lt) = Some k" "l_base lt k = Some n" "node_at lt (bback (l_ends lt)) = Some n"
    and "lru_rep now (unstored k lt) es"
proof -
  have d: "distinct (map fst (es @ [(k, n)]))" by (rule rep_distinct_keys [OF assms])
  show b: "bback (l_ends lt) = Some k" using rep_back [OF assms] by simp
  have m: "map_of (es @ [(k, n)]) k = Some n" using d by (intro map_of_is_SomeI) auto
  then show n: "l_base lt k = Some n" using rep_base [OF assms] by simp
  from b n show "node_at lt (bback (l_ends lt)) = Some n" by (simp add: node_at_def)
  have "without k (es @ [(k, n)]) = es" using d by (simp add: without_absent)
  with unstored_rep [OF assms m] show "lru_rep now (unstored k lt) es" by simp
qed

lemma rep_Nil:
  assumes "lru_rep now lt []"
  shows "bback (l_ends lt) = None" "node_at lt (bback (l_ends lt)) = None"
  using rep_back [OF assms] by (simp_all add: node_at_def)

definition older :: "time \<Rightarrow> ('k, 'v) entries \<Rightarrow> ('k, 'v) entries" where
  "older t es = filter (\<lambda>e. n_atime (snd e) < t) es"

definition newer :: "time \<Rightarrow> ('k, 'v) entries \<Rightarrow> ('k, 'v) entries" where
  "newer t es = filter (\<lambda>e. \<not> n_atime (snd e) < t) es"

text \<open>The calls to the hooks when the entries \<open>es\<close> are removed one by one.\<close>

definition removal_log ::
  "('k, 'v) lru_tree_s \<Rightarrow> ('k, 'v) entries \<Rightarrow> ('k, 'v) freed list" where
  "removal_log lt es =
     concat (map (\<lambda>(k, n). (if l_kfree lt then [Kfree k] else [])
                         @ (if l_vfree lt then [Vfree (n_v n)] else [])) es)"

lemma removal_log_simps [simp]:
  "removal_log lt [] = []"
  "removal_log lt (e # es) = (if l_kfree lt then [Kfree (fst e)] else [])
      @ (if l_vfree lt then [Vfree (n_v (snd e))] else []) @ removal_log lt es"
  by (simp_all add: removal_log_def case_prod_beta)

lemma removal_log_conf: "same_conf lt lt' \<Longrightarrow> removal_log lt' es = removal_log lt es"
  by (simp add: removal_log_def same_conf_def)

lemma newer_all: "\<forall>e \<in> set es. t \<le> n_atime (snd e) \<Longrightarrow> newer t es = es \<and> older t es = []"
  by (induction es) (auto simp: newer_def older_def)

lemma remove_last_snoc:
  assumes "lru_rep now lt (es @ [(k, n)])"
  shows "remove_last lt = logged (removal_log lt [(k, n)]) (unstored k lt)"
  using remove_node_eq [OF rep_snoc(2) [OF assms]] rep_snoc(1) [OF assms]
  by (simp add: remove_last_def)

lemma older_loop_ends:
  assumes "lru_rep now lt es"
  shows "\<exists>lt'. older_loop t r lt = Some (r + of_nat (length (older t es)), lt') \<and>
     lru_rep now lt' (newer t es) \<and> same_conf lt lt' \<and>
     l_freed lt' = l_freed lt @ removal_log lt (rev (older t es))"
  using assms
proof (induction es arbitrary: lt r rule: rev_induct)
  case Nil
  then show ?case
    by (subst older_loop.simps) (simp add: rep_Nil older_def newer_def)
next
  case (snoc e es)
  obtain k n where e: "e = (k, n)" by (cases e)
  note rep = snoc.prems [unfolded e]
  show ?case
  proof (cases "n_atime n < t")
    case True
    let ?lt = "logged (removal_log lt [(k, n)]) (unstored k lt)"
    have "lru_rep now ?lt es" using rep_snoc(4) [OF rep] by simp
    from snoc.IH [OF this, of "r + 1"] obtain lt' where
      1: "older_loop t (r + 1) ?lt = Some (r + 1 + of_nat (length (older t es)), lt')"
        "lru_rep now lt' (newer t es)" "same_conf ?lt lt'"
        "l_freed lt' = l_freed ?lt @ removal_log ?lt (rev (older t es))" by blast
    have "same_conf lt ?lt" by (simp add: same_conf_def)
    from removal_log_conf [OF this] same_conf_trans [OF this 1(3)] 1 True show ?thesis
      by (subst older_loop.simps)
        (simp add: rep_snoc(1,2) [OF rep] remove_last_snoc [OF rep] e older_def newer_def ac_simps)
  next
    case False
    have "\<forall>e \<in> set (es @ [(k, n)]). t \<le> n_atime (snd e)"
      using rep False by (auto simp: lru_rep_def sorted_wrt_append)
    from newer_all [OF this] False rep show ?thesis
      by (subst older_loop.simps) (simp add: rep_snoc(1,2) [OF rep] e)
  qed
qed

lemma exceeding_loop_ends:
  assumes "lru_rep now lt es"
  shows "\<exists>lt'. exceeding_loop mx r lt = Some (r + of_nat (length es - unat mx), lt') \<and>
     lru_rep now lt' (take (unat mx) es) \<and> same_conf lt lt' \<and>
     l_freed lt' = l_freed lt @ removal_log lt (rev (drop (unat mx) es))"
  using assms
proof (induction es arbitrary: lt r rule: rev_induct)
  case Nil
  then show ?case
    by (subst exceeding_loop.simps) (simp add: rep_Nil)
next
  case (snoc e es)
  obtain k n where e: "e = (k, n)" by (cases e)
  note rep = snoc.prems [unfolded e]
  have count: "l_count lt = int (length es) + 1" using rep by (simp add: lru_rep_def)
  show ?case
  proof (cases "unat mx \<le> length es")
    case True
    let ?lt = "logged (removal_log lt [(k, n)]) (unstored k lt)"
    have "lru_rep now ?lt es" using rep_snoc(4) [OF rep] by simp
    from snoc.IH [OF this, of "r + 1"] obtain lt' where
      1: "exceeding_loop mx (r + 1) ?lt = Some (r + 1 + of_nat (length es - unat mx), lt')"
        "lru_rep now lt' (take (unat mx) es)" "same_conf ?lt lt'"
        "l_freed lt' = l_freed ?lt @ removal_log ?lt (rev (drop (unat mx) es))" by blast
    have "same_conf lt ?lt" by (simp add: same_conf_def)
    moreover have "l_count lt > uint mx" using True count by (unfold uint_nat) linarith
    moreover have "r + 1 + of_nat (length es - unat mx) = r + of_nat (length (es @ [e]) - unat mx)"
      using True by (simp add: Suc_diff_le)
    ultimately show ?thesis
      using removal_log_conf [of lt ?lt] same_conf_trans [of lt ?lt lt'] 1 True
      by (subst exceeding_loop.simps)
        (simp add: rep_snoc(1) [OF rep] remove_last_snoc [OF rep] e)
  next
    case False
    then have "\<not> l_count lt > uint mx" using count by (unfold uint_nat) linarith
    with False rep show ?thesis
      by (subst exceeding_loop.simps) (simp add: e)
  qed
qed

lemma rep_mid:
  assumes "lru_rep now lt (xs @ (k, n) # ys)"
  shows "l_base lt k = Some n" "lnext (l_links lt) k = hd_opt (map fst ys)"
    and "lru_rep now (unstored k lt) (xs @ ys)"
proof -
  have d: "distinct (map fst (xs @ (k, n) # ys))" by (rule rep_distinct_keys [OF assms])
  have m: "map_of (xs @ (k, n) # ys) k = Some n" using d by (intro map_of_is_SomeI) auto
  then show "l_base lt k = Some n" using rep_base [OF assms] by simp
  show "lnext (l_links lt) k = hd_opt (map fst ys)"
    using assms is_deque_mid(2) [of "l_links lt" "l_ends lt" "map fst xs" k "map fst ys"]
    by (simp add: lru_rep_def)
  have "without k (xs @ (k, n) # ys) = xs @ ys" using d by (simp add: without_absent)
  with unstored_rep [OF assms m] show "lru_rep now (unstored k lt) (xs @ ys)" by simp
qed

definition matching :: "('k \<Rightarrow> 'v \<Rightarrow> bool) \<Rightarrow> ('k, 'v) entries \<Rightarrow> ('k, 'v) entries" where
  "matching flt es = filter (\<lambda>(k, n). flt k (n_v n)) es"

definition unmatching :: "('k \<Rightarrow> 'v \<Rightarrow> bool) \<Rightarrow> ('k, 'v) entries \<Rightarrow> ('k, 'v) entries" where
  "unmatching flt es = filter (\<lambda>(k, n). \<not> flt k (n_v n)) es"

lemma matching_loop_ends:
  assumes "lru_rep now lt (xs @ ys)"
  shows "\<exists>lt'. matching_loop flt (hd_opt (map fst ys)) r lt
       = Some (r + of_nat (length (matching flt ys)), lt') \<and>
     lru_rep now lt' (xs @ unmatching flt ys) \<and> same_conf lt lt' \<and>
     l_freed lt' = l_freed lt @ removal_log lt (matching flt ys)"
  using assms
proof (induction ys arbitrary: xs lt r)
  case Nil
  then show ?case
    by (subst matching_loop.simps) (simp add: matching_def unmatching_def)
next
  case (Cons e ys)
  obtain k n where e: "e = (k, n)" by (cases e)
  note rep = Cons.prems [unfolded e]
  show ?case
  proof (cases "flt k (n_v n)")
    case True
    let ?lt = "logged (removal_log lt [(k, n)]) (unstored k lt)"
    have "lru_rep now ?lt (xs @ ys)" using rep_mid(3) [OF rep] by simp
    from Cons.IH [OF this, of "r + 1"] obtain lt' where
      1: "matching_loop flt (hd_opt (map fst ys)) (r + 1) ?lt
          = Some (r + 1 + of_nat (length (matching flt ys)), lt')"
        "lru_rep now lt' (xs @ unmatching flt ys)" "same_conf ?lt lt'"
        "l_freed lt' = l_freed ?lt @ removal_log ?lt (matching flt ys)" by blast
    have "same_conf lt ?lt" by (simp add: same_conf_def)
    moreover have "remove_node (Some k) lt = ?lt"
      using remove_node_eq [OF rep_mid(1) [OF rep]] by simp
    ultimately show ?thesis
      using removal_log_conf [of lt ?lt] same_conf_trans [of lt ?lt lt'] 1 True
      by (subst matching_loop.simps)
        (simp add: rep_mid(1,2) [OF rep] e matching_def unmatching_def ac_simps)
  next
    case False
    from rep have "lru_rep now lt ((xs @ [(k, n)]) @ ys)" by simp
    from Cons.IH [OF this, of r] False show ?thesis
      by (subst matching_loop.simps)
        (simp add: rep_mid(1,2) [OF rep] e matching_def unmatching_def)
  qed
qed

text \<open>The stealing loop: at most \<open>mx\<close> entries, the oldest first.\<close>

definition oldest_first :: "time \<Rightarrow> nat \<Rightarrow> ('k, 'v) entries \<Rightarrow> ('k, 'v) entries" where
  "oldest_first t m es = take m (rev (older t es))"

definition keep_recent :: "time \<Rightarrow> nat \<Rightarrow> ('k, 'v) entries \<Rightarrow> ('k, 'v) entries" where
  "keep_recent t m es = take (length es - length (oldest_first t m es)) es"

definition kv :: "('k, 'v) entries \<Rightarrow> ('k \<times> 'v) list" where
  "kv es = map (\<lambda>(k, n). (k, n_v n)) es"

lemma oldest_first_snoc:
  "n_atime (snd e) < t \<Longrightarrow> oldest_first t (Suc m) (es @ [e]) = e # oldest_first t m es"
  "n_atime (snd e) < t \<Longrightarrow> keep_recent t (Suc m) (es @ [e]) = keep_recent t m es"
  by (simp_all add: oldest_first_def keep_recent_def older_def)

lemma older_steal_loop_ends:
  assumes "lru_rep now lt es"
  shows "\<exists>lt'. older_steal_loop t mx given lt = Some (given @ kv (oldest_first t (unat mx) es), lt') \<and>
     lru_rep now lt' (keep_recent t (unat mx) es) \<and> same_conf lt lt' \<and> l_freed lt' = l_freed lt"
  using assms
proof (induction es arbitrary: lt mx given rule: rev_induct)
  case Nil
  then show ?case
    by (subst older_steal_loop.simps)
      (simp add: rep_Nil oldest_first_def keep_recent_def older_def kv_def)
next
  case (snoc e es)
  obtain k n where e: "e = (k, n)" by (cases e)
  note rep = snoc.prems [unfolded e]
  show ?case
  proof (cases "n_atime n < t \<and> mx > 0")
    case True
    then have m: "unat mx = Suc (unat (mx - 1))"
      by (simp add: unat_minus_one word_greater_zero_iff) (metis Suc_pred unat_gt_0)
    from snoc.IH [OF rep_snoc(4) [OF rep], of "mx - 1" "given @ [(k, n_v n)]"] obtain lt' where
      1: "older_steal_loop t (mx - 1) (given @ [(k, n_v n)]) (unstored k lt)
          = Some ((given @ [(k, n_v n)]) @ kv (oldest_first t (unat (mx - 1)) es), lt')"
        "lru_rep now lt' (keep_recent t (unat (mx - 1)) es)" "same_conf (unstored k lt) lt'"
        "l_freed lt' = l_freed (unstored k lt)" by blast
    have "same_conf lt (unstored k lt)" by (simp add: same_conf_def)
    from same_conf_trans [OF this 1(3)] 1 True show ?thesis
      by (subst older_steal_loop.simps)
        (simp add: rep_snoc(1,2) [OF rep] steal_node [OF rep_snoc(2) [OF rep]] e m
          oldest_first_snoc kv_def)
  next
    case False
    have "oldest_first t (unat mx) (es @ [(k, n)]) = []"
    proof (cases "n_atime n < t")
      case True
      with False show ?thesis by (simp add: oldest_first_def word_gt_0)
    next
      case False
      then have "\<forall>e \<in> set (es @ [(k, n)]). t \<le> n_atime (snd e)"
        using rep by (auto simp: lru_rep_def sorted_wrt_append)
      from newer_all [OF this] show ?thesis by (simp add: oldest_first_def)
    qed
    with False rep show ?thesis
      by (subst older_steal_loop.simps)
        (auto simp: rep_snoc(1,2) [OF rep] e keep_recent_def kv_def)
  qed
qed

lemma foreach_loop_ends:
  assumes "lru_rep now lt (xs @ ys)"
  shows "foreach_loop (\<lambda>_ _. False) lt (hd_opt (map fst ys)) acc = Some (acc @ kv ys)"
  using assms
proof (induction ys arbitrary: xs acc)
  case Nil
  then show ?case by (subst foreach_loop.simps) (simp add: kv_def)
next
  case (Cons e ys)
  obtain k n where e: "e = (k, n)" by (cases e)
  note rep = Cons.prems [unfolded e]
  from rep have "lru_rep now lt ((xs @ [(k, n)]) @ ys)" by simp
  from Cons.IH [OF this] show ?case
    by (subst foreach_loop.simps) (simp add: rep_mid(1,2) [OF rep] e kv_def)
qed

text \<open>Destroying the tree visits each node once.\<close>

definition cleanup_log :: "('k, 'v) lru_tree_s \<Rightarrow> ('k, 'v) entries \<Rightarrow> ('k, 'v) freed list" where
  "cleanup_log lt es =
     concat (map (\<lambda>(k, n). (if l_vfree lt then [Vfree (n_v n)] else [])
                         @ (if l_kfree lt then [Kfree k] else [])) es)"

lemma destroy_loop_ends:
  assumes "bfront (l_ends lt) = hd_opt (map fst es)" "seg (l_links lt) None (map fst es) None"
    and "distinct (map fst es)" "\<forall>(k, n) \<in> set es. l_base lt k = Some n"
  shows "destroy_loop lt = Some (l_freed lt @ cleanup_log lt es)"
  using assms
proof (induction es arbitrary: lt)
  case Nil
  then show ?case by (subst destroy_loop.simps) (simp add: cleanup_log_def)
next
  case (Cons e es)
  obtain k n where e: "e = (k, n)" by (cases e)
  have nx: "lnext (l_links lt) k = hd_opt (map fst es)"
    and sg: "seg (l_links lt) (Some k) (map fst es) None"
    using Cons.prems(2) by (auto simp: e case_list_hd_opt)
  let ?lt = "node_cleanup k (n_v n) (lt\<lparr>l_ends := (l_ends lt)\<lparr>bfront := hd_opt (map fst es)\<rparr>,
    l_links := set_prev (hd_opt (map fst es)) None (l_links lt)\<rparr>)"
  have "seg (set_prev (hd_opt (map fst es)) None (l_links lt)) None (map fst es) None"
    by (rule seg_new_first [OF sg]) (use Cons.prems(3) in \<open>auto simp: set_prev_def split: option.split\<close>)
  then have "destroy_loop ?lt = Some (l_freed ?lt @ cleanup_log ?lt es)"
    by (intro Cons.IH) (use Cons.prems(3,4) in auto)
  moreover have "cleanup_log ?lt es = cleanup_log lt es" by (simp add: cleanup_log_def)
  ultimately show ?case
    using Cons.prems(1,4)
    by (subst destroy_loop.simps) (simp add: e nx node_cleanup_def cleanup_log_def Let_def)
qed

section \<open>Histories\<close>

text \<open>
  A history is a sequence of dated calls.  \<open>lru_exec\<close> runs one on the tree, \<open>spec_exec\<close> on the
  list of the entries, which is what a client may think of.
\<close>

datatype ('k, 'v) lru_op =
    Insert 'k 'v | Get 'k | Remove 'k | Steal 'k | Remove_older time | Remove_exceeding guint32
  | Remove_matching "'k \<Rightarrow> 'v \<Rightarrow> bool" | Older_steal time guint32

datatype ('k, 'v) lru_answer =
    No_answer | Value "'v option" | Removed bool | Number guint32 | Given "('k \<times> 'v) list"

fun lru_exec ::
  "time \<Rightarrow> ('k, 'v) lru_op \<Rightarrow> ('k, 'v) lru_tree_s \<Rightarrow> (('k, 'v) lru_answer \<times> ('k, 'v) lru_tree_s) option" where
  "lru_exec now (Insert k v) lt = Some (No_answer, lru_tree_insert now k v lt)"
| "lru_exec now (Get k) lt = Some (map_prod Value id (lru_tree_get now k lt))"
| "lru_exec now (Remove k) lt = Some (map_prod Removed id (lru_tree_remove k lt))"
| "lru_exec now (Steal k) lt = Some (map_prod Value id (lru_tree_steal k lt))"
| "lru_exec now (Remove_older t) lt = map_option (map_prod Number id) (lru_tree_remove_older t lt)"
| "lru_exec now (Remove_exceeding m) lt = map_option (map_prod Number id) (lru_tree_remove_exceeding m lt)"
| "lru_exec now (Remove_matching f) lt = map_option (map_prod Number id) (lru_tree_remove_matching f lt)"
| "lru_exec now (Older_steal t m) lt = map_option (map_prod Given id) (lru_tree_foreach_older_steal t m lt)"

fun lru_run ::
  "(time \<times> ('k, 'v) lru_op) list \<Rightarrow> ('k, 'v) lru_tree_s
     \<Rightarrow> (('k, 'v) lru_answer list \<times> ('k, 'v) lru_tree_s) option" where
  "lru_run [] lt = Some ([], lt)"
| "lru_run ((now, op) # ops) lt =
     (case lru_exec now op lt of None \<Rightarrow> None
      | Some (a, lt1) \<Rightarrow> map_option (map_prod ((#) a) id) (lru_run ops lt1))"

fun spec_exec ::
  "guint32 \<Rightarrow> time \<Rightarrow> ('k, 'v) lru_op \<Rightarrow> ('k, 'v) entries \<Rightarrow> ('k, 'v) lru_answer \<times> ('k, 'v) entries" where
  "spec_exec fl now (Insert k v) es =
     (No_answer,
      case map_of es k of
        None \<Rightarrow> (k, \<lparr>n_atime = now, n_v = v\<rparr>) # es
      | Some n \<Rightarrow> if and fl LTO_NOUTIME = 0
                  then (k, \<lparr>n_atime = now, n_v = v\<rparr>) # without k es else with_value k v es)"
| "spec_exec fl now (Get k) es =
     (Value (map_option n_v (map_of es k)),
      case map_of es k of
        None \<Rightarrow> es
      | Some n \<Rightarrow> if and fl LTO_NOATIME = 0 then (k, n\<lparr>n_atime := now\<rparr>) # without k es else es)"
| "spec_exec fl now (Remove k) es = (Removed (map_of es k \<noteq> None), without k es)"
| "spec_exec fl now (Steal k) es = (Value (map_option n_v (map_of es k)), without k es)"
| "spec_exec fl now (Remove_older t) es = (Number (of_nat (length (older t es))), newer t es)"
| "spec_exec fl now (Remove_exceeding m) es =
     (Number (of_nat (length es - unat m)), take (unat m) es)"
| "spec_exec fl now (Remove_matching f) es =
     (Number (of_nat (length (matching f es))), unmatching f es)"
| "spec_exec fl now (Older_steal t m) es =
     (Given (kv (oldest_first t (unat m) es)), keep_recent t (unat m) es)"

fun spec_run ::
  "guint32 \<Rightarrow> (time \<times> ('k, 'v) lru_op) list \<Rightarrow> ('k, 'v) entries
     \<Rightarrow> ('k, 'v) lru_answer list \<times> ('k, 'v) entries" where
  "spec_run fl [] es = ([], es)"
| "spec_run fl ((now, op) # ops) es =
     (case spec_exec fl now op es of (a, es1) \<Rightarrow> map_prod ((#) a) id (spec_run fl ops es1))"

text \<open>The values that leave the hands of the tree, or are still in them.\<close>

fun handed :: "('k, 'v) lru_op \<Rightarrow> ('k, 'v) lru_answer \<Rightarrow> 'v multiset" where
  "handed (Steal k) (Value (Some v)) = {#v#}"
| "handed (Older_steal t m) (Given kvs) = mset (map snd kvs)"
| "handed _ _ = {#}"

fun brought :: "('k, 'v) lru_op \<Rightarrow> 'v multiset" where
  "brought (Insert k v) = {#v#}"
| "brought _ = {#}"

fun vfreed :: "('k, 'v) freed list \<Rightarrow> 'v multiset" where
  "vfreed [] = {#}"
| "vfreed (Vfree v # fs) = add_mset v (vfreed fs)"
| "vfreed (Kfree k # fs) = vfreed fs"

definition stored :: "('k, 'v) entries \<Rightarrow> 'v multiset" where
  "stored es = mset (map (n_v \<circ> snd) es)"

lemma vfreed_append [simp]: "vfreed (xs @ ys) = vfreed xs + vfreed ys"
  by (induction xs rule: vfreed.induct) auto

lemma vfreed_removal: "l_vfree lt \<Longrightarrow> vfreed (removal_log lt es) = stored es"
  by (induction es) (auto simp: stored_def)

lemma stored_simps [simp]:
  "stored [] = {#}" "stored (e # es) = add_mset (n_v (snd e)) (stored es)"
  "stored (es @ es') = stored es + stored es'" "stored (rev es) = stored es"
  by (simp_all add: stored_def)

lemma stored_without:
  assumes "distinct (map fst es)" "map_of es k = Some n"
  shows "stored es = add_mset (n_v n) (stored (without k es))"
  by (rule map_of_mid [OF assms]) simp

lemma stored_with_value:
  assumes "distinct (map fst es)" "map_of es k = Some n"
  shows "add_mset v (stored es) = add_mset (n_v n) (stored (with_value k v es))"
proof -
  have d: "distinct (map fst (with_value k v es))" using assms(1) by simp
  have "map_of (with_value k v es) k = Some (n\<lparr>n_v := v\<rparr>)"
    by (simp add: map_of_with_value [OF assms(2)])
  from stored_without [OF d this] stored_without [OF assms] show ?thesis
    by (simp add: without_with_value)
qed

lemma stored_split:
  "stored es = stored (older t es) + stored (newer t es)"
  "stored es = stored (matching f es) + stored (unmatching f es)"
  by (induction es) (auto simp: older_def newer_def matching_def unmatching_def)

lemma newer_older:
  assumes "sorted_wrt (\<lambda>a b. n_atime (snd b) \<le> n_atime (snd a)) es"
  shows "es = newer t es @ older t es"
  using assms
proof (induction es)
  case (Cons e es)
  show ?case
  proof (cases "n_atime (snd e) < t")
    case True
    with Cons.prems have "\<forall>x \<in> set es. n_atime (snd x) < t" by force
    with True show ?thesis by (simp add: newer_def older_def filter_False)
  next
    case False
    with Cons show ?thesis by (simp add: newer_def older_def)
  qed
qed (simp add: newer_def older_def)

lemma keep_recent_rest:
  assumes "sorted_wrt (\<lambda>a b. n_atime (snd b) \<le> n_atime (snd a)) es"
  shows "es = keep_recent t m es @ rev (oldest_first t m es)"
proof -
  let ?l = "length (older t es)"
  have "rev (oldest_first t m es) = drop (?l - m) (older t es)"
    by (simp add: oldest_first_def rev_take)
  also have "\<dots> = drop (length (newer t es) + (?l - m)) (newer t es @ older t es)"
    by simp
  also have "\<dots> = drop (length es - length (oldest_first t m es)) es"
  proof -
    have "length es = length (newer t es) + ?l"
      using arg_cong [OF newer_older [OF assms, of t], of length] by simp
    then have "length (newer t es) + (?l - m) = length es - length (oldest_first t m es)"
      by (simp add: oldest_first_def)
    with newer_older [OF assms, of t] show ?thesis by metis
  qed
  finally show ?thesis by (simp add: keep_recent_def)
qed

lemma stored_keep_recent:
  assumes "lru_rep now lt es"
  shows "stored es = stored (keep_recent t m es) + mset (map snd (kv (oldest_first t m es)))"
proof -
  have "mset (map snd (kv xs)) = stored xs" for xs :: "('a, 'b) entries"
    by (induction xs) (auto simp: kv_def)
  moreover have "stored es = stored (keep_recent t m es @ rev (oldest_first t m es))"
    by (rule arg_cong [OF keep_recent_rest]) (use assms in \<open>simp add: lru_rep_def\<close>)
  ultimately show ?thesis by simp
qed

lemma same_conf_ops [simp]:
  "same_conf lt (lru_tree_insert now k v lt)" "same_conf lt (snd (lru_tree_get now k lt))"
  "same_conf lt (snd (lru_tree_remove k lt))" "same_conf lt (snd (lru_tree_steal k lt))"
  by (auto simp: same_conf_def lru_tree_insert_def lru_tree_get_def tree_remove_eq tree_steal_eq
      node_update_def Let_def split: option.split)

text \<open>One call: the tree answers as the list does, and no value is lost or freed twice.\<close>

lemma exec_refines:
  assumes "lru_rep now lt es"
  shows "\<exists>lt'. lru_exec now op lt = Some (fst (spec_exec (l_flags lt) now op es), lt') \<and>
     lru_rep now lt' (snd (spec_exec (l_flags lt) now op es)) \<and> same_conf lt lt'"
proof (cases op)
  case (Insert k v)
  with insert_rep [OF assms, of k v] show ?thesis by simp
next
  case (Get k)
  with get_rep [OF assms, of k] show ?thesis
    by (auto simp: map_prod_def prod.case_eq_if)
next
  case (Remove k)
  with tree_remove_rep [OF assms, of k] show ?thesis
    by (auto simp: map_prod_def prod.case_eq_if)
next
  case (Steal k)
  with tree_steal_rep [OF assms, of k] show ?thesis
    by (auto simp: map_prod_def prod.case_eq_if)
next
  case (Remove_older t)
  with older_loop_ends [OF assms, of t 0] show ?thesis
    by (auto simp: lru_tree_remove_older_def)
next
  case (Remove_exceeding m)
  with exceeding_loop_ends [OF assms, of m 0] show ?thesis
    by (auto simp: lru_tree_remove_exceeding_def)
next
  case (Remove_matching f)
  with matching_loop_ends [of now lt "[]" es f 0] assms show ?thesis
    by (auto simp: lru_tree_remove_matching_def rep_front [OF assms])
next
  case (Older_steal t m)
  with older_steal_loop_ends [OF assms, of t m "[]"] show ?thesis
    by (auto simp: lru_tree_foreach_older_steal_def)
qed

lemma exec_accounts:
  assumes "lru_rep now lt es" "l_vfree lt" "lru_exec now op lt = Some (a, lt')"
  shows "stored (snd (spec_exec (l_flags lt) now op es)) + vfreed (l_freed lt') + handed op a =
     stored es + vfreed (l_freed lt) + brought op"
proof -
  note d = rep_distinct_keys [OF assms(1)] and b = rep_base [OF assms(1)]
  show ?thesis
  proof (cases op)
    case (Insert k v)
    with assms stored_without [OF d, of k] stored_with_value [OF d, of k _ v] b show ?thesis
      by (auto simp: lru_tree_insert_def node_update_def Let_def node_cleanup_def split: option.split)
  next
    case (Get k)
    with assms stored_without [OF d, of k] b show ?thesis
      by (auto simp: lru_tree_get_def split: option.split)
  next
    case (Remove k)
    with assms stored_without [OF d, of k] without_unmapped [of es k] b show ?thesis
      by (auto simp: tree_remove_eq split: option.splits)
  next
    case (Steal k)
    with assms stored_without [OF d, of k] without_unmapped [of es k] b show ?thesis
      by (auto simp: tree_steal_eq split: option.splits)
  next
    case (Remove_older t)
    with older_loop_ends [OF assms(1), of t 0] assms stored_split(1) [of es t] show ?thesis
      by (auto simp: lru_tree_remove_older_def vfreed_removal)
  next
    case (Remove_exceeding m)
    have "stored es = stored (take (unat m) es) + stored (drop (unat m) es)"
      by (metis append_take_drop_id stored_simps(3))
    with Remove_exceeding exceeding_loop_ends [OF assms(1), of m 0] assms show ?thesis
      by (auto simp: lru_tree_remove_exceeding_def vfreed_removal)
  next
    case (Remove_matching f)
    with matching_loop_ends [of now lt "[]" es f 0] assms stored_split(2) [of es f] show ?thesis
      by (auto simp: lru_tree_remove_matching_def rep_front [OF assms(1)] vfreed_removal)
  next
    case (Older_steal t m)
    with older_steal_loop_ends [OF assms(1), of t m "[]"] assms stored_keep_recent [OF assms(1)]
    show ?thesis
      by (auto simp: lru_tree_foreach_older_steal_def)
  qed
qed

lemma run_refines:
  assumes "sorted (map fst ops)" "lru_rep now lt es" "\<forall>t \<in> fst ` set ops. now \<le> t" "l_vfree lt"
  shows "\<exists>lt' now'. lru_run ops lt = Some (fst (spec_run (l_flags lt) ops es), lt') \<and>
     lru_rep now' lt' (snd (spec_run (l_flags lt) ops es)) \<and> same_conf lt lt' \<and>
     stored (snd (spec_run (l_flags lt) ops es)) + vfreed (l_freed lt') +
       sum_list (map2 handed (map snd ops) (fst (spec_run (l_flags lt) ops es))) =
     stored es + vfreed (l_freed lt) + sum_list (map brought (map snd ops))"
  using assms
proof (induction ops arbitrary: now lt es)
  case Nil
  then show ?case by auto
next
  case (Cons x ops)
  obtain t op where x: "x = (t, op)" by (cases x)
  let ?fl = "l_flags lt"
  have "now \<le> t" using Cons.prems(3) x by simp
  note rep = rep_later [OF Cons.prems(2) this]
  obtain a es1 where spec: "spec_exec ?fl t op es = (a, es1)" by (cases "spec_exec ?fl t op es")
  from exec_refines [OF rep, of op] spec obtain lt1 where
    1: "lru_exec t op lt = Some (a, lt1)" "lru_rep t lt1 es1" "same_conf lt lt1" by auto
  note acc = exec_accounts [OF rep Cons.prems(4) 1(1), unfolded spec, simplified]
  have c: "l_flags lt1 = ?fl" "l_vfree lt1" using 1(3) Cons.prems(4) by (auto simp: same_conf_def)
  have "sorted (map fst ops)" "\<forall>u \<in> fst ` set ops. t \<le> u" using Cons.prems(1) x by auto
  from Cons.IH [OF this(1) 1(2) this(2) c(2), unfolded c(1)] obtain lt' now' where
    2: "lru_run ops lt1 = Some (fst (spec_run ?fl ops es1), lt')"
      "lru_rep now' lt' (snd (spec_run ?fl ops es1))" "same_conf lt1 lt'"
      "stored (snd (spec_run ?fl ops es1)) + vfreed (l_freed lt') +
         sum_list (map2 handed (map snd ops) (fst (spec_run ?fl ops es1))) =
       stored es1 + vfreed (l_freed lt1) + sum_list (map brought (map snd ops))" by blast
  from acc 2(4) have "stored (snd (spec_run ?fl ops es1)) + vfreed (l_freed lt') +
      (handed op a + sum_list (map2 handed (map snd ops) (fst (spec_run ?fl ops es1)))) =
    stored es + vfreed (l_freed lt) + (brought op + sum_list (map brought (map snd ops)))"
    by (simp add: ac_simps)
  with 1 2 same_conf_trans [OF 1(3) 2(3)] show ?case
    by (auto simp: x spec comp_def)
qed

lemma spec_run_length: "length (fst (spec_run fl ops es)) = length ops"
  by (induction ops arbitrary: es) (auto simp: split: prod.split)

lemma destroy_rep:
  assumes "lru_rep now lt es" "l_vfree lt"
  shows "\<exists>fs. lru_tree_destroy lt = Some fs \<and> vfreed fs = vfreed (l_freed lt) + stored es"
proof -
  have "vfreed (cleanup_log lt es) = stored es"
    using assms(2) by (induction es) (auto simp: cleanup_log_def)
  moreover have "destroy_loop lt = Some (l_freed lt @ cleanup_log lt es)"
    by (rule destroy_loop_ends)
      (use assms(1) rep_distinct_keys [OF assms(1)] in \<open>auto simp: lru_rep_def is_deque_def\<close>)
  ultimately show ?thesis by (simp add: lru_tree_destroy_def)
qed

section \<open>Properties\<close>

text \<open>
  C22: whatever the sequence of calls, as long as the clock does not go back, the tree ends every
  call, answers each of them as the list of the entries does, and holds what the list holds, in
  the same order, with the right count: the red-black tree, the chain and the counter never
  disagree.
\<close>

theorem lru_refines_list:
  assumes "sorted (map fst ops)"
  shows "\<exists>lt. lru_run ops (lru_tree_create kf True fl) = Some (fst (spec_run fl ops []), lt) \<and>
     lru_tree_foreach (\<lambda>_ _. False) lt = Some (kv (snd (spec_run fl ops []))) \<and>
     lru_tree_count lt = int (length (snd (spec_run fl ops []))) \<and>
     lru_tree_get_oldest_key lt = last_opt (map fst (snd (spec_run fl ops [])))"
proof -
  obtain now :: int where now: "\<forall>t \<in> fst ` set ops. now \<le> t"
    using assms by (cases ops) auto
  have "l_flags (lru_tree_create kf True fl :: ('a, 'b) lru_tree_s) = fl"
    "l_vfree (lru_tree_create kf True fl :: ('a, 'b) lru_tree_s)"
    by (simp_all add: lru_tree_create_def)
  with run_refines [OF assms create_rep now, of kf True fl] obtain lt now' where
    "lru_run ops (lru_tree_create kf True fl) = Some (fst (spec_run fl ops []), lt)"
    and rep: "lru_rep now' lt (snd (spec_run fl ops []))" by auto
  moreover have "lru_tree_foreach (\<lambda>_ _. False) lt = Some (kv (snd (spec_run fl ops [])))"
    using foreach_loop_ends [of now' lt "[]"] rep
    by (simp add: lru_tree_foreach_def rep_front [OF rep])
  ultimately show ?thesis
    by (auto simp: lru_tree_count_def lru_rep_def lru_tree_get_oldest_key_def rep_back [OF rep])
qed

theorem lru_refines_list_witness:
  "\<exists>lt. lru_run [(0, Insert ''a'' (1::nat)), (3, Insert ''b'' 2), (3, Get ''a''), (9, Remove_older 3)]
     (lru_tree_create True True 0) = Some ([No_answer, No_answer, Value (Some 1), Number 0], lt) \<and>
     lru_tree_foreach (\<lambda>_ _. False) lt = Some [(''a'', 1), (''b'', 2)]"
  using lru_refines_list [of "[(0, Insert ''a'' (1::nat)), (3, Insert ''b'' 2), (3, Get ''a''),
      (9, Remove_older 3)]" True 0]
  by (auto simp: without_def older_def newer_def kv_def)

text \<open>
  C23: when a tree that frees its values is destroyed after any sequence of calls, each value that
  was inserted has been freed or handed back, exactly once.
\<close>

theorem lru_values_accounted:
  assumes "sorted (map fst ops)"
  shows "\<exists>as lt fs. lru_run ops (lru_tree_create kf True fl) = Some (as, lt) \<and>
     length as = length ops \<and> lru_tree_destroy lt = Some fs \<and>
     vfreed fs + sum_list (map2 handed (map snd ops) as) = sum_list (map brought (map snd ops))"
proof -
  obtain now :: int where now: "\<forall>t \<in> fst ` set ops. now \<le> t"
    using assms by (cases ops) auto
  let ?lt = "lru_tree_create kf True fl :: ('a, 'b) lru_tree_s"
  have c: "l_flags ?lt = fl" "l_vfree ?lt" "l_freed ?lt = []" by (simp_all add: lru_tree_create_def)
  with run_refines [OF assms create_rep now, of kf True fl] obtain lt now' where
    1: "lru_run ops ?lt = Some (fst (spec_run fl ops []), lt)"
      "lru_rep now' lt (snd (spec_run fl ops []))" "same_conf ?lt lt"
      "stored (snd (spec_run fl ops [])) + vfreed (l_freed lt) +
         sum_list (map2 handed (map snd ops) (fst (spec_run fl ops []))) =
       sum_list (map brought (map snd ops))" by auto
  have "l_vfree lt" using 1(3) c by (simp add: same_conf_def)
  from destroy_rep [OF 1(2) this] obtain fs where
    "lru_tree_destroy lt = Some fs" "vfreed fs = vfreed (l_freed lt) + stored (snd (spec_run fl ops []))"
    by auto
  with 1(1,4) spec_run_length [of fl ops "[]"] show ?thesis
    by (metis add.commute)
qed

theorem lru_values_accounted_witness:
  "\<exists>as lt fs. lru_run [(0, Insert ''a'' (1::nat)), (3, Insert ''a'' 2), (4, Steal ''a'')]
     (lru_tree_create True True 0) = Some (as, lt) \<and> lru_tree_destroy lt = Some fs \<and>
     vfreed fs + sum_list (map2 handed [Insert ''a'' (1::nat), Insert ''a'' 2, Steal ''a''] as) = {#1, 2#}"
  using lru_values_accounted [of "[(0, Insert ''a'' (1::nat)), (3, Insert ''a'' 2), (4, Steal ''a'')]"
      True 0]
  by auto

end
