(* ===== verification/Hashing.thy ===== *)
theory Hashing
  imports Oio_Prelude
begin

text \<open>
  The DJB hash functions of \<^verbatim>\<open>core/lb.c\<close> and the hashed strings of
  \<^verbatim>\<open>metautils/lib/utils_hashstr.c\<close>, the keys of the trees of the repository.

  A string is the list of its characters, without the NUL at its end.  The characters are signed
  (\<^verbatim>\<open>gchar\<close>): \<open>schar\<close> is the conversion of one to \<^verbatim>\<open>guint32\<close>, which extends its sign, where the
  bytes of a buffer are unsigned.
\<close>

definition uchar :: "char \<Rightarrow> guint32" where
  "uchar c = of_nat (of_char c)"

definition schar :: "char \<Rightarrow> guint32" where
  "schar c = (if (of_char c :: nat) < 128 then uchar c else uchar c - 256)"

definition djb_step :: "guint32 \<Rightarrow> guint32" where
  "djb_step h = push_bit 5 h + h"

definition djb_hash_str0 :: "string \<Rightarrow> guint32" where
  "djb_hash_str0 s = foldl (\<lambda>h c. djb_step h + schar c) 5381 s"

record hash_len =
  hl_h :: guint32
  hl_l :: nat

definition djb_hash_str :: "string \<Rightarrow> hash_len" where
  "djb_hash_str s = foldl (\<lambda>hl c. \<lparr>hl_h = xor (djb_step (hl_h hl)) (schar c), hl_l = hl_l hl + 1\<rparr>)
     \<lparr>hl_h = 5381, hl_l = 0\<rparr> s"

definition djb_hash_buf :: "string \<Rightarrow> nat \<Rightarrow> guint32" where
  "djb_hash_buf b bs = foldl (\<lambda>h c. xor (djb_step h) (uchar c)) 5381 (take bs b)"

section \<open>Hashed strings\<close>

record hashstr =
  hs_hl :: hash_len
  hs_s0 :: string

definition hashstr_create :: "string \<Rightarrow> hashstr" where
  "hashstr_create s = (let hl = djb_hash_str s in \<lparr>hs_hl = hl, hs_s0 = take (hl_l hl) s\<rparr>)"

definition hashstr_create_len :: "string \<Rightarrow> nat \<Rightarrow> hashstr" where
  "hashstr_create_len s l =
     \<lparr>hs_hl = \<lparr>hl_h = djb_hash_buf s l, hl_l = l\<rparr>, hs_s0 = take l s\<rparr>"

text \<open>\<^verbatim>\<open>hashstr_create_from_gstring\<close>, which \<^verbatim>\<open>hashstr_printf\<close> ends with.\<close>

definition hashstr_create_from_gstring :: "string \<Rightarrow> hashstr" where
  "hashstr_create_from_gstring gstr = hashstr_create_len gstr (length gstr)"

definition hashstr_dup :: "hashstr \<Rightarrow> hashstr" where
  "hashstr_dup hs = \<lparr>hs_hl = hs_hl hs, hs_s0 = take (hl_l (hs_hl hs)) (hs_s0 hs)\<rparr>"

text \<open>\<^verbatim>\<open>CMP\<close> (\<^verbatim>\<open>core/oioext.h\<close>), and the sign of \<^verbatim>\<open>strcmp\<close>, which compares unsigned characters.\<close>

definition CMP :: "'a::linorder \<Rightarrow> 'a \<Rightarrow> int" where
  "CMP a b = (if a > b then 1 else 0) - (if a < b then 1 else 0)"

fun g_strcmp :: "string \<Rightarrow> string \<Rightarrow> int" where
  "g_strcmp [] [] = 0"
| "g_strcmp [] (_ # _) = -1"
| "g_strcmp (_ # _) [] = 1"
| "g_strcmp (a # as) (b # bs) =
     (if a = b then g_strcmp as bs else CMP (of_char a :: nat) (of_char b))"

definition hashstr_quick_cmp :: "hashstr \<Rightarrow> hashstr \<Rightarrow> int" where
  "hashstr_quick_cmp hs1 hs2 =
     (let rc = CMP (hl_h (hs_hl hs1)) (hl_h (hs_hl hs2))
      in if rc \<noteq> 0 then rc else g_strcmp (hs_s0 hs1) (hs_s0 hs2))"

section \<open>Facts\<close>

lemma CMP_simps [simp]:
  "CMP a b = 0 \<longleftrightarrow> a = b" "CMP a b < 0 \<longleftrightarrow> a < b" "CMP a b > 0 \<longleftrightarrow> b < a" "CMP a a = 0"
  by (auto simp: CMP_def)

lemma CMP_swap: "CMP b a = - CMP a b"
  by (auto simp: CMP_def)

lemma of_char_nat_inject: "(of_char a :: nat) = of_char b \<longleftrightarrow> a = b"
  by (metis of_char_eq_iff)

lemma g_strcmp_eq_0 [simp]: "g_strcmp s t = 0 \<longleftrightarrow> s = t"
  by (induction s t rule: g_strcmp.induct) auto

lemma g_strcmp_swap: "g_strcmp t s = - g_strcmp s t"
proof (induction s t rule: g_strcmp.induct)
  case (4 a as b bs)
  then show ?case using CMP_swap [of "of_char a :: nat" "of_char b"] by simp
qed simp_all

lemma g_strcmp_trans: "g_strcmp s t < 0 \<Longrightarrow> g_strcmp t u < 0 \<Longrightarrow> g_strcmp s u < 0"
proof (induction s u arbitrary: t rule: g_strcmp.induct)
  case (1 t)
  then show ?case by (cases t) auto
next
  case (4 a as b bs)
  then show ?case
    by (cases t) (auto split: if_splits)
next
  case (3 a as t)
  then show ?case by (cases t) auto
qed auto

lemma djb_hash_str_len: "hl_l (djb_hash_str s) = length s"
proof -
  have "hl_l (foldl (\<lambda>hl c. \<lparr>hl_h = xor (djb_step (hl_h hl)) (schar c), hl_l = hl_l hl + 1\<rparr>) hl s)
      = hl_l hl + length s" for hl
    by (induction s arbitrary: hl) auto
  then show ?thesis by (simp add: djb_hash_str_def)
qed

lemma djb_hash_str_ascii:
  assumes "\<forall>c \<in> set s. (of_char c :: nat) < 128"
  shows "hl_h (djb_hash_str s) = djb_hash_buf s (length s)"
proof -
  have "hl_h (foldl (\<lambda>hl c. \<lparr>hl_h = xor (djb_step (hl_h hl)) (schar c), hl_l = hl_l hl + 1\<rparr>) hl s)
      = foldl (\<lambda>h c. xor (djb_step h) (uchar c)) (hl_h hl) s" for hl
    using assms by (induction s arbitrary: hl) (auto simp: schar_def)
  then show ?thesis by (simp add: djb_hash_str_def djb_hash_buf_def)
qed

lemma created_fields [simp]:
  "hs_s0 (hashstr_create s) = s" "hs_s0 (hashstr_create_from_gstring s) = s"
  "hl_h (hs_hl (hashstr_create s)) = hl_h (djb_hash_str s)"
  "hl_h (hs_hl (hashstr_create_from_gstring s)) = djb_hash_buf s (length s)"
  by (simp_all add: hashstr_create_def hashstr_create_from_gstring_def hashstr_create_len_def
      djb_hash_str_len Let_def)

lemma hashstr_dup_created: "hashstr_dup (hashstr_create s) = hashstr_create s"
  "hashstr_dup (hashstr_create_from_gstring s) = hashstr_create_from_gstring s"
  by (simp_all add: hashstr_dup_def hashstr_create_def hashstr_create_from_gstring_def
      hashstr_create_len_def djb_hash_str_len Let_def)

text \<open>
  The comparison of hashed strings is a total order in which two keys are equal exactly when
  they hold the same hash and the same string, so that a tree keyed by strings hashed by the same
  constructor is a map from strings.
\<close>

theorem hashstr_total_order:
  "hashstr_quick_cmp a a = 0 \<and> hashstr_quick_cmp b a = - hashstr_quick_cmp a b \<and>
   (hashstr_quick_cmp a b < 0 \<longrightarrow> hashstr_quick_cmp b c < 0 \<longrightarrow> hashstr_quick_cmp a c < 0) \<and>
   (hashstr_quick_cmp (hashstr_create s) (hashstr_create t) = 0 \<longleftrightarrow> s = t) \<and>
   (hashstr_quick_cmp (hashstr_create_from_gstring s) (hashstr_create_from_gstring t) = 0 \<longleftrightarrow> s = t)"
proof (intro conjI impI)
  show "hashstr_quick_cmp a a = 0" by (simp add: hashstr_quick_cmp_def)
  show "hashstr_quick_cmp b a = - hashstr_quick_cmp a b"
    using CMP_swap [of "hl_h (hs_hl a)" "hl_h (hs_hl b)"] g_strcmp_swap [of "hs_s0 a" "hs_s0 b"]
    by (simp add: hashstr_quick_cmp_def Let_def)
  show "hashstr_quick_cmp a c < 0" if "hashstr_quick_cmp a b < 0" "hashstr_quick_cmp b c < 0"
    using that g_strcmp_trans [of "hs_s0 a" "hs_s0 b" "hs_s0 c"]
    by (auto simp: hashstr_quick_cmp_def Let_def split: if_splits)
qed (auto simp: hashstr_quick_cmp_def Let_def)

theorem hashstr_total_order_witness:
  "hashstr_quick_cmp (hashstr_create ''a'') (hashstr_create ''c'') < 0 \<and>
   hashstr_quick_cmp (hashstr_create ''c'') (hashstr_create ''b'') < 0 \<and>
   hashstr_quick_cmp (hashstr_create ''a'') (hashstr_create ''b'') < 0"
proof -
  have "hashstr_quick_cmp (hashstr_create ''a'') (hashstr_create ''c'') < 0 \<and>
   hashstr_quick_cmp (hashstr_create ''c'') (hashstr_create ''b'') < 0"
    by code_simp
  then show ?thesis
    using hashstr_total_order [of "hashstr_create ''a''" "hashstr_create ''c''" "hashstr_create ''b''"]
    by blast
qed

text \<open>
  The two constructors disagree on a string with a character out of ASCII: the one extends the
  sign of the characters, the other does not, and the same string gives two different keys.
\<close>

theorem hashstr_constructors_disagree:
  "hashstr_quick_cmp (hashstr_create [CHR 0xE9]) (hashstr_create_from_gstring [CHR 0xE9]) \<noteq> 0 \<and>
   (\<forall>s. (\<forall>c \<in> set s. (of_char c :: nat) < 128) \<longrightarrow> hashstr_create s = hashstr_create_from_gstring s)"
proof
  show "hashstr_quick_cmp (hashstr_create [CHR 0xE9]) (hashstr_create_from_gstring [CHR 0xE9]) \<noteq> 0"
    by code_simp
  show "\<forall>s. (\<forall>c \<in> set s. (of_char c :: nat) < 128) \<longrightarrow> hashstr_create s = hashstr_create_from_gstring s"
  proof (intro allI impI)
    fix s :: string assume "\<forall>c \<in> set s. (of_char c :: nat) < 128"
    note djb_hash_str_ascii [OF this]
    then have "djb_hash_str s = \<lparr>hl_h = djb_hash_buf s (length s), hl_l = length s\<rparr>"
      using djb_hash_str_len [of s] by (cases "djb_hash_str s") simp
    then show "hashstr_create s = hashstr_create_from_gstring s"
      by (simp add: hashstr_create_def hashstr_create_from_gstring_def hashstr_create_len_def Let_def)
  qed
qed

theorem hashstr_constructors_disagree_witness:
  "hashstr_create ''abc'' = hashstr_create_from_gstring ''abc''"
proof -
  have "\<forall>c \<in> set ''abc''. (of_char c :: nat) < 128" by code_simp
  with hashstr_constructors_disagree show ?thesis by blast
qed

end
