(* ===== verification/Loc.thy ===== *)
theory Loc
  imports Hashing
begin

text \<open>
  The locations of the services (\<^verbatim>\<open>core/loc.c\<close>, \<^verbatim>\<open>core/oioloc.h\<close>): a 64-bit number made of a
  region and a room (8 bits each), a rack, a host and a volume (16 bits each).
\<close>

type_synonym oio_location = "64 word"

abbreviation (input) OIO_LB_LOC_LEVELS :: nat where "OIO_LB_LOC_LEVELS \<equiv> 4"
abbreviation (input) OIO_LB_BITS_PER_LOC_LEVEL :: nat where "OIO_LB_BITS_PER_LOC_LEVEL \<equiv> 16"

text \<open>
  \<^verbatim>\<open>g_strsplit\<close> with a separator of one character and a positive bound on the number of tokens.
\<close>

fun strsplit_loop :: "char \<Rightarrow> nat \<Rightarrow> string \<Rightarrow> string list" where
  "strsplit_loop sep n s =
     (if n \<le> 1 \<or> sep \<notin> set s then [s]
      else takeWhile (\<lambda>c. c \<noteq> sep) s # strsplit_loop sep (n - 1) (tl (dropWhile (\<lambda>c. c \<noteq> sep) s)))"

declare strsplit_loop.simps [simp del]

definition g_strsplit :: "string \<Rightarrow> char \<Rightarrow> nat \<Rightarrow> string list" where
  "g_strsplit s sep n = (if s = [] then [] else strsplit_loop sep n s)"

definition location_from_dotted_string :: "string \<Rightarrow> oio_location" where
  "location_from_dotted_string dotted =
     foldl (\<lambda>location tok. or (push_bit OIO_LB_BITS_PER_LOC_LEVEL location)
              (and (ucast (djb_hash_str0 tok)) 0xFFFF))
       0 (g_strsplit dotted (CHR ''.'') OIO_LB_LOC_LEVELS)"

text \<open>\<^verbatim>\<open>__builtin_clzl\<close>: the number of zeroes before the first bit set; it is undefined on 0.\<close>

definition clz :: "64 word \<Rightarrow> nat" where
  "clz w = length (takeWhile (\<lambda>i. \<not> bit w (63 - i)) [0..<64])"

datatype oio_loc_proximity_level =
  OIO_LOC_PROX_NONE | OIO_LOC_PROX_REGION | OIO_LOC_PROX_ROOM | OIO_LOC_PROX_RACK
| OIO_LOC_PROX_HOST | OIO_LOC_PROX_VOLUME

datatype oio_loc_distance_level =
  OIO_LOC_DIST_VOLUME | OIO_LOC_DIST_HOST | OIO_LOC_DIST_RACK | OIO_LOC_DIST_ROOM
| OIO_LOC_DIST_REGION | OIO_LOC_DIST_FARAWAY

text \<open>The values of the second enumeration, by which the levels are compared.\<close>

fun dist_value :: "oio_loc_distance_level \<Rightarrow> nat" where
  "dist_value OIO_LOC_DIST_VOLUME = 0"
| "dist_value OIO_LOC_DIST_HOST = 1"
| "dist_value OIO_LOC_DIST_RACK = 2"
| "dist_value OIO_LOC_DIST_ROOM = 3"
| "dist_value OIO_LOC_DIST_REGION = 4"
| "dist_value OIO_LOC_DIST_FARAWAY = 5"

text \<open>\<^verbatim>\<open>oio_location_proximity\<close>: \<open>None\<close> where the count of zeroes is undefined.\<close>

definition oio_location_proximity ::
  "oio_location \<Rightarrow> oio_location \<Rightarrow> oio_loc_proximity_level option" where
  "oio_location_proximity loc0 loc1 =
     (if xor loc0 loc1 = 0 then None
      else let n = clz (xor loc0 loc1) in Some
        (if n \<le> 7 then OIO_LOC_PROX_NONE
         else if n \<le> 15 then OIO_LOC_PROX_REGION
         else if n \<le> 31 then OIO_LOC_PROX_ROOM
         else if n \<le> 47 then OIO_LOC_PROX_RACK
         else OIO_LOC_PROX_HOST))"

definition oio_location_distance :: "oio_location \<Rightarrow> oio_location \<Rightarrow> oio_loc_distance_level" where
  "oio_location_distance loc0 loc1 =
     (if loc0 = loc1 then OIO_LOC_DIST_VOLUME
      else let n = clz (xor loc0 loc1) in
        if n \<le> 7 then OIO_LOC_DIST_FARAWAY
        else if n \<le> 15 then OIO_LOC_DIST_REGION
        else if n \<le> 31 then OIO_LOC_DIST_ROOM
        else if n \<le> 47 then OIO_LOC_DIST_RACK
        else OIO_LOC_DIST_HOST)"

fun oio_location_common_bits :: "oio_loc_proximity_level \<Rightarrow> nat" where
  "oio_location_common_bits OIO_LOC_PROX_NONE = 0"
| "oio_location_common_bits OIO_LOC_PROX_REGION = 8"
| "oio_location_common_bits OIO_LOC_PROX_ROOM = 16"
| "oio_location_common_bits OIO_LOC_PROX_RACK = 32"
| "oio_location_common_bits OIO_LOC_PROX_HOST = 48"
| "oio_location_common_bits OIO_LOC_PROX_VOLUME = 64"

text \<open>
  \<^verbatim>\<open>oio_location_mask_after\<close>.  For \<^verbatim>\<open>OIO_LOC_PROX_NONE\<close> the shift is of 64 bits, which is undefined
  in C: \<open>None\<close>.
\<close>

definition oio_location_mask_after ::
  "oio_location \<Rightarrow> oio_loc_proximity_level \<Rightarrow> oio_location option" where
  "oio_location_mask_after location level =
     (let shift = 64 - oio_location_common_bits level in
      if shift = 0 then Some location
      else if shift \<ge> 64 then None
      else Some (push_bit shift (drop_bit shift location)))"

section \<open>Facts\<close>

lemma drop_bit_eq_iff:
  fixes v w :: "64 word"
  shows "drop_bit n v = drop_bit n w \<longleftrightarrow> (\<forall>i. n \<le> i \<longrightarrow> i < 64 \<longrightarrow> bit v i = bit w i)"
proof
  assume eq: "drop_bit n v = drop_bit n w"
  show "\<forall>i. n \<le> i \<longrightarrow> i < 64 \<longrightarrow> bit v i = bit w i"
  proof (intro allI impI)
    fix i assume "n \<le> i"
    moreover from eq have "bit (drop_bit n v) (i - n) = bit (drop_bit n w) (i - n)" by simp
    ultimately show "bit v i = bit w i" by (simp add: bit_drop_bit_eq)
  qed
next
  assume *: "\<forall>i. n \<le> i \<longrightarrow> i < 64 \<longrightarrow> bit v i = bit w i"
  show "drop_bit n v = drop_bit n w"
  proof (rule bit_word_eqI)
    fix i assume "i < LENGTH(64)"
    show "bit (drop_bit n v) i = bit (drop_bit n w) i"
    proof (cases "n + i < 64")
      case True
      with * show ?thesis by (simp add: bit_drop_bit_eq)
    next
      case False
      then have "\<not> bit v (n + i)" "\<not> bit w (n + i)"
        by (auto dest: bit_imp_le_length)
      then show ?thesis by (simp add: bit_drop_bit_eq)
    qed
  qed
qed

lemma clz_ge_iff:
  assumes "n \<le> 64"
  shows "n \<le> clz w \<longleftrightarrow> (\<forall>i. 64 - n \<le> i \<longrightarrow> i < 64 \<longrightarrow> \<not> bit w i)"
proof -
  have "n \<le> length (takeWhile P xs) \<longleftrightarrow> (\<forall>i < n. P (xs ! i))" if "n \<le> length xs"
    for P and xs :: "nat list"
    using that
  proof (induction xs arbitrary: n)
    case (Cons x xs)
    then show ?case by (cases n) (auto simp: less_Suc_eq_0_disj)
  qed simp
  then have "n \<le> clz w \<longleftrightarrow> (\<forall>i < n. \<not> bit w (63 - i))"
    using assms by (simp add: clz_def)
  also have "\<dots> \<longleftrightarrow> (\<forall>i. 64 - n \<le> i \<longrightarrow> i < 64 \<longrightarrow> \<not> bit w i)"
  proof (intro iffI allI impI)
    fix i assume *: "\<forall>i < n. \<not> bit w (63 - i)" "64 - n \<le> i" "i < 64"
    then have "63 - i < n" "63 - (63 - i) = i" using assms by linarith+
    with * show "\<not> bit w i" by metis
  next
    fix i assume "\<forall>i. 64 - n \<le> i \<longrightarrow> i < 64 \<longrightarrow> \<not> bit w i" "i < n"
    then show "\<not> bit w (63 - i)" using assms by simp
  qed
  finally show ?thesis .
qed

text \<open>The zeroes before the first difference, and the leading parts of the locations.\<close>

lemma clz_xor_ge_iff:
  assumes "n \<le> 64"
  shows "n \<le> clz (xor v w) \<longleftrightarrow> drop_bit (64 - n) v = drop_bit (64 - n) w"
  by (simp add: clz_ge_iff [OF assms] drop_bit_eq_iff bit_xor_iff)

text \<open>The levels, read from the leading parts.\<close>

lemma distance_spec:
  "oio_location_distance a b =
     (if drop_bit 56 a \<noteq> drop_bit 56 b then OIO_LOC_DIST_FARAWAY
      else if drop_bit 48 a \<noteq> drop_bit 48 b then OIO_LOC_DIST_REGION
      else if drop_bit 32 a \<noteq> drop_bit 32 b then OIO_LOC_DIST_ROOM
      else if drop_bit 16 a \<noteq> drop_bit 16 b then OIO_LOC_DIST_RACK
      else if a \<noteq> b then OIO_LOC_DIST_HOST else OIO_LOC_DIST_VOLUME)"
proof (cases "a = b")
  case False
  let ?n = "clz (xor a b)"
  have "8 \<le> ?n \<longleftrightarrow> drop_bit 56 a = drop_bit 56 b" "16 \<le> ?n \<longleftrightarrow> drop_bit 48 a = drop_bit 48 b"
    "32 \<le> ?n \<longleftrightarrow> drop_bit 32 a = drop_bit 32 b" "48 \<le> ?n \<longleftrightarrow> drop_bit 16 a = drop_bit 16 b"
    by (simp_all add: clz_xor_ge_iff)
  moreover have "?n \<le> 7 \<longleftrightarrow> \<not> 8 \<le> ?n" "?n \<le> 15 \<longleftrightarrow> \<not> 16 \<le> ?n" "?n \<le> 31 \<longleftrightarrow> \<not> 32 \<le> ?n"
    "?n \<le> 47 \<longleftrightarrow> \<not> 48 \<le> ?n" by linarith+
  ultimately show ?thesis using False by (simp add: oio_location_distance_def Let_def)
qed (simp add: oio_location_distance_def)

lemma drop_bit_more:
  fixes a b :: "64 word"
  assumes "drop_bit m a = drop_bit m b" "m \<le> n"
  shows "drop_bit n a = drop_bit n b"
  using assms by (metis drop_bit_drop_bit le_add_diff_inverse2)

text \<open>When two locations are within a distance, in terms of their leading parts.\<close>

definition shared_shift :: "nat \<Rightarrow> nat" where
  "shared_shift d = (if d = 0 then 0 else if d = 1 then 16 else if d = 2 then 32
                     else if d = 3 then 48 else 56)"

lemma distance_le_iff:
  assumes "d < 5"
  shows "dist_value (oio_location_distance a b) \<le> d \<longleftrightarrow>
     drop_bit (shared_shift d) a = drop_bit (shared_shift d) b"
proof -
  note more = drop_bit_more [of _ a b]
  have "d = 0 \<or> d = 1 \<or> d = 2 \<or> d = 3 \<or> d = 4" using assms by linarith
  moreover have "drop_bit 16 a = drop_bit 16 b" if "a = b" using that by simp
  moreover have "drop_bit 32 a = drop_bit 32 b" if "drop_bit 16 a = drop_bit 16 b"
    by (rule more [OF that]) simp
  moreover have "drop_bit 48 a = drop_bit 48 b" if "drop_bit 32 a = drop_bit 32 b"
    by (rule more [OF that]) simp
  moreover have "drop_bit 56 a = drop_bit 56 b" if "drop_bit 48 a = drop_bit 48 b"
    by (rule more [OF that]) simp
  ultimately show ?thesis
    by (auto simp: distance_spec shared_shift_def)
qed

lemma dist_value_le: "dist_value d \<le> 5"
  by (cases d) auto

lemma dist_value_inject: "dist_value d = dist_value e \<longleftrightarrow> d = e"
  by (cases d; cases e) auto

text \<open>
  C24: the distance between two locations is an ultrametric: it is null exactly on equal locations,
  symmetric, and a location is never further from another than the further of the two is from a
  third one.
\<close>

theorem location_distance_ultrametric:
  "(oio_location_distance a b = OIO_LOC_DIST_VOLUME \<longleftrightarrow> a = b) \<and>
   oio_location_distance a b = oio_location_distance b a \<and>
   dist_value (oio_location_distance a c) \<le>
     max (dist_value (oio_location_distance a b)) (dist_value (oio_location_distance b c))"
proof (intro conjI)
  show "oio_location_distance a b = OIO_LOC_DIST_VOLUME \<longleftrightarrow> a = b"
    by (auto simp: distance_spec)
  show "oio_location_distance a b = oio_location_distance b a"
    by (simp add: distance_spec eq_commute)
  let ?m = "max (dist_value (oio_location_distance a b)) (dist_value (oio_location_distance b c))"
  show "dist_value (oio_location_distance a c) \<le> ?m"
  proof (cases "?m < 5")
    case True
    then show ?thesis
      using distance_le_iff [OF True, of a b] distance_le_iff [OF True, of b c]
        distance_le_iff [OF True, of a c] by simp
  next
    case False
    with dist_value_le [of "oio_location_distance a c"] show ?thesis by linarith
  qed
qed

section \<open>Dotted locations\<close>

definition loc_part :: "string \<Rightarrow> oio_location" where
  "loc_part tok = and (ucast (djb_hash_str0 tok)) 0xFFFF"

lemma strsplit_last: "n \<le> 1 \<Longrightarrow> strsplit_loop sep n s = [s]"
  by (simp add: strsplit_loop.simps)

lemma span_sep:
  assumes "sep \<notin> set t"
  shows "takeWhile (\<lambda>c. c \<noteq> sep) (t @ sep # s) = t" "dropWhile (\<lambda>c. c \<noteq> sep) (t @ sep # s) = sep # s"
  using assms by (induction t) auto

lemma strsplit_next:
  assumes "sep \<notin> set t" "n > 1"
  shows "strsplit_loop sep n (t @ sep # s) = t # strsplit_loop sep (n - 1) s"
  using assms by (subst strsplit_loop.simps) (auto simp: span_sep)

definition loc_join :: "oio_location \<Rightarrow> string \<Rightarrow> oio_location" where
  "loc_join l tok = or (push_bit 16 l) (loc_part tok)"

lemma location_join: "location_from_dotted_string s = foldl loc_join 0 (g_strsplit s (CHR ''.'') 4)"
  by (simp add: location_from_dotted_string_def loc_join_def [abs_def] loc_part_def)

lemma split_four:
  assumes "CHR ''.'' \<notin> set a" "CHR ''.'' \<notin> set b" "CHR ''.'' \<notin> set c"
  shows "g_strsplit (a @ ''.'' @ b @ ''.'' @ c @ ''.'' @ d) (CHR ''.'') 4 = [a, b, c, d]"
  using assms by (simp add: g_strsplit_def strsplit_next strsplit_last)

lemma loc_part_bits: "bit (loc_part tok) i \<Longrightarrow> i < 16"
proof -
  assume "bit (loc_part tok) i"
  then have "bit (0xFFFF :: 64 word) i" by (simp add: loc_part_def bit_and_iff)
  moreover have "(0xFFFF :: 64 word) = mask 16" by (simp add: mask_eq_exp_minus_1)
  ultimately show "i < 16" by (simp add: bit_mask_iff)
qed

text \<open>Locations that fit in so many bits.\<close>

definition fits :: "nat \<Rightarrow> oio_location \<Rightarrow> bool" where
  "fits n l \<longleftrightarrow> (\<forall>i. bit l i \<longrightarrow> i < n)"

lemma fits_part: "16 \<le> n \<Longrightarrow> fits n (loc_part tok)"
  by (auto simp: fits_def dest: loc_part_bits)

lemma fits_join: "fits n l \<Longrightarrow> fits (n + 16) (loc_join l tok)"
  by (auto simp: fits_def loc_join_def bit_or_iff bit_push_bit_iff dest: loc_part_bits)

lemma bit_join:
  "bit (loc_join l tok) i \<longleftrightarrow> (if i < 16 then bit (loc_part tok) i else i < 64 \<and> bit l (i - 16))"
  using loc_part_bits [of tok i] by (auto simp: loc_join_def bit_or_iff bit_push_bit_iff)

lemma drop_join:
  assumes "fits 48 l"
  shows "drop_bit 16 (loc_join l tok) = l"
proof (rule bit_word_eqI)
  fix i
  have "bit l i \<Longrightarrow> i < 48" using assms by (simp add: fits_def)
  then show "bit (drop_bit 16 (loc_join l tok)) i = bit l i"
    by (auto simp: bit_drop_bit_eq bit_join)
qed

lemma join_inject:
  assumes "fits 48 l" "fits 48 l'"
  shows "loc_join l t = loc_join l' t' \<longleftrightarrow> l = l' \<and> loc_part t = loc_part t'"
proof
  assume eq: "loc_join l t = loc_join l' t'"
  then have "l = l'" using drop_join [OF assms(1), of t] drop_join [OF assms(2), of t'] by simp
  moreover have "loc_part t = loc_part t'"
  proof (rule bit_word_eqI)
    fix i
    from eq have "bit (loc_join l t) i = bit (loc_join l' t') i" by simp
    then show "bit (loc_part t) i = bit (loc_part t') i"
      using loc_part_bits [of t i] loc_part_bits [of t' i] by (auto simp: bit_join split: if_splits)
  qed
  ultimately show "l = l' \<and> loc_part t = loc_part t'" by simp
qed (simp add: loc_join_def)

text \<open>The leading parts of a location made of four parts.\<close>

lemma fits_joins: "fits 48 (loc_part a)" "fits 48 (loc_join (loc_part a) b)"
  "fits 48 (loc_join (loc_join (loc_part a) b) c)"
proof -
  have "fits 16 (loc_part a)" by (rule fits_part) simp
  from fits_join [OF this, of b] have ab: "fits 32 (loc_join (loc_part a) b)" by simp
  from fits_join [OF this, of c] show "fits 48 (loc_join (loc_join (loc_part a) b) c)" by simp
  from ab show "fits 48 (loc_join (loc_part a) b)" by (auto simp: fits_def)
  show "fits 48 (loc_part a)" by (rule fits_part) simp
qed

lemma dotted_four:
  assumes "\<forall>t \<in> {a, b, c}. CHR ''.'' \<notin> set t"
    and "l = location_from_dotted_string (a @ ''.'' @ b @ ''.'' @ c @ ''.'' @ d)"
  shows "drop_bit 16 l = loc_join (loc_join (loc_part a) b) c"
    and "drop_bit 32 l = loc_join (loc_part a) b" and "drop_bit 48 l = loc_part a"
proof -
  have "loc_join 0 a = loc_part a" by (simp add: loc_join_def)
  then have l: "l = loc_join (loc_join (loc_join (loc_part a) b) c) d"
    using assms split_four [of a b c d] by (simp add: location_join)
  show 1: "drop_bit 16 l = loc_join (loc_join (loc_part a) b) c"
    by (simp add: l drop_join fits_joins)
  have "drop_bit 32 l = drop_bit 16 (drop_bit 16 l)" by (simp add: drop_bit_drop_bit)
  also have "\<dots> = loc_join (loc_part a) b" unfolding 1 by (simp add: drop_join fits_joins)
  finally show 2: "drop_bit 32 l = loc_join (loc_part a) b" .
  have "drop_bit 48 l = drop_bit 16 (drop_bit 32 l)" by (simp add: drop_bit_drop_bit)
  also have "\<dots> = loc_part a" unfolding 2 by (simp add: drop_join fits_joins)
  finally show "drop_bit 48 l = loc_part a" .
qed

text \<open>
  C25: the distance between two services whose locations have four dotted parts is given by the
  parts that differ, from the left, up to a collision of their hashes on 16 bits.
\<close>

theorem dotted_distance:
  assumes "\<forall>t \<in> {a, b, c, a', b', c'}. CHR ''.'' \<notin> set t"
    and "l = location_from_dotted_string (a @ ''.'' @ b @ ''.'' @ c @ ''.'' @ d)"
    and "l' = location_from_dotted_string (a' @ ''.'' @ b' @ ''.'' @ c' @ ''.'' @ d')"
  shows "(dist_value (oio_location_distance l l') \<le> 3 \<longleftrightarrow> loc_part a = loc_part a') \<and>
     (dist_value (oio_location_distance l l') \<le> 2 \<longleftrightarrow>
        loc_part a = loc_part a' \<and> loc_part b = loc_part b') \<and>
     (dist_value (oio_location_distance l l') \<le> 1 \<longleftrightarrow>
        loc_part a = loc_part a' \<and> loc_part b = loc_part b' \<and> loc_part c = loc_part c')"
proof -
  have "\<forall>t \<in> {a, b, c}. CHR ''.'' \<notin> set t" "\<forall>t \<in> {a', b', c'}. CHR ''.'' \<notin> set t"
    using assms(1) by auto
  note l = dotted_four [OF this(1) assms(2)] and l' = dotted_four [OF this(2) assms(3)]
  from l l' show ?thesis
    by (auto simp: distance_le_iff shared_shift_def join_inject fits_joins)
qed

theorem dotted_distance_witness:
  "dist_value (oio_location_distance (location_from_dotted_string ''dc1.rack1.host1.vol1'')
     (location_from_dotted_string ''dc1.rack1.host2.vol1'')) = 2"
proof -
  have "loc_part ''host1'' \<noteq> loc_part ''host2''" by code_simp
  then have "dist_value (oio_location_distance (location_from_dotted_string ''dc1.rack1.host1.vol1'')
     (location_from_dotted_string ''dc1.rack1.host2.vol1'')) \<le> 2 \<and>
    \<not> dist_value (oio_location_distance (location_from_dotted_string ''dc1.rack1.host1.vol1'')
     (location_from_dotted_string ''dc1.rack1.host2.vol1'')) \<le> 1"
    using dotted_distance [of "''dc1''" "''rack1''" "''host1''" "''dc1''" "''rack1''" "''host2''" _ "''vol1''" _ "''vol1''"]
    by simp
  then show ?thesis by linarith
qed

end
