(* ===== verification/Lb.thy ===== *)
theory Lb
  imports Loc Str
begin

text \<open>
  The world of the load balancer (\<^verbatim>\<open>core/lb.c\<close>): the services, the slots that gather them, the
  searches in a slot, and the operations that feed, sort and purge the slots.  The polling is in
  \<^theory_text>\<open>Lb_Poll\<close>, the pools and their options in \<^theory_text>\<open>Lb_Pool\<close>.

  A service is named by its ID, under which the world stores it; the slots share the services, so
  that they hold IDs.  A \<^verbatim>\<open>GData\<close> of counters is a function from its keys to the counts, the key 0
  being the one the library refuses.  The tree of the slots is the list of its entries in the order
  of their names.  The cache of the addresses, global in the code, is a field of the world; its keys
  are in lower case, as its comparison ignores the case.  The position \<^verbatim>\<open>(guint)-1\<close> is \<open>None\<close>.  Counts, indexes and
  distances are natural numbers: they are bounded by the number of services or by 5.  The weights
  keep their width.
\<close>

section \<open>State\<close>

type_synonym gdata = "guint32 \<Rightarrow> nat"

record lb_item =
  it_location :: oio_location
  it_put_weight :: guint8
  it_get_weight :: guint8
  it_addr :: string
  it_internal_addr :: string
  it_id :: string
  it_tls :: string

record slot_item =
  si_item :: string
  si_acc_weight :: guint32
  si_generation :: guint32

record lb_slot =
  sum_weight :: guint32
  slot_items :: "slot_item list"
  zero_scored_items :: "slot_item list"
  items_by_loc :: "nat \<Rightarrow> gdata"
  locs_by_level :: "nat \<Rightarrow> nat"
  slot_generation :: guint32
  flag_dirty_weights :: bool
  flag_dirty_order :: bool
  flag_zero_scored_dirty_order :: bool
  flag_rehash_on_update :: bool
  jump :: nat

record addr_and_tls =
  at_addr :: string
  at_internal_addr :: string
  at_tls :: string

record lb_world =
  w_slots :: "(string \<times> lb_slot) list"
  w_items :: "string \<Rightarrow> lb_item option"
  service_id_to_addr :: "string \<Rightarrow> addr_and_tls option"
  w_refcount :: "string \<Rightarrow> guint16"
  w_generation :: guint32
  abs_max_dist :: nat

abbreviation (input) OIO_LB_SHUFFLE_JUMP :: nat where "OIO_LB_SHUFFLE_JUMP \<equiv> 2147483647"

definition prime_numbers :: "nat list" where
  "prime_numbers = [524269, 524261, 524257, 2147483629, 2147483587, 2147483579, 2147483563]"

text \<open>The fields of the service a slot points to.\<close>

definition loc_of :: "lb_world \<Rightarrow> slot_item \<Rightarrow> oio_location" where
  "loc_of w si = (case w_items w (si_item si) of Some it \<Rightarrow> it_location it | None \<Rightarrow> 0)"

definition put_weight_of :: "lb_world \<Rightarrow> slot_item \<Rightarrow> guint8" where
  "put_weight_of w si = (case w_items w (si_item si) of Some it \<Rightarrow> it_put_weight it | None \<Rightarrow> 0)"

text \<open>\<^verbatim>\<open>g_tree_lookup\<close> and \<^verbatim>\<open>g_tree_replace\<close> on the slots.\<close>

definition get_slot :: "lb_world \<Rightarrow> string \<Rightarrow> lb_slot option" where
  "get_slot w name = map_of (w_slots w) name"

fun tree_replace :: "string \<Rightarrow> 'a \<Rightarrow> (string \<times> 'a) list \<Rightarrow> (string \<times> 'a) list" where
  "tree_replace k v [] = [(k, v)]"
| "tree_replace k v ((j, u) # t) =
     (if k = j then (k, v) # t else if g_strcmp k j < 0 then (k, v) # (j, u) # t
      else (j, u) # tree_replace k v t)"

definition set_slot :: "string \<Rightarrow> lb_slot \<Rightarrow> lb_world \<Rightarrow> lb_world" where
  "set_slot name slot w = w\<lparr>w_slots := tree_replace name slot (w_slots w)\<rparr>"

section \<open>Addresses of the services\<close>

fun after_char :: "char \<Rightarrow> string \<Rightarrow> string option" where
  "after_char c [] = None"
| "after_char c (x # xs) = (if x = c then Some xs else after_char c xs)"

definition oio_service_id_parse :: "string \<Rightarrow> string option" where
  "oio_service_id_parse service_id =
     Option.bind (after_char (CHR ''|'') service_id) (after_char (CHR ''|''))"

definition oio_service_id_cache_add_addr ::
  "string \<Rightarrow> string \<Rightarrow> string \<Rightarrow> string \<Rightarrow> lb_world \<Rightarrow> lb_world" where
  "oio_service_id_cache_add_addr service_id addr tls internal_addr w =
     (case oio_service_id_parse service_id of
        None \<Rightarrow> w
      | Some k \<Rightarrow> w\<lparr>service_id_to_addr := (service_id_to_addr w)(map ascii_tolower k \<mapsto>
          \<lparr>at_addr = addr, at_internal_addr = internal_addr, at_tls = tls\<rparr>)\<rparr>)"

definition oio_lb_resolve_service_id :: "lb_world \<Rightarrow> string \<Rightarrow> bool \<Rightarrow> string option" where
  "oio_lb_resolve_service_id w service_id upgrade_to_tls =
     (case service_id_to_addr w (map ascii_tolower service_id) of
        None \<Rightarrow> None
      | Some res \<Rightarrow>
          if upgrade_to_tls then (if at_tls res \<noteq> [] then Some (at_tls res) else None)
          else Some (at_addr res))"

definition oio_lb_resolve_internal_service_id :: "lb_world \<Rightarrow> string \<Rightarrow> string option" where
  "oio_lb_resolve_internal_service_id w service_id =
     map_option at_internal_addr (service_id_to_addr w (map ascii_tolower service_id))"

section \<open>Counters by location\<close>

definition gdata_get :: "gdata \<Rightarrow> guint32 \<Rightarrow> nat" where
  "gdata_get d k = (if k = 0 then 0 else d k)"

definition gdata_set :: "gdata \<Rightarrow> guint32 \<Rightarrow> nat \<Rightarrow> gdata" where
  "gdata_set d k v = (if k = 0 then d else d(k := v))"

definition key_from_loc_level :: "oio_location \<Rightarrow> nat \<Rightarrow> guint32" where
  "key_from_loc_level loc level =
     (let key = ucast (drop_bit (level * OIO_LB_BITS_PER_LOC_LEVEL) loc + 1)
      in if level < 2
         then key + ucast (drop_bit (2 * OIO_LB_BITS_PER_LOC_LEVEL) loc * of_nat OIO_LB_SHUFFLE_JUMP)
         else key)"

definition level_datalist_incr_loc :: "(nat \<Rightarrow> gdata) \<Rightarrow> oio_location \<Rightarrow> nat \<Rightarrow> gdata" where
  "level_datalist_incr_loc counters loc =
     (\<lambda>level. if 1 \<le> level \<and> level < OIO_LB_LOC_LEVELS
              then let key = key_from_loc_level loc level
                   in gdata_set (counters level) key (gdata_get (counters level) key + 1)
              else counters level)"

section \<open>Searches\<close>

definition loc_mask :: "oio_loc_proximity_level \<Rightarrow> oio_location \<Rightarrow> oio_location" where
  "loc_mask lvl loc = (case oio_location_mask_after loc lvl of Some m \<Rightarrow> m | None \<Rightarrow> 0)"

text \<open>The arrays are given by the locations, or by the weights, of their elements.\<close>

fun slide_to_first_at_location ::
  "oio_location list \<Rightarrow> oio_location \<Rightarrow> oio_loc_proximity_level \<Rightarrow> nat \<Rightarrow> nat" where
  "slide_to_first_at_location tab needle lvl 0 = 0"
| "slide_to_first_at_location tab needle lvl (Suc i) =
     (if loc_mask lvl needle \<noteq> loc_mask lvl (tab ! i) then Suc i
      else slide_to_first_at_location tab needle lvl i)"

text \<open>The position \<open>start\<close> never exceeds \<open>end_pos\<close>.\<close>

function search_first_at_location ::
  "oio_location list \<Rightarrow> oio_location \<Rightarrow> oio_loc_proximity_level \<Rightarrow> nat \<Rightarrow> nat \<Rightarrow> nat option" where
  "search_first_at_location tab needle lvl start end_pos =
     (if length tab = 0 then None
      else if start \<ge> end_pos
      then (if loc_mask lvl needle \<noteq> loc_mask lvl (tab ! start) then None
            else Some (slide_to_first_at_location tab needle lvl start))
      else let i_pivot = start + (end_pos - start) div 2 in
           if loc_mask lvl needle > loc_mask lvl (tab ! i_pivot)
           then search_first_at_location tab needle lvl (i_pivot + 1) end_pos
           else search_first_at_location tab needle lvl start i_pivot)"
  by pat_completeness auto
termination
  by (relation "measure (\<lambda>(tab, needle, lvl, start, end_pos). end_pos - start)") auto

declare search_first_at_location.simps [simp del]

definition search_all ::
  "oio_location list \<Rightarrow> oio_location \<Rightarrow> oio_loc_proximity_level \<Rightarrow> nat option" where
  "search_all tab needle lvl = search_first_at_location tab needle lvl 0 (length tab - 1)"

function search_closest_weight :: "guint32 list \<Rightarrow> guint32 \<Rightarrow> nat \<Rightarrow> nat \<Rightarrow> nat" where
  "search_closest_weight tab needle start end_pos =
     (if start \<ge> end_pos then end_pos
      else let i_pivot = start + (end_pos - start) div 2; w_pivot = tab ! i_pivot in
           if w_pivot = needle then i_pivot
           else if w_pivot > needle then search_closest_weight tab needle start i_pivot
           else search_closest_weight tab needle (i_pivot + 1) end_pos)"
  by pat_completeness auto
termination
  by (relation "measure (\<lambda>(tab, needle, start, end_pos). end_pos - start)") auto

declare search_closest_weight.simps [simp del]

fun index_of :: "string \<Rightarrow> nat \<Rightarrow> slot_item list \<Rightarrow> nat option" where
  "index_of x i [] = None"
| "index_of x i (si # sis) = (if si_item si = x then Some i else index_of x (i + 1) sis)"

definition find_slot_item :: "lb_world \<Rightarrow> slot_item list \<Rightarrow> bool \<Rightarrow> string \<Rightarrow> nat option" where
  "find_slot_item w items dirty_order item0 =
     (let i0 = (if dirty_order then Some 0
                else if items \<noteq> []
                then (case w_items w item0 of None \<Rightarrow> None
                      | Some it \<Rightarrow> search_all (map (loc_of w) items) (it_location it) OIO_LOC_PROX_VOLUME)
                else None)
      in case i0 of None \<Rightarrow> None | Some i \<Rightarrow> index_of item0 i (drop i items))"

section \<open>Sorting a slot\<close>

definition slot_needs_rehash :: "lb_slot \<Rightarrow> bool" where
  "slot_needs_rehash slot \<longleftrightarrow>
     flag_dirty_order slot \<or> flag_dirty_weights slot \<or> flag_zero_scored_dirty_order slot"

definition loc_counters :: "lb_world \<Rightarrow> slot_item list \<Rightarrow> nat \<Rightarrow> gdata" where
  "loc_counters w items =
     foldl (\<lambda>cs si. level_datalist_incr_loc cs (loc_of w si)) (\<lambda>_ _. 0) items"

text \<open>The number of keys set: they are the keys of the locations of the items, but for 0.\<close>

definition gdatalist_length :: "lb_world \<Rightarrow> slot_item list \<Rightarrow> nat \<Rightarrow> nat" where
  "gdatalist_length w items level =
     length (remdups (filter (\<lambda>k. k \<noteq> 0) (map (\<lambda>si. key_from_loc_level (loc_of w si) level) items)))"

definition rehash_order :: "lb_world \<Rightarrow> lb_slot \<Rightarrow> lb_slot" where
  "rehash_order w slot =
     (let items = sort_key (loc_of w) (slot_items slot)
      in slot\<lparr>flag_dirty_order := False, flag_dirty_weights := True, slot_items := items,
              items_by_loc := loc_counters w items,
              locs_by_level := (\<lambda>level. if 1 \<le> level \<and> level < OIO_LB_LOC_LEVELS
                                        then gdatalist_length w items level
                                        else locs_by_level slot level)\<rparr>)"

fun accumulate :: "lb_world \<Rightarrow> guint32 \<Rightarrow> slot_item list \<Rightarrow> guint32 \<times> slot_item list" where
  "accumulate w acc [] = (acc, [])"
| "accumulate w acc (si # sis) =
     (let s = acc + ucast (put_weight_of w si); (t, rest) = accumulate w s sis
      in (t, si\<lparr>si_acc_weight := s\<rparr> # rest))"

definition rehash_weights :: "lb_world \<Rightarrow> lb_slot \<Rightarrow> lb_slot" where
  "rehash_weights w slot =
     (let (total, items) = accumulate w 0 (slot_items slot)
      in slot\<lparr>flag_dirty_weights := False, slot_items := items, sum_weight := total\<rparr>)"

definition rehash_zero_scored :: "lb_world \<Rightarrow> lb_slot \<Rightarrow> lb_slot" where
  "rehash_zero_scored w slot =
     slot\<lparr>flag_zero_scored_dirty_order := False,
          zero_scored_items := sort_key (loc_of w) (zero_scored_items slot)\<rparr>"

fun find_jump :: "nat \<Rightarrow> nat list \<Rightarrow> nat option" where
  "find_jump len [] = None"
| "find_jump len (p # ps) =
     (let low = len div 3; high = len - low; jump_mod = p mod len
      in if jump_mod \<noteq> 1 \<and> jump_mod \<noteq> len - 1 \<and> jump_mod > low \<and> jump_mod < high
         then Some jump_mod else find_jump len ps)"

definition rehash_jump :: "lb_slot \<Rightarrow> lb_slot" where
  "rehash_jump slot =
     (let len = length (slot_items slot)
      in slot\<lparr>jump := (if len > 0 then case find_jump len prime_numbers of
                         Some j \<Rightarrow> j | None \<Rightarrow> OIO_LB_SHUFFLE_JUMP else OIO_LB_SHUFFLE_JUMP)\<rparr>)"

definition slot_rehash :: "lb_world \<Rightarrow> lb_slot \<Rightarrow> lb_slot" where
  "slot_rehash w slot =
     (let s1 = (if flag_dirty_order slot then rehash_order w slot else slot);
          s2 = (if flag_dirty_weights s1 then rehash_weights w s1 else s1);
          s3 = (if flag_zero_scored_dirty_order s2 then rehash_zero_scored w s2 else s2)
      in rehash_jump s3)"

section \<open>The world\<close>

definition oio_lb_local__create_world :: lb_world where
  "oio_lb_local__create_world =
     \<lparr>w_slots = [], w_items = Map.empty, service_id_to_addr = Map.empty, w_refcount = (\<lambda>_. 0), w_generation = 0, abs_max_dist = 0\<rparr>"

definition oio_lb_world__create_slot :: "string \<Rightarrow> lb_world \<Rightarrow> lb_world" where
  "oio_lb_world__create_slot name w =
     (case get_slot w name of
        Some _ \<Rightarrow> w
      | None \<Rightarrow> set_slot name
          \<lparr>sum_weight = 0, slot_items = [], zero_scored_items = [], items_by_loc = (\<lambda>_ _. 0),
           locs_by_level = (\<lambda>_. 0), slot_generation = 0, flag_dirty_weights = False,
           flag_dirty_order = False, flag_zero_scored_dirty_order = False,
           flag_rehash_on_update = False, jump = OIO_LB_SHUFFLE_JUMP\<rparr> w)"

text \<open>\<^verbatim>\<open>_update_slot_item\<close>: the service the slots share gets the new location.\<close>

definition update_slot_item ::
  "lb_item \<Rightarrow> slot_item \<Rightarrow> lb_world \<Rightarrow> bool \<times> slot_item \<times> lb_world" where
  "update_slot_item updated si w =
     (let si1 = si\<lparr>si_generation := w_generation w\<rparr> in
      case w_items w (si_item si) of
        None \<Rightarrow> (False, si1, w)
      | Some cur \<Rightarrow>
          if it_location cur \<noteq> it_location updated
          then (True, si1, w\<lparr>w_items := (w_items w)(si_item si \<mapsto> cur\<lparr>it_location := it_location updated\<rparr>)\<rparr>)
          else (False, si1, w))"

text \<open>\<^verbatim>\<open>g_array_remove_index_fast\<close>: the last element takes the place of the one removed.\<close>

definition remove_index_fast :: "nat \<Rightarrow> 'a list \<Rightarrow> 'a list" where
  "remove_index_fast i xs = (if i = length xs - 1 then butlast xs else butlast (xs[i := last xs]))"

definition move_to_zero_scored ::
  "lb_item \<Rightarrow> nat \<Rightarrow> lb_slot \<Rightarrow> lb_world \<Rightarrow> lb_slot \<times> lb_world" where
  "move_to_zero_scored updated i slot w =
     (let (_, si, w1) = update_slot_item updated (slot_items slot ! i) w
      in (slot\<lparr>zero_scored_items := zero_scored_items slot @ [si], flag_zero_scored_dirty_order := True,
               slot_items := remove_index_fast i (slot_items slot), flag_dirty_order := True\<rparr>, w1))"

definition move_from_zero_scored ::
  "lb_item \<Rightarrow> nat \<Rightarrow> lb_slot \<Rightarrow> lb_world \<Rightarrow> lb_slot \<times> lb_world" where
  "move_from_zero_scored updated i slot w =
     (let (_, si, w1) = update_slot_item updated (zero_scored_items slot ! i) w
      in (slot\<lparr>slot_items := slot_items slot @ [si], flag_dirty_order := True,
               zero_scored_items := remove_index_fast i (zero_scored_items slot),
               flag_zero_scored_dirty_order := True\<rparr>, w1))"

definition add_new_slot_item :: "string \<Rightarrow> lb_slot \<Rightarrow> lb_world \<Rightarrow> lb_slot \<times> lb_world" where
  "add_new_slot_item item slot w =
     (let w1 = w\<lparr>w_refcount := (w_refcount w)(item := w_refcount w item + 1)\<rparr>;
          fake = \<lparr>si_item = item, si_acc_weight = 0, si_generation = w_generation w\<rparr>
      in if put_weight_of w fake > 0
         then (slot\<lparr>slot_items := slot_items slot @ [fake], flag_dirty_order := True\<rparr>, w1)
         else (slot\<lparr>zero_scored_items := zero_scored_items slot @ [fake],
                    flag_zero_scored_dirty_order := True\<rparr>, w1))"

text \<open>
  The update of a service the world knows: its weights and its addresses (the weight for reading
  only along with the weight for writing), then its place in the slot.  The first result tells
  whether the slot has it.
\<close>

definition update_weights :: "lb_item \<Rightarrow> lb_item \<Rightarrow> lb_slot \<Rightarrow> lb_item \<times> lb_slot" where
  "update_weights item item0 slot =
     (if it_put_weight item0 \<noteq> it_put_weight item
      then (item0\<lparr>it_put_weight := it_put_weight item, it_get_weight := it_get_weight item\<rparr>,
            slot\<lparr>flag_dirty_weights := True\<rparr>)
      else (item0, slot))"

definition store_item :: "lb_item \<Rightarrow> lb_world \<Rightarrow> lb_world" where
  "store_item it w = w\<lparr>w_items := (w_items w)(it_id it \<mapsto> it)\<rparr>"

definition cache_item_addr :: "lb_item \<Rightarrow> lb_world \<Rightarrow> lb_world" where
  "cache_item_addr it w =
     oio_service_id_cache_add_addr (it_id it) (it_addr it) (it_tls it) (it_internal_addr it) w"

definition update_addresses :: "lb_item \<Rightarrow> lb_item \<Rightarrow> lb_world \<Rightarrow> lb_item \<times> lb_world" where
  "update_addresses item item0 w =
     (if it_addr item0 \<noteq> it_addr item \<or> it_internal_addr item0 \<noteq> it_internal_addr item
      then let it1 = item0\<lparr>it_addr := it_addr item, it_internal_addr := it_internal_addr item\<rparr>
           in (it1, cache_item_addr it1 w)
      else (item0, w))"

definition feed_known :: "lb_item \<Rightarrow> lb_item \<Rightarrow> lb_slot \<Rightarrow> lb_world \<Rightarrow> bool \<times> lb_slot \<times> lb_world" where
  "feed_known item item0 slot w =
     (let (it1, slot1) = update_weights item item0 slot;
          (it2, w0) = update_addresses item it1 w;
          w1 = store_item it2 w0
      in case find_slot_item w1 (slot_items slot1) (flag_dirty_order slot1) (it_id item0) of
           Some i \<Rightarrow>
             if it_put_weight it2 > 0
             then (let (moved, si, w2) = update_slot_item item (slot_items slot1 ! i) w1;
                       slot2 = slot1\<lparr>slot_items := (slot_items slot1)[i := si]\<rparr>
                   in (True, if moved then slot2\<lparr>flag_dirty_order := True\<rparr> else slot2, w2))
             else (let (slot2, w2) = move_to_zero_scored item i slot1 w1 in (True, slot2, w2))
         | None \<Rightarrow>
             (case find_slot_item w1 (zero_scored_items slot1) (flag_zero_scored_dirty_order slot1)
                     (it_id item0) of
                Some i \<Rightarrow>
                  if it_put_weight it2 > 0
                  then (let (slot2, w2) = move_from_zero_scored item i slot1 w1 in (True, slot2, w2))
                  else (let (moved, si, w2) = update_slot_item item (zero_scored_items slot1 ! i) w1;
                            slot2 = slot1\<lparr>zero_scored_items := (zero_scored_items slot1)[i := si]\<rparr>
                        in (True, if moved then slot2\<lparr>flag_zero_scored_dirty_order := True\<rparr> else slot2, w2))
              | None \<Rightarrow> (False, slot1, w1)))"

definition location_max_dist :: "oio_location \<Rightarrow> nat" where
  "location_max_dist loc =
     (let n_bits = 64 - clz (if loc \<noteq> 0 then loc else 1)
      in 1 + (n_bits - 1) div OIO_LB_BITS_PER_LOC_LEVEL)"

definition feed_slot_unlocked :: "lb_item \<Rightarrow> lb_slot \<Rightarrow> lb_world \<Rightarrow> lb_slot \<times> lb_world" where
  "feed_slot_unlocked item slot w =
     (let slot0 = slot\<lparr>slot_generation := w_generation w\<rparr>;
          (found, slot1, w1) =
            (case w_items w (it_id item) of
               None \<Rightarrow> (False, slot0, cache_item_addr item (store_item item
                         (w\<lparr>w_refcount := (w_refcount w)(it_id item := 0)\<rparr>)))
             | Some item0 \<Rightarrow> feed_known item item0 slot0 w);
          (slot2, w2) = (if found then (slot1, w1) else add_new_slot_item (it_id item) slot1 w1);
          slot3 = (if flag_rehash_on_update slot2 \<and> slot_needs_rehash slot2
                   then slot_rehash w2 slot2 else slot2);
          d = location_max_dist (it_location item)
      in (slot3, if abs_max_dist w2 < d then w2\<lparr>abs_max_dist := d\<rparr> else w2))"

definition oio_lb_world__feed_slot :: "string \<Rightarrow> lb_item \<Rightarrow> lb_world \<Rightarrow> lb_world" where
  "oio_lb_world__feed_slot name item w =
     (case get_slot w name of
        None \<Rightarrow> w
      | Some slot \<Rightarrow> let (slot1, w1) = feed_slot_unlocked item slot w in set_slot name slot1 w1)"

fun feed_list :: "lb_item list \<Rightarrow> lb_slot \<Rightarrow> lb_world \<Rightarrow> lb_slot \<times> lb_world" where
  "feed_list [] slot w = (slot, w)"
| "feed_list (item # items) slot w =
     (let (slot1, w1) = feed_slot_unlocked item slot w in feed_list items slot1 w1)"

definition oio_lb_world__feed_slot_with_list :: "string \<Rightarrow> lb_item list \<Rightarrow> lb_world \<Rightarrow> lb_world" where
  "oio_lb_world__feed_slot_with_list name items w =
     (case get_slot w name of
        None \<Rightarrow> w
      | Some slot \<Rightarrow>
          let (slot1, w1) = feed_list items slot w in set_slot name (slot_rehash w1 slot1) w1)"

definition oio_lb_world__increment_generation :: "lb_world \<Rightarrow> lb_world" where
  "oio_lb_world__increment_generation w = w\<lparr>w_generation := w_generation w + 1\<rparr>"

definition absolute_delta :: "guint32 \<Rightarrow> guint32 \<Rightarrow> guint32" where
  "absolute_delta u0 u1 = min (u1 - u0) (u0 - u1)"

text \<open>The loop of \<^verbatim>\<open>_purge_slot_items\<close>: an element removed is replaced, so that its place is seen again.\<close>

function purge_slot_items ::
  "nat \<Rightarrow> guint32 \<Rightarrow> guint32 \<Rightarrow> slot_item list \<Rightarrow> (string \<Rightarrow> guint16)
     \<Rightarrow> slot_item list \<times> (string \<Rightarrow> guint16)" where
  "purge_slot_items i gen age items refs =
     (if i < length items
      then (if absolute_delta (si_generation (items ! i)) gen > age
            then (let x = si_item (items ! i)
                  in purge_slot_items i gen age (remove_index_fast i items) (refs(x := refs x - 1)))
            else purge_slot_items (i + 1) gen age items refs)
      else (items, refs))"
  by pat_completeness auto
termination
  by (relation "measure (\<lambda>(i, gen, age, items, refs). length items - i)")
    (auto simp: remove_index_fast_def)

declare purge_slot_items.simps [simp del]

definition purge_slot :: "guint32 \<Rightarrow> lb_slot \<Rightarrow> lb_world \<Rightarrow> lb_slot \<times> lb_world" where
  "purge_slot age slot w =
     (let (items, r1) = purge_slot_items 0 (w_generation w) age (slot_items slot) (w_refcount w);
          slot1 = (if length items \<noteq> length (slot_items slot)
                   then slot\<lparr>slot_items := items, flag_dirty_weights := True, flag_dirty_order := True\<rparr>
                   else slot);
          (zeros, r2) = purge_slot_items 0 (w_generation w) age (zero_scored_items slot) r1;
          slot2 = (if length zeros \<noteq> length (zero_scored_items slot)
                   then slot1\<lparr>zero_scored_items := zeros, flag_zero_scored_dirty_order := True\<rparr>
                   else slot1);
          w1 = w\<lparr>w_refcount := r2\<rparr>
      in (if slot_needs_rehash slot2 then slot_rehash w1 slot2 else slot2, w1))"

text \<open>The walks over the tree of the slots.\<close>

fun purge_slots_inside ::
  "guint32 \<Rightarrow> (string \<times> lb_slot) list \<Rightarrow> lb_world \<Rightarrow> (string \<times> lb_slot) list \<times> lb_world" where
  "purge_slots_inside age [] w = ([], w)"
| "purge_slots_inside age ((name, slot) # slots) w =
     (let (slot1, w1) = purge_slot age slot w; (rest, w2) = purge_slots_inside age slots w1
      in ((name, slot1) # rest, w2))"

definition world_purge_slot_items :: "guint32 \<Rightarrow> lb_world \<Rightarrow> lb_world" where
  "world_purge_slot_items age w =
     (let (slots, w1) = purge_slots_inside age (w_slots w) w in w1\<lparr>w_slots := slots\<rparr>)"

definition slot_items_flush :: "slot_item list \<Rightarrow> (string \<Rightarrow> guint16) \<Rightarrow> string \<Rightarrow> guint16" where
  "slot_items_flush items refs = foldl (\<lambda>r si. r(si_item si := r (si_item si) - 1)) refs items"

definition slot_flush :: "lb_slot \<Rightarrow> (string \<Rightarrow> guint16) \<Rightarrow> lb_slot \<times> (string \<Rightarrow> guint16)" where
  "slot_flush slot refs =
     (slot\<lparr>slot_items := [], zero_scored_items := []\<rparr>,
      slot_items_flush (zero_scored_items slot) (slot_items_flush (slot_items slot) refs))"

fun purge_slots_loop ::
  "guint32 \<Rightarrow> guint32 \<Rightarrow> (string \<times> lb_slot) list \<Rightarrow> (string \<Rightarrow> guint16)
     \<Rightarrow> (string \<times> lb_slot) list \<times> (string \<Rightarrow> guint16)" where
  "purge_slots_loop gen age [] refs = ([], refs)"
| "purge_slots_loop gen age ((name, slot) # slots) refs =
     (if absolute_delta (slot_generation slot) gen > age
      then purge_slots_loop gen age slots (snd (slot_flush slot refs))
      else let (rest, r) = purge_slots_loop gen age slots refs in ((name, slot) # rest, r))"

definition world_purge_slots :: "guint32 \<Rightarrow> lb_world \<Rightarrow> lb_world" where
  "world_purge_slots age w =
     (let (slots, refs) = purge_slots_loop (w_generation w) age (w_slots w) (w_refcount w)
      in w\<lparr>w_slots := slots, w_refcount := refs\<rparr>)"

definition oio_lb_world__purge_old_generations :: "lb_world \<Rightarrow> lb_world" where
  "oio_lb_world__purge_old_generations w = world_purge_slots 0 (world_purge_slot_items 0 w)"

definition oio_lb_world__rehash_all_slots :: "lb_world \<Rightarrow> lb_world" where
  "oio_lb_world__rehash_all_slots w =
     w\<lparr>w_slots := map (\<lambda>(name, slot). (name, if slot_needs_rehash slot then slot_rehash w slot else slot))
                    (w_slots w)\<rparr>"

text \<open>\<^verbatim>\<open>oio_lb_world__flush\<close>: the slots stay, empty.\<close>

fun flush_slots ::
  "(string \<times> lb_slot) list \<Rightarrow> (string \<Rightarrow> guint16) \<Rightarrow> (string \<times> lb_slot) list \<times> (string \<Rightarrow> guint16)" where
  "flush_slots [] refs = ([], refs)"
| "flush_slots ((name, slot) # slots) refs =
     (let (slot1, r1) = slot_flush slot refs; (rest, r2) = flush_slots slots r1
      in ((name, slot1) # rest, r2))"

definition oio_lb_world__flush :: "lb_world \<Rightarrow> lb_world" where
  "oio_lb_world__flush w =
     (let (slots, refs) = flush_slots (w_slots w) (w_refcount w)
      in w\<lparr>w_slots := slots, w_refcount := refs, w_items := Map.empty,
           service_id_to_addr := Map.empty\<rparr>)"

definition oio_lb_world__get_item :: "lb_world \<Rightarrow> string \<Rightarrow> lb_item option" where
  "oio_lb_world__get_item w ident =
     map_option (\<lambda>it0. it0\<lparr>it_id := ident, it_tls := []\<rparr>) (w_items w ident)"

definition oio_lb_world__count_slots :: "lb_world \<Rightarrow> nat" where
  "oio_lb_world__count_slots w = length (w_slots w)"

definition oio_lb_world__count_slot_items :: "lb_world \<Rightarrow> string \<Rightarrow> nat" where
  "oio_lb_world__count_slot_items w name =
     (case get_slot w name of None \<Rightarrow> 0 | Some slot \<Rightarrow> length (slot_items slot))"

end
