(* ===== verification/Lb_Poll.thy ===== *)
theory Lb_Poll
  imports Lb
begin

text \<open>
  The polling of services (\<^verbatim>\<open>core/lb.c\<close>): the checks of distance and popularity, the weighted and
  the shuffled lookups in a slot, the targets of a pool, and the completion of a set of known
  services.

  A target is the list of the names of its slots, in the order of preference.  A NULL-terminated
  array of locations is a list that ends at its first 0, or \<open>None\<close> for NULL.  The environment gives
  the configuration, the random draws (by their rank and their bound) and what the processor
  answers to a shift by 64 bits or more, which the language leaves undefined.
\<close>

section \<open>State\<close>

record lb_env =
  allow_distance_bypass :: bool
  weighted_random_attempts :: nat
  try_fair_constraints_first :: bool
  rand_int_range :: "nat \<Rightarrow> nat \<Rightarrow> nat"
  wide_shift :: "oio_location \<Rightarrow> nat \<Rightarrow> oio_location"

type_synonym target = "string list"

record lb_pool =
  p_name :: string
  p_targets :: "target list"
  initial_dist :: nat
  warn_dist :: nat
  min_dist :: nat
  strict_max_items :: "guint8 list"
  fair_max_items :: "guint8 list"

record lb_selected =
  sel_item :: "lb_item option"
  expected_slot :: string
  final_slot :: string
  sel_expected_dist :: nat
  final_dist :: nat
  sel_warn_dist :: nat
  cur_items_by_level :: "guint8 list"
  max_items_by_level :: "guint8 list"
  warn_items_by_level :: "guint8 list"
  sel_flawed :: bool

record polling_ctx =
  c_avoids :: "oio_location list option"
  c_polled :: "oio_location list"
  c_next_polled :: nat
  c_n_targets :: nat
  c_counters :: "nat \<Rightarrow> gdata"
  c_selection :: "lb_selected list"
  c_force_fair :: bool
  c_adjacent_mode :: bool
  c_check_distance :: bool
  c_max_dist :: nat
  c_min_dist :: nat
  c_strict_max_items :: "guint8 list"
  c_fair_max_items :: "guint8 list"
  c_draws :: nat

section \<open>Distances\<close>

definition dist_to_bit_shift :: "nat \<Rightarrow> bool \<Rightarrow> nat" where
  "dist_to_bit_shift dist nearby_mode =
     (dist - (if nearby_mode then 0 else 1)) * OIO_LB_BITS_PER_LOC_LEVEL"

definition shift_right :: "lb_env \<Rightarrow> oio_location \<Rightarrow> nat \<Rightarrow> oio_location" where
  "shift_right e loc n = (if n < 64 then drop_bit n loc else wide_shift e loc n)"

fun close_loop :: "lb_env \<Rightarrow> nat \<Rightarrow> oio_location \<Rightarrow> oio_location list \<Rightarrow> bool" where
  "close_loop e n loc [] = False"
| "close_loop e n loc (p # ps) =
     (if p = 0 then False else if loc = shift_right e p n then True else close_loop e n loc ps)"

definition item_is_too_close :: "lb_env \<Rightarrow> oio_location list option \<Rightarrow> oio_location \<Rightarrow> nat \<Rightarrow> bool" where
  "item_is_too_close e avoids item distance =
     (case avoids of
        None \<Rightarrow> False
      | Some ps \<Rightarrow>
          if distance = 0 then False
          else let n = dist_to_bit_shift distance False in close_loop e n (shift_right e item n) ps)"

fun far_loop :: "lb_env \<Rightarrow> nat \<Rightarrow> oio_location \<Rightarrow> oio_location list \<Rightarrow> bool" where
  "far_loop e n loc [] = False"
| "far_loop e n loc (p # ps) =
     (if p = 0 then False else if loc \<noteq> shift_right e p n then True else far_loop e n loc ps)"

definition item_is_too_far :: "lb_env \<Rightarrow> oio_location list option \<Rightarrow> oio_location \<Rightarrow> nat \<Rightarrow> bool" where
  "item_is_too_far e known item distance =
     (case known of
        None \<Rightarrow> False
      | Some ps \<Rightarrow>
          if distance > OIO_LB_LOC_LEVELS then False
          else let n = dist_to_bit_shift distance True in far_loop e n (shift_right e item n) ps)"

fun find_min_dist :: "lb_env \<Rightarrow> oio_location list \<Rightarrow> oio_location \<Rightarrow> nat \<Rightarrow> nat" where
  "find_min_dist e known item 0 = 0"
| "find_min_dist e known item (Suc d) =
     (if item_is_too_close e (Some known) item (Suc d) then find_min_dist e known item d else Suc d)"

section \<open>Popularity\<close>

text \<open>
  One level of \<^verbatim>\<open>_item_is_too_popular\<close>: how often the location was chosen, and how often it may be.
\<close>

definition level_leafs :: "lb_slot \<Rightarrow> guint32 \<Rightarrow> nat \<Rightarrow> nat" where
  "level_leafs slot key level =
     (let n_leafs = gdata_get (items_by_loc slot level) key
      in if n_leafs = 0 then 1
         else if n_leafs > length (slot_items slot) then length (slot_items slot) else n_leafs)"

definition level_max :: "polling_ctx \<Rightarrow> lb_slot \<Rightarrow> guint32 \<Rightarrow> nat \<Rightarrow> nat" where
  "level_max ctx slot key level =
     (let m = unat ((if c_force_fair ctx then c_fair_max_items ctx else c_strict_max_items ctx) ! level)
      in if m = 0
         then 1 + (c_n_targets ctx - 1) div (length (slot_items slot) div level_leafs slot key level)
         else m)"

fun popular_loop ::
  "polling_ctx \<Rightarrow> lb_slot \<Rightarrow> oio_location \<Rightarrow> nat list \<Rightarrow> guint8 list \<Rightarrow> guint8 list
     \<Rightarrow> bool \<times> guint8 list \<times> guint8 list" where
  "popular_loop ctx slot item [] pops maxs = (False, pops, maxs)"
| "popular_loop ctx slot item (level # levels) pops maxs =
     (let key = key_from_loc_level item level;
          popularity = gdata_get (c_counters ctx level) key;
          mx = level_max ctx slot key level;
          pops1 = pops[level := of_nat (min popularity 255)];
          maxs1 = maxs[level := of_nat (min mx 255)]
      in if popularity \<ge> mx then (True, pops1, maxs1)
         else popular_loop ctx slot item levels pops1 maxs1)"

definition item_is_too_popular ::
  "polling_ctx \<Rightarrow> oio_location \<Rightarrow> lb_slot \<Rightarrow> guint8 list \<Rightarrow> guint8 list
     \<Rightarrow> bool \<times> guint8 list \<times> guint8 list" where
  "item_is_too_popular ctx item slot pops maxs =
     popular_loop ctx slot item [1, 2, 3] pops (maxs[0 := 1])"

section \<open>Selecting a service\<close>

definition item_select :: "lb_item option \<Rightarrow> lb_selected" where
  "item_select src =
     \<lparr>sel_item = map_option (\<lambda>it. it\<lparr>it_tls := []\<rparr>) src, expected_slot = [], final_slot = [],
      sel_expected_dist = 0, final_dist = 0, sel_warn_dist = 0,
      cur_items_by_level = [0, 0, 0, 0], max_items_by_level = [0, 0, 0, 0],
      warn_items_by_level = [0, 0, 0, 0], sel_flawed = False\<rparr>"

text \<open>The service being accepted counts at every level.\<close>

definition count_accepted :: "polling_ctx \<Rightarrow> guint8 list \<Rightarrow> guint8 list \<Rightarrow> lb_selected \<Rightarrow> lb_selected" where
  "count_accepted ctx pops maxs sel =
     (let cur = map (\<lambda>c. c + 1) pops; warn = c_fair_max_items ctx
      in sel\<lparr>cur_items_by_level := cur, max_items_by_level := maxs, warn_items_by_level := warn,
             sel_flawed := (sel_flawed sel \<or>
               list_ex (\<lambda>level. warn ! level \<noteq> 0 \<and> cur ! level > warn ! level) [0, 1, 2, 3])\<rparr>)"

definition accept_item ::
  "lb_env \<Rightarrow> lb_world \<Rightarrow> lb_slot \<Rightarrow> nat \<Rightarrow> polling_ctx \<Rightarrow> nat \<Rightarrow> (lb_selected \<times> polling_ctx) option" where
  "accept_item e w slot distance ctx i =
     (let loc = loc_of w (slot_items slot ! i) in
      if item_is_too_close e (c_avoids ctx) loc 1 then None
      else if c_adjacent_mode ctx \<and> item_is_too_far e (c_avoids ctx) loc distance then None
      else if item_is_too_close e (Some (c_polled ctx)) loc (if c_check_distance ctx then distance else 1)
      then None
      else let (popular, pops, maxs) = item_is_too_popular ctx loc slot [0, 0, 0, 0] [0, 0, 0, 0] in
        if popular then None
        else let sel = count_accepted ctx pops maxs
                         (item_select (w_items w (si_item (slot_items slot ! i))));
                 sel1 = sel\<lparr>final_dist := (if c_check_distance ctx then distance
                                           else find_min_dist e (c_polled ctx) loc (c_max_dist ctx))\<rparr>
             in Some (sel1, ctx\<lparr>c_polled := (c_polled ctx)[c_next_polled ctx := loc],
                                c_counters := level_datalist_incr_loc (c_counters ctx) loc\<rparr>))"

section \<open>Polling a slot\<close>

fun random_attempts ::
  "lb_env \<Rightarrow> lb_world \<Rightarrow> lb_slot \<Rightarrow> nat \<Rightarrow> nat \<Rightarrow> nat \<Rightarrow> polling_ctx
     \<Rightarrow> (lb_selected option \<times> polling_ctx) \<times> nat" where
  "random_attempts e w slot distance 0 i ctx = ((None, ctx), i)"
| "random_attempts e w slot distance (Suc n) i ctx =
     (let random_weight = rand_int_range e (c_draws ctx) (unat (sum_weight slot));
          j = search_closest_weight (map si_acc_weight (slot_items slot)) (of_nat random_weight)
                0 (length (slot_items slot) - 1);
          ctx1 = ctx\<lparr>c_draws := c_draws ctx + 1\<rparr>
      in case accept_item e w slot distance ctx1 j of
           Some (sel, ctx2) \<Rightarrow> ((Some sel, ctx2), j)
         | None \<Rightarrow> random_attempts e w slot distance n j ctx1)"

fun shuffled_lookup ::
  "lb_env \<Rightarrow> lb_world \<Rightarrow> lb_slot \<Rightarrow> nat \<Rightarrow> nat \<Rightarrow> nat \<Rightarrow> polling_ctx \<Rightarrow> lb_selected option \<times> polling_ctx" where
  "shuffled_lookup e w slot distance 0 i ctx = (None, ctx)"
| "shuffled_lookup e w slot distance (Suc n) i ctx =
     (let j = (i + jump slot) mod length (slot_items slot)
      in case accept_item e w slot distance ctx j of
           Some (sel, ctx1) \<Rightarrow> (Some sel, ctx1)
         | None \<Rightarrow> shuffled_lookup e w slot distance n j ctx)"

definition slackened_distance :: "lb_env \<Rightarrow> lb_slot \<Rightarrow> nat \<Rightarrow> polling_ctx \<Rightarrow> nat \<Rightarrow> nat" where
  "slackened_distance e slot distance ctx n_targets =
     (if allow_distance_bypass e \<and> c_check_distance ctx \<and> distance > 1
         \<and> n_targets > locs_by_level slot (distance - 1)
      then max (distance - 1) (c_min_dist ctx) else distance)"

definition local_slot__poll ::
  "lb_env \<Rightarrow> lb_world \<Rightarrow> lb_slot \<Rightarrow> nat \<Rightarrow> polling_ctx \<Rightarrow> nat \<Rightarrow> lb_selected option \<times> polling_ctx" where
  "local_slot__poll e w slot distance ctx n_targets =
     (if slot_items slot = [] then (None, ctx)
      else if sum_weight slot = 0 then (None, ctx)
      else let d = slackened_distance e slot distance ctx n_targets in
        case random_attempts e w slot d (weighted_random_attempts e) 0 ctx of
          ((Some sel, ctx1), _) \<Rightarrow> (Some sel, ctx1)
        | ((None, ctx1), i) \<Rightarrow>
            shuffled_lookup e w slot d (length (slot_items slot)) i ctx1)"

section \<open>Polling a target\<close>

definition count_similar_target_slots :: "lb_pool \<Rightarrow> target \<Rightarrow> nat" where
  "count_similar_target_slots lb target =
     length (filter (\<lambda>t. hd t = hd target) (p_targets lb))"

fun target_poll_loop ::
  "lb_env \<Rightarrow> lb_world \<Rightarrow> target \<Rightarrow> nat \<Rightarrow> nat \<Rightarrow> target \<Rightarrow> bool \<Rightarrow> polling_ctx
     \<Rightarrow> lb_selected option \<times> polling_ctx" where
  "target_poll_loop e w target distance n_targets [] fallback ctx = (None, ctx)"
| "target_poll_loop e w target distance n_targets (name # names) fallback ctx =
     (if name = [] then (None, ctx)
      else case get_slot w name of
        None \<Rightarrow> target_poll_loop e w target distance n_targets names True ctx
      | Some slot \<Rightarrow>
          (case local_slot__poll e w slot distance ctx n_targets of
             (Some sel, ctx1) \<Rightarrow>
               (Some (sel\<lparr>expected_slot := hd target, final_slot := name,
                          sel_flawed := (sel_flawed sel \<or> fallback)\<rparr>), ctx1)
           | (None, ctx1) \<Rightarrow> target_poll_loop e w target distance n_targets names True ctx1))"

definition local_target__poll ::
  "lb_env \<Rightarrow> lb_world \<Rightarrow> lb_pool \<Rightarrow> target \<Rightarrow> nat \<Rightarrow> polling_ctx \<Rightarrow> lb_selected option \<times> polling_ctx" where
  "local_target__poll e w lb target distance ctx =
     target_poll_loop e w target distance (count_similar_target_slots lb target) target False ctx"

section \<open>Known services\<close>

text \<open>
  The loop over the known locations from \<open>next_polled\<close> on: the position of the first that is in the
  slot.
\<close>

definition slot_has_location :: "lb_world \<Rightarrow> lb_slot \<Rightarrow> bool \<Rightarrow> oio_location \<Rightarrow> bool" where
  "slot_has_location w slot strict known \<longleftrightarrow>
     search_all (map (loc_of w) (slot_items slot)) known OIO_LOC_PROX_VOLUME \<noteq> None \<or>
     strict \<and> search_all (map (loc_of w) (zero_scored_items slot)) known OIO_LOC_PROX_VOLUME \<noteq> None"

fun known_loop :: "lb_world \<Rightarrow> lb_slot \<Rightarrow> bool \<Rightarrow> nat \<Rightarrow> oio_location list \<Rightarrow> nat option" where
  "known_loop w slot strict i [] = None"
| "known_loop w slot strict i (k # ks) =
     (if k = 0 then None
      else if slot_has_location w slot strict k then Some i
      else known_loop w slot strict (i + 1) ks)"

definition swap_at :: "nat \<Rightarrow> nat \<Rightarrow> 'a list \<Rightarrow> 'a list" where
  "swap_at i j xs = (if i = j then xs else xs[i := xs ! j, j := xs ! i])"

fun satisfied_loop ::
  "lb_world \<Rightarrow> target \<Rightarrow> bool \<Rightarrow> target \<Rightarrow> polling_ctx \<Rightarrow> lb_selected option \<times> polling_ctx" where
  "satisfied_loop w target strict [] ctx = (None, ctx)"
| "satisfied_loop w target strict (name # names) ctx =
     (if name = [] then (None, ctx)
      else case get_slot w name of
        None \<Rightarrow> satisfied_loop w target strict names ctx
      | Some slot \<Rightarrow>
          (case known_loop w slot strict (c_next_polled ctx) (drop (c_next_polled ctx) (c_polled ctx)) of
             Some i \<Rightarrow>
               (Some ((item_select None)\<lparr>expected_slot := hd target, final_slot := name\<rparr>),
                ctx\<lparr>c_polled := swap_at (c_next_polled ctx) i (c_polled ctx)\<rparr>)
           | None \<Rightarrow> if strict then (None, ctx) else satisfied_loop w target strict names ctx))"

definition OIO_LB_JOKER_SVC_TARGET :: string where
  "OIO_LB_JOKER_SVC_TARGET = ''__any_slot''"

definition local_target__is_satisfied ::
  "lb_world \<Rightarrow> target \<Rightarrow> bool \<Rightarrow> polling_ctx \<Rightarrow> lb_selected option \<times> polling_ctx" where
  "local_target__is_satisfied w target strict ctx =
     (if c_polled ctx ! c_next_polled ctx = 0 then (None, ctx)
      else if hd target = OIO_LB_JOKER_SVC_TARGET
      then (Some ((item_select None)\<lparr>expected_slot := hd target\<rparr>), ctx)
      else satisfied_loop w target strict target ctx)"

definition push_selected :: "lb_selected \<Rightarrow> polling_ctx \<Rightarrow> polling_ctx" where
  "push_selected sel ctx =
     ctx\<lparr>c_next_polled := c_next_polled ctx + 1, c_selection := c_selection ctx @ [sel]\<rparr>"

fun match_known_services_with_targets ::
  "lb_world \<Rightarrow> target list \<Rightarrow> polling_ctx \<Rightarrow> target list \<times> polling_ctx" where
  "match_known_services_with_targets w [] ctx = ([], ctx)"
| "match_known_services_with_targets w (t # ts) ctx =
     (case local_target__is_satisfied w t True ctx of
        (Some sel, ctx1) \<Rightarrow> match_known_services_with_targets w ts (push_selected sel ctx1)
      | (None, ctx1) \<Rightarrow>
          let (unmatched, ctx2) = match_known_services_with_targets w ts ctx1 in (t # unmatched, ctx2))"

section \<open>Completing a set of services\<close>

text \<open>The loop over the distances, from \<open>dist\<close> down to the least one.\<close>

fun dist_loop ::
  "lb_env \<Rightarrow> lb_world \<Rightarrow> lb_pool \<Rightarrow> target \<Rightarrow> nat \<Rightarrow> polling_ctx \<Rightarrow> lb_selected option \<times> polling_ctx" where
  "dist_loop e w lb target 0 ctx = (None, ctx)"
| "dist_loop e w lb target (Suc d) ctx =
     (if Suc d < min_dist lb then (None, ctx)
      else case local_target__poll e w lb target (Suc d) ctx of
        (Some sel, ctx1) \<Rightarrow> (Some sel, ctx1)
      | (None, ctx1) \<Rightarrow> dist_loop e w lb target d ctx1)"

fun patch_loop ::
  "lb_env \<Rightarrow> lb_world \<Rightarrow> lb_pool \<Rightarrow> target list \<Rightarrow> polling_ctx \<Rightarrow> gerror \<times> polling_ctx" where
  "patch_loop e w lb [] ctx = (None, ctx)"
| "patch_loop e w lb (t # ts) ctx =
     (case local_target__is_satisfied w t False ctx of
        (Some sel, ctx1) \<Rightarrow> patch_loop e w lb ts (push_selected sel ctx1)
      | (None, ctx1) \<Rightarrow>
          (case dist_loop e w lb t (c_max_dist ctx1) ctx1 of
             (Some sel, ctx2) \<Rightarrow> patch_loop e w lb ts (push_selected sel ctx2)
           | (None, ctx2) \<Rightarrow> (Some CODE_POLICY_NOT_SATISFIABLE, ctx2)))"

definition set_dists :: "lb_env \<Rightarrow> lb_pool \<Rightarrow> polling_ctx \<Rightarrow> nat \<Rightarrow> lb_selected \<Rightarrow> lb_selected" where
  "set_dists e lb ctx cur sel =
     (let sel1 = sel\<lparr>sel_expected_dist := c_max_dist ctx, sel_warn_dist := warn_dist lb\<rparr> in
      case sel_item sel of
        None \<Rightarrow> sel1
      | Some it \<Rightarrow>
          let d = find_min_dist e ((c_polled ctx)[cur := - 1]) (it_location it) (c_max_dist ctx)
          in sel1\<lparr>final_dist := d, sel_flawed := (sel_flawed sel1 \<or> d \<le> warn_dist lb)\<rparr>)"

definition polling_ctx_init ::
  "lb_world \<Rightarrow> lb_pool \<Rightarrow> oio_location list option \<Rightarrow> oio_location list \<Rightarrow> bool \<Rightarrow> bool \<Rightarrow> nat \<Rightarrow> polling_ctx" where
  "polling_ctx_init w lb avoids known force_fair adjacent draws =
     (let n = length (p_targets lb); polled = known @ replicate (n + 1 - length known) 0
      in \<lparr>c_avoids = avoids, c_polled = polled, c_next_polled = 0, c_n_targets = n,
          c_counters = foldl level_datalist_incr_loc (\<lambda>_ _. 0) (takeWhile (\<lambda>l. l \<noteq> 0) polled),
          c_selection = [], c_force_fair = force_fair, c_adjacent_mode = adjacent,
          c_check_distance = True, c_max_dist = min (abs_max_dist w) (initial_dist lb),
          c_min_dist = min_dist lb, c_strict_max_items = strict_max_items lb,
          c_fair_max_items = fair_max_items lb, c_draws = draws\<rparr>)"

record patch_result =
  pr_err :: gerror
  pr_flawed :: bool
  pr_items :: "lb_selected list"
  pr_draws :: nat

text \<open>
  \<^verbatim>\<open>__local__patch\<close>; \<open>pr_items\<close> are the services given to the hook.
\<close>

definition local__patch_once ::
  "lb_env \<Rightarrow> lb_world \<Rightarrow> lb_pool \<Rightarrow> oio_location list option \<Rightarrow> oio_location list option \<Rightarrow> bool \<Rightarrow> bool \<Rightarrow> nat
     \<Rightarrow> patch_result" where
  "local__patch_once e w lb avoids known force_fair adjacent draws =
     (let n = length (p_targets lb);
          ks = (case known of None \<Rightarrow> [] | Some k \<Rightarrow> takeWhile (\<lambda>l. l \<noteq> 0) k)
      in if length ks \<ge> n
         then \<lparr>pr_err = Some CODE_BAD_REQUEST, pr_flawed = False, pr_items = [], pr_draws = draws\<rparr>
         else let ctx0 = polling_ctx_init w lb avoids ks force_fair adjacent draws;
                  (unmatched, ctx1) = match_known_services_with_targets w (p_targets lb) ctx0;
                  (err, ctx2) = patch_loop e w lb unmatched ctx1;
                  sels = map (\<lambda>(i, sel). set_dists e lb ctx2 i sel)
                           (zip [0..<length (c_selection ctx2)] (c_selection ctx2))
              in \<lparr>pr_err = err, pr_flawed = (err = None \<and> list_ex sel_flawed sels),
                  pr_items = (if err = None then filter (\<lambda>s. sel_item s \<noteq> None) sels else []),
                  pr_draws = c_draws ctx2\<rparr>)"

definition local__patch ::
  "lb_env \<Rightarrow> lb_world \<Rightarrow> lb_pool \<Rightarrow> oio_location list option \<Rightarrow> oio_location list option \<Rightarrow> bool \<Rightarrow> bool \<Rightarrow> nat
     \<Rightarrow> patch_result" where
  "local__patch e w lb avoids known force_fair adjacent draws =
     (if try_fair_constraints_first e \<and> \<not> force_fair \<and> fair_max_items lb ! 0 \<noteq> 0
      then let r = local__patch_once e w lb avoids known True adjacent draws
           in if pr_err r = None then r
              else local__patch_once e w lb avoids known force_fair adjacent (pr_draws r)
      else local__patch_once e w lb avoids known force_fair adjacent draws)"

definition local__poll ::
  "lb_env \<Rightarrow> lb_world \<Rightarrow> lb_pool \<Rightarrow> oio_location list option \<Rightarrow> nat \<Rightarrow> patch_result" where
  "local__poll e w lb avoids draws = local__patch e w lb avoids None False False draws"

end
