(* ===== verification/Lb_Search.thy ===== *)
theory Lb_Search
  imports Lb_Poll
begin

text \<open>
  The lookups of the load balancer: the binary searches by location and by weight, the order a
  slot has once it is rehashed, and the shuffled lookup, which meets every service of the slot.
\<close>

section \<open>Masks\<close>

lemma mask_volume [simp]: "loc_mask OIO_LOC_PROX_VOLUME x = x"
  by (simp add: loc_mask_def oio_location_mask_after_def)

lemma uint_push_drop: "s < 64 \<Longrightarrow> uint (push_bit s (drop_bit s (x :: 64 word))) = uint x div 2 ^ s * 2 ^ s"
proof -
  assume "s < 64"
  have "uint x div 2 ^ s * 2 ^ s + uint x mod 2 ^ s = uint x" by (rule div_mult_mod_eq)
  moreover have "0 \<le> uint x mod 2 ^ s" by simp
  ultimately have "uint x div 2 ^ s * 2 ^ s \<le> uint x" by linarith
  also have "uint x < 2 ^ 64" using uint_lt2p [of x] by simp
  finally have "uint x div 2 ^ s * 2 ^ s < 2 ^ 64" .
  moreover have "uint (push_bit s (drop_bit s x)) = take_bit 64 (push_bit s (drop_bit s (uint x)))"
    unfolding unsigned_push_bit_eq unsigned_drop_bit_eq
    using uint_lt2p [of x] by (simp add: take_bit_int_eq_self)
  moreover have "0 \<le> uint x div 2 ^ s * 2 ^ s"
    by (intro mult_nonneg_nonneg) (simp_all add: pos_imp_zdiv_nonneg_iff)
  ultimately show ?thesis
    by (simp only: push_bit_eq_mult drop_bit_eq_div take_bit_int_eq_self)
qed

lemma loc_mask_mono: "x \<le> y \<Longrightarrow> loc_mask lvl x \<le> loc_mask lvl y"
proof -
  assume "x \<le> y"
  have "push_bit s (drop_bit s x) \<le> push_bit s (drop_bit s y)" if "s < 64" for s
    unfolding word_le_def uint_push_drop [OF that]
    using \<open>x \<le> y\<close> by (simp add: word_le_def zdiv_mono1)
  with \<open>x \<le> y\<close> show ?thesis
    by (cases lvl) (simp_all add: loc_mask_def oio_location_mask_after_def Let_def)
qed

section \<open>Search by location\<close>

lemma slide_first:
  assumes "sorted tab" "i < length tab" "loc_mask lvl (tab ! i) = loc_mask lvl needle"
  defines "r \<equiv> slide_to_first_at_location tab needle lvl i"
  shows "r \<le> i" "loc_mask lvl (tab ! r) = loc_mask lvl needle"
    and "\<forall>j < r. loc_mask lvl (tab ! j) \<noteq> loc_mask lvl needle"
proof -
  have "r \<le> i \<and> loc_mask lvl (tab ! r) = loc_mask lvl needle \<and>
      (\<forall>j < r. loc_mask lvl (tab ! j) \<noteq> loc_mask lvl needle)"
    using assms(2,3) unfolding r_def
  proof (induction i)
    case (Suc i)
    show ?case
    proof (cases "loc_mask lvl needle = loc_mask lvl (tab ! i)")
      case True
      with Suc show ?thesis by fastforce
    next
      case False
      have "loc_mask lvl (tab ! j) \<noteq> loc_mask lvl needle" if "j < Suc i" for j
      proof
        assume eq: "loc_mask lvl (tab ! j) = loc_mask lvl needle"
        have "tab ! j \<le> tab ! i" "tab ! i \<le> tab ! Suc i"
          using that Suc.prems(1) assms(1) by (auto intro!: sorted_nth_mono)
        from loc_mask_mono [OF this(1), of lvl] loc_mask_mono [OF this(2), of lvl] eq Suc.prems(2) False
        show False by simp
      qed
      with False Suc.prems show ?thesis by simp
    qed
  qed simp
  then show "r \<le> i" "loc_mask lvl (tab ! r) = loc_mask lvl needle"
    "\<forall>j < r. loc_mask lvl (tab ! j) \<noteq> loc_mask lvl needle" by simp_all
qed

lemma search_first_range:
  assumes "sorted tab" "start \<le> end_pos" "end_pos < length tab"
    and "\<forall>j < start. loc_mask lvl (tab ! j) < loc_mask lvl needle"
    and "\<forall>i < length tab. loc_mask lvl (tab ! i) = loc_mask lvl needle \<longrightarrow>
           (\<exists>k \<le> end_pos. loc_mask lvl (tab ! k) = loc_mask lvl needle)"
  shows "case search_first_at_location tab needle lvl start end_pos of
      None \<Rightarrow> \<forall>i < length tab. loc_mask lvl (tab ! i) \<noteq> loc_mask lvl needle
    | Some r \<Rightarrow> r < length tab \<and> loc_mask lvl (tab ! r) = loc_mask lvl needle \<and>
        (\<forall>j < r. loc_mask lvl (tab ! j) \<noteq> loc_mask lvl needle)"
  using assms
proof (induction tab needle lvl start end_pos rule: search_first_at_location.induct)
  case (1 tab needle lvl start end_pos)
  note srt = 1(3) and range = 1(4,5) and below = 1(6) and upto = 1(7)
  let ?M = "loc_mask lvl"
  let ?p = "start + (end_pos - start) div 2"
  show ?case
  proof (cases "start \<ge> end_pos")
    case True
    then have se: "start = end_pos" using range by simp
    show ?thesis
    proof (cases "?M needle = ?M (tab ! start)")
      case True
      with range se slide_first [OF srt, of start lvl needle] show ?thesis
        by (subst search_first_at_location.simps) auto
    next
      case False
      have "?M (tab ! i) \<noteq> ?M needle" if "i < length tab" for i
      proof
        assume "?M (tab ! i) = ?M needle"
        with upto that obtain k where "k \<le> end_pos" "?M (tab ! k) = ?M needle" by blast
        with below se have "k = start" by (metis nless_le not_le)
        with False \<open>?M (tab ! k) = ?M needle\<close> show False by simp
      qed
      with False se range show ?thesis by (subst search_first_at_location.simps) auto
    qed
  next
    case False
    have ne: "length tab \<noteq> 0" using range by auto
    have p: "start \<le> ?p" "?p < end_pos" using False by auto
    show ?thesis
    proof (cases "?M needle > ?M (tab ! ?p)")
      case True
      have "?M (tab ! j) < ?M needle" if "j < ?p + 1" for j
      proof -
        have "tab ! j \<le> tab ! ?p" using that p range srt by (auto intro!: sorted_nth_mono)
        with True loc_mask_mono [of "tab ! j" "tab ! ?p" lvl] show ?thesis by simp
      qed
      then have "case search_first_at_location tab needle lvl (?p + 1) end_pos of
          None \<Rightarrow> \<forall>i < length tab. ?M (tab ! i) \<noteq> ?M needle
        | Some r \<Rightarrow> r < length tab \<and> ?M (tab ! r) = ?M needle \<and> (\<forall>j < r. ?M (tab ! j) \<noteq> ?M needle)"
        using 1(1) [OF ne False refl True srt _ range(2) _ upto] p by auto
      with True False ne show ?thesis by (subst search_first_at_location.simps) (simp add: Let_def)
    next
      case not: False
      have "\<exists>k \<le> ?p. ?M (tab ! k) = ?M needle" if "i < length tab" "?M (tab ! i) = ?M needle" for i
      proof (cases "i \<le> ?p")
        case False
        then have "tab ! ?p \<le> tab ! i" using that srt by (auto intro!: sorted_nth_mono)
        from loc_mask_mono [OF this, of lvl] not that have "?M (tab ! ?p) = ?M needle" by simp
        then show ?thesis by blast
      qed (use that in auto)
      then have "case search_first_at_location tab needle lvl start ?p of
          None \<Rightarrow> \<forall>i < length tab. ?M (tab ! i) \<noteq> ?M needle
        | Some r \<Rightarrow> r < length tab \<and> ?M (tab ! r) = ?M needle \<and> (\<forall>j < r. ?M (tab ! j) \<noteq> ?M needle)"
        using 1(2) [OF ne False refl not srt p(1) _ below] p range by auto
      with not False ne show ?thesis by (subst search_first_at_location.simps) (simp add: Let_def)
    qed
  qed
qed

lemma search_all_spec:
  assumes "sorted tab"
  shows "case search_all tab needle lvl of
      None \<Rightarrow> \<forall>i < length tab. loc_mask lvl (tab ! i) \<noteq> loc_mask lvl needle
    | Some r \<Rightarrow> r < length tab \<and> loc_mask lvl (tab ! r) = loc_mask lvl needle \<and>
        (\<forall>j < r. loc_mask lvl (tab ! j) \<noteq> loc_mask lvl needle)"
proof (cases "tab = []")
  case True
  then show ?thesis by (simp add: search_all_def search_first_at_location.simps)
next
  case False
  then have "i \<le> length tab - 1" if "i < length tab" for i using that by simp
  with False show ?thesis unfolding search_all_def
    by (intro search_first_range [OF assms]) auto
qed

section \<open>Search by weight\<close>

lemma closest_weight_range:
  assumes "sorted tab" "start \<le> end_pos" "end_pos < length tab"
    and "\<forall>j < start. tab ! j < needle"
    and "needle \<le> tab ! end_pos \<or> end_pos = length tab - 1" "distinct tab"
  shows "search_closest_weight tab needle start end_pos \<le> end_pos \<and>
     (\<forall>j < search_closest_weight tab needle start end_pos. tab ! j < needle) \<and>
     (needle \<le> tab ! search_closest_weight tab needle start end_pos \<or>
      search_closest_weight tab needle start end_pos = length tab - 1)"
  using assms
proof (induction tab needle start end_pos rule: search_closest_weight.induct)
  case (1 tab needle start end_pos)
  note srt = 1(3) and range = 1(4,5) and below = 1(6) and fin = 1(7) and dst = 1(8)
  let ?p = "start + (end_pos - start) div 2"
  show ?case
  proof (cases "start \<ge> end_pos")
    case True
    with range have "start = end_pos" by simp
    with below fin True show ?thesis by (subst (1 2 3 4) search_closest_weight.simps) auto
  next
    case False
    then have p: "start \<le> ?p" "?p < end_pos" by auto
    have less: "tab ! j < tab ! ?p" if "j < ?p" for j
    proof -
      have "tab ! j \<le> tab ! ?p" using that p range srt by (auto intro!: sorted_nth_mono)
      moreover have "tab ! j \<noteq> tab ! ?p" using that p range dst by (simp add: nth_eq_iff_index_eq)
      ultimately show ?thesis by simp
    qed
    consider "tab ! ?p = needle" | "tab ! ?p > needle" | "tab ! ?p < needle" by fastforce
    then show ?thesis
    proof cases
      case 1
      with less p False have "search_closest_weight tab needle start end_pos = ?p"
        by (subst search_closest_weight.simps) (simp add: Let_def)
      with 1 less p show ?thesis by auto
    next
      case 2
      then have "search_closest_weight tab needle start end_pos = search_closest_weight tab needle start ?p"
        using False by (subst search_closest_weight.simps) (auto simp: Let_def)
      moreover have "tab ! ?p \<noteq> needle" "needle \<le> tab ! ?p \<or> ?p = length tab - 1" "?p < length tab"
        using 2 p range by auto
      note "1.IH"(1) [OF False refl refl this(1) 2 srt p(1) this(3) below this(2) dst]
      ultimately show ?thesis using p by auto
    next
      case 3
      then have eq: "search_closest_weight tab needle start end_pos
          = search_closest_weight tab needle (?p + 1) end_pos"
        using False by (subst search_closest_weight.simps) (auto simp: Let_def)
      have "\<forall>j < ?p + 1. tab ! j < needle" using less 3 by (metis add.commute less_Suc_eq less_trans plus_1_eq_Suc)
      moreover have "tab ! ?p \<noteq> needle" "\<not> needle < tab ! ?p" "?p + 1 \<le> end_pos"
        using 3 p by auto
      ultimately show ?thesis
        using "1.IH"(2) [OF False refl refl _ _ srt _ range(2) _ fin dst] eq by simp
    qed
  qed
qed

text \<open>The weights a slot accumulates, and their partial sums.\<close>

definition weights :: "lb_world \<Rightarrow> slot_item list \<Rightarrow> nat list" where
  "weights w items = map (\<lambda>si. unat (put_weight_of w si)) items"

definition partial_sum :: "nat list \<Rightarrow> nat \<Rightarrow> nat" where
  "partial_sum ws i = sum_list (take (Suc i) ws)"

lemma length_weights [simp]: "length (weights w items) = length items"
  by (simp add: weights_def)

lemma unat_ucast_8_32: "unat (ucast (x :: guint8) :: guint32) = unat x"
proof -
  have "unat x < 2 ^ 8" using unsigned_less [of x] by simp
  also have "\<dots> \<le> (2 :: nat) ^ 32" by (rule power_increasing) simp_all
  finally show ?thesis by (simp only: unsigned_ucast_eq) (simp add: take_bit_nat_eq_self)
qed

lemma accumulate_spec:
  assumes "unat acc + sum_list (weights w items) < 2 ^ 32" "accumulate w acc items = (t, items')"
  shows "unat t = unat acc + sum_list (weights w items) \<and> length items' = length items \<and>
     map si_item items' = map si_item items \<and>
     (\<forall>i < length items. unat (si_acc_weight (items' ! i)) = unat acc + partial_sum (weights w items) i)"
  using assms
proof (induction items arbitrary: acc t items')
  case (Cons si sis)
  let ?s = "acc + ucast (put_weight_of w si) :: guint32"
  obtain t1 rest where rest: "accumulate w ?s sis = (t1, rest)" by (cases "accumulate w ?s sis")
  with Cons.prems(2) have res: "t = t1" "items' = si\<lparr>si_acc_weight := ?s\<rparr> # rest"
    by (auto simp: Let_def)
  have "unat (ucast (put_weight_of w si) :: guint32) = unat (put_weight_of w si)"
    by (rule unat_ucast_8_32)
  then have s: "unat ?s = unat acc + unat (put_weight_of w si)"
    using Cons.prems(1) by (subst unat_add_lem [THEN iffD1]) (auto simp: weights_def)
  have "unat ?s + sum_list (weights w sis) < 2 ^ 32" using Cons.prems(1) s by (simp add: weights_def)
  from Cons.IH [OF this rest] s res show ?case
    by (auto simp: weights_def partial_sum_def nth_Cons split: nat.splits)
qed (simp add: weights_def)

lemma weights_Nil_iff [simp]: "weights w items = [] \<longleftrightarrow> items = []"
  by (simp add: weights_def)

lemma partial_sum_step:
  assumes "i + 1 < length ws"
  shows "partial_sum ws (i + 1) = partial_sum ws i + ws ! (i + 1)"
  using assms by (simp add: partial_sum_def take_Suc_conv_app_nth)

lemma partial_sum_last: "ws \<noteq> [] \<Longrightarrow> partial_sum ws (length ws - 1) = sum_list ws"
  by (simp add: partial_sum_def)

lemma partial_sum_less:
  assumes "\<forall>x \<in> set ws. 0 < x" "i < j" "j < length ws"
  shows "partial_sum ws i < partial_sum ws j"
  using assms(2,3)
proof (induction j)
  case (Suc j)
  have "0 < ws ! Suc j" using Suc.prems assms(1) by simp
  with Suc partial_sum_step [of j ws] show ?case by (cases "i = j") auto
qed simp

lemma closest_weight_choice:
  assumes "sorted accs" "distinct accs" "accs \<noteq> []" "x \<le> last accs"
  shows "search_closest_weight accs x 0 (length accs - 1) < length accs \<and>
     (\<forall>j < search_closest_weight accs x 0 (length accs - 1). accs ! j < x) \<and>
     x \<le> accs ! search_closest_weight accs x 0 (length accs - 1)"
proof -
  have "length accs - 1 < length accs" using assms(3) by simp
  from closest_weight_range [OF assms(1) _ this, of 0 x] assms(2-) show ?thesis
    by (auto simp: last_conv_nth Suc_le_eq)
      (metis One_nat_def Suc_pred le_imp_less_Suc length_greater_0_conv)+
qed

text \<open>The position the draw of a weight leads to, in a slot whose weights are up to date.\<close>

definition weighted_choice :: "lb_slot \<Rightarrow> nat \<Rightarrow> nat" where
  "weighted_choice slot x =
     search_closest_weight (map si_acc_weight (slot_items slot)) (of_nat x) 0 (length (slot_items slot) - 1)"

lemma rehash_weights_accs:
  assumes "sum_list (weights w (slot_items slot)) < 2 ^ 32" "slot' = rehash_weights w slot"
  shows "unat (sum_weight slot') = sum_list (weights w (slot_items slot))"
    and "map (unat \<circ> si_acc_weight) (slot_items slot') =
       map (partial_sum (weights w (slot_items slot))) [0..<length (slot_items slot)]"
proof -
  obtain t items' where acc: "accumulate w 0 (slot_items slot) = (t, items')"
    by (cases "accumulate w 0 (slot_items slot)")
  have 0: "unat (0 :: guint32) + sum_list (weights w (slot_items slot)) < 2 ^ 32" using assms(1) by simp
  note * = accumulate_spec [OF 0 acc]
  have slot': "sum_weight slot' = t" "slot_items slot' = items'"
    using acc by (simp_all add: assms(2) rehash_weights_def)
  from * slot' show "unat (sum_weight slot') = sum_list (weights w (slot_items slot))" by simp
  from * slot' show "map (unat \<circ> si_acc_weight) (slot_items slot') =
      map (partial_sum (weights w (slot_items slot))) [0..<length (slot_items slot)]"
    by (intro nth_equalityI) auto
qed

lemma weighted_choice_iff:
  assumes "\<forall>x \<in> set (weights w (slot_items slot)). 0 < x"
    and "sum_list (weights w (slot_items slot)) < 2 ^ 32" "slot' = rehash_weights w slot"
    and "x < sum_list (weights w (slot_items slot))" "i < length (slot_items slot)"
  shows "weighted_choice slot' x = i \<longleftrightarrow>
     (\<forall>j < i. partial_sum (weights w (slot_items slot)) j < x) \<and>
     x \<le> partial_sum (weights w (slot_items slot)) i"
proof -
  let ?ws = "weights w (slot_items slot)" and ?n = "length (slot_items slot)"
  let ?accs = "map si_acc_weight (slot_items slot')"
  have un: "map unat ?accs = map (partial_sum ?ws) [0..<?n]"
    using rehash_weights_accs(2) [OF assms(2,3)] by simp
  have len: "length ?accs = ?n" using arg_cong [OF un, of length] by simp
  have nth: "unat (?accs ! j) = partial_sum ?ws j" if "j < ?n" for j
    using arg_cong [OF un, of "\<lambda>xs. xs ! j"] that len by simp
  have lt: "?accs ! j < ?accs ! k" if "j < k" "k < ?n" for j k
    using partial_sum_less [OF assms(1) that(1)] that nth by (simp add: word_less_nat_alt)
  have "sorted_wrt (<) ?accs"
    unfolding sorted_wrt_iff_nth_less using lt len by metis
  then have srt: "sorted ?accs" "distinct ?accs" by (auto simp: strict_sorted_iff)
  have ne: "?accs \<noteq> []" using assms(5) len by auto
  have x: "unat (of_nat x :: guint32) = x"
    using assms(2,4) by (simp add: unsigned_of_nat take_bit_nat_eq_self)
  have "unat (last ?accs) = sum_list ?ws"
  proof -
    have "last ?accs = ?accs ! (?n - 1)" using ne len by (simp add: last_conv_nth)
    then have "unat (last ?accs) = partial_sum ?ws (?n - 1)" using nth [of "?n - 1"] assms(5) by simp
    also have "\<dots> = sum_list ?ws" using partial_sum_last [of ?ws] assms(5) by fastforce
    finally show ?thesis .
  qed
  then have le: "of_nat x \<le> last ?accs" using assms(4) x by (simp add: word_le_nat_alt)
  let ?r = "search_closest_weight ?accs (of_nat x) 0 (length ?accs - 1)"
  note r = closest_weight_choice [OF srt ne le]
  have "weighted_choice slot' x = ?r" using len by (simp add: weighted_choice_def)
  moreover have "?r < ?n" using r len by simp
  moreover have "\<forall>j < ?r. partial_sum ?ws j < x" using r nth x \<open>?r < ?n\<close> by (auto simp: word_less_nat_alt)
  moreover have "x \<le> partial_sum ?ws ?r" using r nth x \<open>?r < ?n\<close> by (simp add: word_le_nat_alt)
  ultimately show ?thesis
    by (metis linorder_neqE_nat not_less)
qed

text \<open>
  C39: the draw of a service by its weight favours the first service of the slot at the expense of
  the last one.  Over all the values the generator may give, a service should be chosen as many
  times as its weight; the first one is chosen once more, and the last one once less, so that a
  last service of weight 1 is never drawn.
\<close>

theorem weighted_choice_bias:
  assumes "\<forall>x \<in> set (weights w (slot_items slot)). 0 < x"
    and "sum_list (weights w (slot_items slot)) < 2 ^ 32" "i < length (slot_items slot)"
  shows "card {x. x < unat (sum_weight (rehash_weights w slot)) \<and>
                  weighted_choice (rehash_weights w slot) x = i} =
     weights w (slot_items slot) ! i + (if i = 0 then 1 else 0)
       - (if i = length (slot_items slot) - 1 then 1 else 0)"
proof -
  let ?ws = "weights w (slot_items slot)" and ?n = "length (slot_items slot)"
  let ?P = "partial_sum ?ws" and ?S = "sum_list ?ws"
  have S: "unat (sum_weight (rehash_weights w slot)) = ?S"
    by (rule rehash_weights_accs(1) [OF assms(2) refl])
  have "{x. x < ?S \<and> weighted_choice (rehash_weights w slot) x = i} =
      {x. x < ?S \<and> (\<forall>j < i. ?P j < x) \<and> x \<le> ?P i}"
    using weighted_choice_iff [OF assms(1,2) refl _ assms(3)] by blast
  also have "\<dots> = {x. x < ?S \<and> (i > 0 \<longrightarrow> ?P (i - 1) < x) \<and> x \<le> ?P i}"
  proof -
    have "(\<forall>j < i. ?P j < x) \<longleftrightarrow> (i > 0 \<longrightarrow> ?P (i - 1) < x)" for x
    proof (intro iffI allI impI)
      fix j assume *: "i > 0 \<longrightarrow> ?P (i - 1) < x" "j < i"
      then have "?P j \<le> ?P (i - 1)"
        using partial_sum_less [OF assms(1), of j "i - 1"] assms(3)
        by (cases "j = i - 1") (auto intro: less_imp_le)
      with * show "?P j < x" by linarith
    qed auto
    then show ?thesis by simp
  qed
  also have "\<dots> = (if i = 0 then {0..<min ?S (?P 0 + 1)} else {?P (i - 1) + 1..<min ?S (?P i + 1)})"
    by auto
  finally have card: "card {x. x < ?S \<and> weighted_choice (rehash_weights w slot) x = i} =
      (if i = 0 then min ?S (?P 0 + 1) else min ?S (?P i + 1) - (?P (i - 1) + 1))"
    by simp
  have ne: "?ws \<noteq> []" using assms(3) by (auto simp: weights_def)
  have last: "?P (?n - 1) = ?S" using partial_sum_last [OF ne] by simp
  have small: "?P i < ?S" if "i < ?n - 1"
    using partial_sum_less [OF assms(1) that] last assms(3) by simp
  have step: "?P i = ?P (i - 1) + ?ws ! i" if "i > 0"
    using partial_sum_step [of "i - 1" ?ws] that assms(3) by simp
  have zero: "?P 0 = ?ws ! 0" if "i = 0"
    using ne by (cases ?ws) (auto simp: partial_sum_def)
  have pos: "0 < ?ws ! i" using assms(1,3) by simp
  show ?thesis
  proof (cases "i = ?n - 1")
    case True
    then show ?thesis unfolding S card using last step zero pos by (cases "i = 0") auto
  next
    case False
    then have "?P i < ?S" using small assms(3) by linarith
    then show ?thesis unfolding S card using False step zero by (cases "i = 0") auto
  qed
qed

definition bias_world :: lb_world where
  "bias_world = oio_lb_local__create_world\<lparr>w_items :=
     [''a'' \<mapsto> \<lparr>it_location = 1, it_put_weight = 3, it_get_weight = 3, it_addr = [], it_internal_addr = [],
                it_id = ''a'', it_tls = []\<rparr>,
      ''b'' \<mapsto> \<lparr>it_location = 2, it_put_weight = 1, it_get_weight = 1, it_addr = [], it_internal_addr = [],
                it_id = ''b'', it_tls = []\<rparr>]\<rparr>"

definition bias_slot :: lb_slot where
  "bias_slot = \<lparr>sum_weight = 0,
     slot_items = [\<lparr>si_item = ''a'', si_acc_weight = 0, si_generation = 0\<rparr>,
                   \<lparr>si_item = ''b'', si_acc_weight = 0, si_generation = 0\<rparr>],
     zero_scored_items = [], items_by_loc = (\<lambda>_ _. 0), locs_by_level = (\<lambda>_. 0), slot_generation = 0,
     flag_dirty_weights = True, flag_dirty_order = False, flag_zero_scored_dirty_order = False,
     flag_rehash_on_update = False, jump = 1\<rparr>"

theorem weighted_choice_bias_witness:
  "card {x. x < unat (sum_weight (rehash_weights bias_world bias_slot)) \<and>
            weighted_choice (rehash_weights bias_world bias_slot) x = 0} = 4 \<and>
   card {x. x < unat (sum_weight (rehash_weights bias_world bias_slot)) \<and>
            weighted_choice (rehash_weights bias_world bias_slot) x = 1} = 0"
proof -
  have "weights bias_world (slot_items bias_slot) = [3, 1]" "length (slot_items bias_slot) = 2"
    by (simp_all add: weights_def bias_slot_def bias_world_def put_weight_of_def)
  then show ?thesis
    using weighted_choice_bias [of bias_world bias_slot 0] weighted_choice_bias [of bias_world bias_slot 1]
    by simp
qed

section \<open>The shuffled lookup\<close>

lemma coprime_steps:
  fixes i j k n :: nat
  assumes "coprime j n" "0 < n" "k < n"
  shows "\<exists>m < n. (i + (m + 1) * j) mod n = k"
proof -
  let ?f = "\<lambda>m. (i + (m + 1) * j) mod n"
  have "inj_on ?f {..<n}"
  proof (rule inj_onI)
    have *: "m = m'" if "m \<le> m'" "m' < n" "?f m = ?f m'" for m m'
    proof -
      have "(i + (m + 1) * j) mod n = (i + (m + 1) * j + (m' - m) * j) mod n"
      proof -
        have "m + 1 + (m' - m) = m' + 1" using that(1) by simp
        then have "(m + 1) * j + (m' - m) * j = (m' + 1) * j" by (metis distrib_right)
        with that(3) show ?thesis by (simp only: add.assoc)
      qed
      then have "n dvd i + (m + 1) * j + (m' - m) * j - (i + (m + 1) * j)"
        by (intro mod_eq_dvd_iff_nat [THEN iffD1]) simp_all
      then have "n dvd (m' - m) * j" by (simp only: diff_add_inverse)
      moreover have "coprime n j" using assms(1) by (simp add: coprime_commute)
      ultimately have "n dvd m' - m" by (simp only: coprime_dvd_mult_left_iff)
      moreover have "m' - m < n" using that(2) by simp
      ultimately have "m' - m = 0" using nat_dvd_not_less by blast
      with that(1) show ?thesis by simp
    qed
    fix m m' assume "m \<in> {..<n}" "m' \<in> {..<n}" "?f m = ?f m'"
    then show "m = m'" using * [of m m'] * [of m' m] by (metis lessThan_iff nle_le)
  qed
  then have "?f ` {..<n} = {..<n}"
    using assms(2) by (intro endo_inj_surj) auto
  then have "k \<in> ?f ` {..<n}" using assms(3) by simp
  then show ?thesis by auto
qed

lemma level_max_draws [simp]: "level_max (ctx\<lparr>c_draws := n\<rparr>) slot key level = level_max ctx slot key level"
  by (simp add: level_max_def Let_def)

lemma same_draws: "\<exists>k. ctx = ctx\<lparr>c_draws := k\<rparr>"
  by (rule exI [of _ "c_draws ctx"]) simp

lemma popular_loop_draws [simp]:
  "popular_loop (ctx\<lparr>c_draws := n\<rparr>) slot item levels pops maxs = popular_loop ctx slot item levels pops maxs"
  by (induction levels arbitrary: pops maxs) (simp_all add: Let_def level_max_def)

lemma accept_item_draws:
  "accept_item e w slot d (ctx\<lparr>c_draws := n\<rparr>) j =
     map_option (map_prod id (\<lambda>c. c\<lparr>c_draws := n\<rparr>)) (accept_item e w slot d ctx j)"
  by (simp add: accept_item_def item_is_too_popular_def Let_def count_accepted_def split: prod.split)

lemma accept_draws_None:
  "accept_item e w slot d (ctx\<lparr>c_draws := n\<rparr>) j = None \<longleftrightarrow> accept_item e w slot d ctx j = None"
  by (simp add: accept_item_draws)

lemma closest_weight_le: "search_closest_weight tab needle start end_pos \<le> end_pos"
proof (induction tab needle start end_pos rule: search_closest_weight.induct)
  case (1 tab needle start end_pos)
  let ?p = "start + (end_pos - start) div 2"
  show ?case
  proof (cases "start \<ge> end_pos \<or> tab ! ?p = needle \<or> \<not> tab ! ?p > needle")
    case True
    with 1(2) [OF _ refl refl] show ?thesis
      by (subst search_closest_weight.simps) (auto simp: Let_def)
  next
    case False
    with 1(1) [OF _ refl refl] have "search_closest_weight tab needle start ?p \<le> ?p" by simp
    also have "?p \<le> end_pos" using False by auto
    finally show ?thesis using False by (subst search_closest_weight.simps) (auto simp: Let_def)
  qed
qed

text \<open>The weighted attempts either accept a service of the slot or leave the context as it was.\<close>

lemma random_attempts_None:
  assumes "random_attempts e w slot d n i ctx = ((None, ctx'), i')" "i < length (slot_items slot)"
  shows "(\<exists>k. ctx' = ctx\<lparr>c_draws := k\<rparr>) \<and> i' < length (slot_items slot)"
  using assms
proof (induction n arbitrary: i ctx)
  case (Suc n)
  let ?j = "search_closest_weight (map si_acc_weight (slot_items slot))
    (of_nat (rand_int_range e (c_draws ctx) (unat (sum_weight slot)))) 0 (length (slot_items slot) - 1)"
  let ?c = "ctx\<lparr>c_draws := c_draws ctx + 1\<rparr>"
  have j: "?j < length (slot_items slot)"
    using Suc.prems(2) by (metis One_nat_def Suc_pred closest_weight_le less_Suc_eq_le less_nat_zero_code
        not_gr_zero)
  from Suc.prems(1) have acc: "accept_item e w slot d ?c ?j = None"
    and rest: "random_attempts e w slot d n ?j ?c = ((None, ctx'), i')"
    by (auto simp: Let_def split: option.splits)
  from Suc.IH [OF rest j] show ?case by auto
qed (auto intro: same_draws)

lemma random_attempts_Some:
  assumes "random_attempts e w slot d n i ctx = ((Some sel, ctx'), i')" "i < length (slot_items slot)"
  shows "\<exists>k j. j < length (slot_items slot) \<and>
     accept_item e w slot d (ctx\<lparr>c_draws := k\<rparr>) j = Some (sel, ctx')"
  using assms
proof (induction n arbitrary: i ctx)
  case (Suc n)
  let ?j = "search_closest_weight (map si_acc_weight (slot_items slot))
    (of_nat (rand_int_range e (c_draws ctx) (unat (sum_weight slot)))) 0 (length (slot_items slot) - 1)"
  let ?c = "ctx\<lparr>c_draws := c_draws ctx + 1\<rparr>"
  have j: "?j < length (slot_items slot)"
    using Suc.prems(2) by (metis One_nat_def Suc_pred closest_weight_le less_Suc_eq_le less_nat_zero_code
        not_gr_zero)
  show ?case
  proof (cases "accept_item e w slot d ?c ?j")
    case None
    with Suc.prems(1) have "random_attempts e w slot d n ?j ?c = ((Some sel, ctx'), i')"
      by (simp add: Let_def)
    from Suc.IH [OF this j] show ?thesis by auto
  next
    case (Some x)
    with Suc.prems(1) j show ?thesis by (auto simp: Let_def split: prod.splits)
  qed
qed simp

lemma shuffled_lookup_Some:
  assumes "shuffled_lookup e w slot d n i ctx = (Some sel, ctx')" "slot_items slot \<noteq> []"
  shows "\<exists>j < length (slot_items slot). accept_item e w slot d ctx j = Some (sel, ctx')"
  using assms
proof (induction n arbitrary: i)
  case (Suc n)
  let ?j = "(i + jump slot) mod length (slot_items slot)"
  have "?j < length (slot_items slot)" using Suc.prems(2) by simp
  with Suc show ?case
    by (cases "accept_item e w slot d ctx ?j") (auto simp: Let_def intro!: exI [of _ ?j])
qed simp

lemma shuffled_lookup_None:
  assumes "shuffled_lookup e w slot d n i ctx = (None, ctx')"
  shows "ctx' = ctx \<and>
    (\<forall>m < n. accept_item e w slot d ctx ((i + (m + 1) * jump slot) mod length (slot_items slot)) = None)"
  using assms
proof (induction n arbitrary: i)
  case (Suc n)
  let ?j = "(i + jump slot) mod length (slot_items slot)"
  from Suc.prems have acc: "accept_item e w slot d ctx ?j = None"
    and rest: "shuffled_lookup e w slot d n ?j ctx = (None, ctx')"
    by (auto simp: Let_def split: option.splits)
  have "accept_item e w slot d ctx ((i + (m + 1) * jump slot) mod length (slot_items slot)) = None"
    if "m < Suc n" for m
  proof (cases m)
    case (Suc k)
    have "(?j + (k + 1) * jump slot) mod length (slot_items slot)
        = (i + (m + 1) * jump slot) mod length (slot_items slot)"
      unfolding Suc using mod_add_left_eq [of "i + jump slot" "length (slot_items slot)" "(k + 1) * jump slot"]
      by (simp add: algebra_simps)
    with Suc.IH [OF rest] Suc that show ?thesis by (metis Suc_less_SucD)
  qed (use acc in simp)
  with Suc.IH [OF rest] show ?case by blast
qed simp

text \<open>What a poll of a slot gives is what it accepts.\<close>

lemma slot_poll_Some:
  assumes "local_slot__poll e w slot distance ctx nt = (Some sel, ctx')"
  shows "\<exists>k j. j < length (slot_items slot) \<and>
     accept_item e w slot (slackened_distance e slot distance ctx nt) (ctx\<lparr>c_draws := k\<rparr>) j = Some (sel, ctx')"
proof -
  let ?d = "slackened_distance e slot distance ctx nt"
  from assms have ne: "slot_items slot \<noteq> []" by (auto simp: local_slot__poll_def split: if_splits)
  obtain r ctx1 i where ra: "random_attempts e w slot ?d (weighted_random_attempts e) 0 ctx = ((r, ctx1), i)"
    by (metis prod.collapse)
  show ?thesis
  proof (cases r)
    case None
    with assms ra have sh: "shuffled_lookup e w slot ?d (length (slot_items slot)) i ctx1 = (Some sel, ctx')"
      by (auto simp: local_slot__poll_def Let_def split: if_splits)
    obtain k where "ctx1 = ctx\<lparr>c_draws := k\<rparr>"
      using random_attempts_None [OF ra [unfolded None]] ne by auto
    with shuffled_lookup_Some [OF sh ne] show ?thesis by blast
  next
    case (Some s)
    with assms ra have "s = sel" "ctx1 = ctx'"
      by (auto simp: local_slot__poll_def Let_def split: if_splits)
    with random_attempts_Some [OF ra [unfolded Some]] ne show ?thesis by auto
  qed
qed

lemma slot_poll_None:
  assumes "local_slot__poll e w slot distance ctx nt = (None, ctx')"
  shows "\<exists>k. ctx' = ctx\<lparr>c_draws := k\<rparr>"
proof -
  let ?d = "slackened_distance e slot distance ctx nt"
  obtain r ctx1 i where ra: "random_attempts e w slot ?d (weighted_random_attempts e) 0 ctx = ((r, ctx1), i)"
    by (metis prod.collapse)
  show ?thesis
  proof (cases "slot_items slot = [] \<or> sum_weight slot = 0")
    case True
    with assms show ?thesis by (auto simp: local_slot__poll_def intro: same_draws split: if_splits)
  next
    case False
    with assms ra have "r = None" "shuffled_lookup e w slot ?d (length (slot_items slot)) i ctx1 = (None, ctx')"
      by (auto simp: local_slot__poll_def Let_def split: option.splits)
    moreover from this(1) obtain k where "ctx1 = ctx\<lparr>c_draws := k\<rparr>"
      using random_attempts_None [of e w slot ?d _ 0 ctx ctx1 i] ra False by auto
    ultimately show ?thesis using shuffled_lookup_None by blast
  qed
qed

text \<open>The jump of a slot that has been rehashed meets every position.\<close>

lemma find_jump_coprime:
  assumes "find_jump len ps = Some j" "\<forall>p \<in> set ps. coprime p len"
  shows "coprime j len"
  using assms by (induction len ps rule: find_jump.induct) (auto simp: Let_def split: if_splits)

lemma rehash_fields [simp]:
  "jump (rehash_order w slot) = jump slot" "jump (rehash_weights w slot) = jump slot"
  "jump (rehash_zero_scored w slot) = jump slot"
  "slot_items (rehash_jump slot) = slot_items slot" "slot_items (rehash_zero_scored w slot) = slot_items slot"
  by (simp_all add: rehash_order_def rehash_weights_def rehash_zero_scored_def rehash_jump_def Let_def
      split: prod.split)

lemma rehash_jump_coprime:
  assumes "\<forall>p \<in> set (OIO_LB_SHUFFLE_JUMP # prime_numbers). coprime p (length (slot_items slot))"
  shows "coprime (jump (rehash_jump slot)) (length (slot_items slot))"
  using assms find_jump_coprime [of "length (slot_items slot)" prime_numbers]
  by (auto simp: rehash_jump_def Let_def split: option.split)

lemma slot_rehash_coprime:
  assumes "slot' = slot_rehash w slot"
    and "\<forall>p \<in> set (OIO_LB_SHUFFLE_JUMP # prime_numbers). coprime p (length (slot_items slot'))"
  shows "coprime (jump slot') (length (slot_items slot'))"
proof -
  obtain s where s: "slot' = rehash_jump s" using assms(1) by (auto simp: slot_rehash_def Let_def)
  with rehash_jump_coprime [of s] assms(2) show ?thesis by simp
qed

lemma slot_poll_rejects:
  assumes "local_slot__poll e w slot distance ctx nt = (None, ctx')" "slot_items slot \<noteq> []"
    and "sum_weight slot \<noteq> 0" "coprime (jump slot) (length (slot_items slot))"
    and "j < length (slot_items slot)"
  shows "accept_item e w slot (slackened_distance e slot distance ctx nt) ctx j = None"
proof -
  let ?d = "slackened_distance e slot distance ctx nt" and ?n = "length (slot_items slot)"
  obtain r1 ctx1 i where ra: "random_attempts e w slot ?d (weighted_random_attempts e) 0 ctx = ((r1, ctx1), i)"
    by (metis prod.collapse)
  with assms(1-3) have r1: "r1 = None" and sh: "shuffled_lookup e w slot ?d ?n i ctx1 = (None, ctx')"
    by (auto simp: local_slot__poll_def Let_def split: option.splits)
  obtain k where ctx1: "ctx1 = ctx\<lparr>c_draws := k\<rparr>"
    using random_attempts_None [OF ra [unfolded r1]] assms(2) by auto
  have "0 < ?n" using assms(2) by simp
  from coprime_steps [OF assms(4) this assms(5), of i] obtain m where
    m: "m < ?n" "(i + (m + 1) * jump slot) mod ?n = j" by blast
  from shuffled_lookup_None [OF sh, THEN conjunct2, rule_format, OF m(1)]
  have "accept_item e w slot ?d ctx1 j = None" unfolding m(2) .
  then show ?thesis unfolding ctx1 accept_draws_None .
qed

text \<open>
  C20: a poll of a slot that has been rehashed finds a service exactly when the slot has one that
  the constraints accept: the weighted draws may miss it, the shuffled lookup does not, since its
  jump shares no factor with the number of services (the numbers the jump is made from are prime,
  which the first assumption says in terms of the number of services).
\<close>

theorem slot_poll_complete:
  assumes "\<forall>p \<in> set (OIO_LB_SHUFFLE_JUMP # prime_numbers). coprime p (length (slot_items slot))"
    and "slot = slot_rehash w slot0" "slot_items slot \<noteq> []" "sum_weight slot \<noteq> 0"
  shows "fst (local_slot__poll e w slot distance ctx n_targets) \<noteq> None \<longleftrightarrow>
     (\<exists>j < length (slot_items slot).
        accept_item e w slot (slackened_distance e slot distance ctx n_targets) ctx j \<noteq> None)"
proof -
  let ?d = "slackened_distance e slot distance ctx n_targets" and ?n = "length (slot_items slot)"
  obtain r ctx' where poll: "local_slot__poll e w slot distance ctx n_targets = (r, ctx')"
    by (metis prod.collapse)
  show ?thesis
  proof (cases r)
    case (Some sel)
    from slot_poll_Some [OF poll [unfolded Some]] obtain k j where
      j: "j < ?n" and acc: "accept_item e w slot ?d (ctx\<lparr>c_draws := k\<rparr>) j = Some (sel, ctx')" by blast
    from acc have "accept_item e w slot ?d (ctx\<lparr>c_draws := k\<rparr>) j \<noteq> None" by simp
    then have "accept_item e w slot ?d ctx j \<noteq> None" unfolding accept_draws_None .
    with j show ?thesis unfolding poll Some by auto
  next
    case None
    have "coprime (jump slot) ?n" by (rule slot_rehash_coprime [OF assms(2,1)])
    from slot_poll_rejects [OF poll [unfolded None] assms(3,4) this] show ?thesis
      unfolding poll None by auto
  qed
qed

definition still_env :: lb_env where
  "still_env = \<lparr>allow_distance_bypass = True, weighted_random_attempts = 1,
     try_fair_constraints_first = False, rand_int_range = (\<lambda>_ _. 0), wide_shift = (\<lambda>x _. x)\<rparr>"

definition one_pool :: lb_pool where
  "one_pool = \<lparr>p_name = ''p'', p_targets = [[''s'']], initial_dist = 4, warn_dist = 0, min_dist = 1,
     strict_max_items = [0, 0, 0, 0], fair_max_items = [0, 0, 0, 0]\<rparr>"

definition avoid_ctx :: polling_ctx where
  "avoid_ctx = polling_ctx_init (bias_world\<lparr>abs_max_dist := 1\<rparr>) one_pool (Some [1]) [] False False 0"

lemma bias_rehashed:
  "slot_items (slot_rehash bias_world bias_slot) =
     [\<lparr>si_item = ''a'', si_acc_weight = 3, si_generation = 0\<rparr>,
      \<lparr>si_item = ''b'', si_acc_weight = 4, si_generation = 0\<rparr>]"
  "sum_weight (slot_rehash bias_world bias_slot) = 4"
  "items_by_loc (slot_rehash bias_world bias_slot) = (\<lambda>_ _. 0)"
  by (simp_all add: slot_rehash_def bias_slot_def rehash_weights_def rehash_jump_def Let_def
      put_weight_of_def bias_world_def)

lemma bias_loc: "loc_of bias_world \<lparr>si_item = ''b'', si_acc_weight = 4, si_generation = 0\<rparr> = 2"
  by (simp add: loc_of_def bias_world_def)

theorem slot_poll_complete_witness:
  "fst (local_slot__poll still_env bias_world (slot_rehash bias_world bias_slot) 1 avoid_ctx 1) \<noteq> None"
proof -
  let ?s = "slot_rehash bias_world bias_slot"
  have len: "length (slot_items ?s) = 2" by (simp add: bias_rehashed)
  have "\<forall>p \<in> set (OIO_LB_SHUFFLE_JUMP # prime_numbers). coprime p (length (slot_items ?s))"
    unfolding len prime_numbers_def by simp
  moreover have "slot_items ?s \<noteq> []" "sum_weight ?s \<noteq> 0" by (simp_all add: bias_rehashed)
  moreover have "accept_item still_env bias_world ?s
      (slackened_distance still_env ?s 1 avoid_ctx 1) avoid_ctx 1 \<noteq> None"
    by (simp add: accept_item_def bias_rehashed bias_loc slackened_distance_def avoid_ctx_def
        polling_ctx_init_def one_pool_def Let_def still_env_def item_is_too_close_def
        dist_to_bit_shift_def shift_right_def item_is_too_popular_def level_max_def level_leafs_def
        gdata_get_def split: prod.split)
  moreover have "1 < length (slot_items ?s)" by (simp add: bias_rehashed)
  ultimately show ?thesis
    using slot_poll_complete [OF _ refl, of bias_world bias_slot still_env 1 avoid_ctx 1] by blast
qed

end
