(* ===== verification/Lb_Place.thy ===== *)
theory Lb_Place
  imports Lb_Search
begin

text \<open>
  What a pool promises when it is polled: as many services as targets, none of them avoided, none
  twice, all of them at the least distance of the pool from each other and from the known services,
  and no more of them at a location than the pool allows.
\<close>

section \<open>Well-formed worlds and pools\<close>

definition world_ok :: "lb_world \<Rightarrow> bool" where
  "world_ok w \<longleftrightarrow>
     (\<forall>name slot si. get_slot w name = Some slot \<longrightarrow> si \<in> set (slot_items slot) \<longrightarrow>
        (\<exists>it. w_items w (si_item si) = Some it \<and> it_id it = si_item si \<and> it_location it \<noteq> 0))"

definition pool_ok :: "lb_pool \<Rightarrow> bool" where
  "pool_ok lb \<longleftrightarrow> 1 \<le> min_dist lb \<and> min_dist lb \<le> 4 \<and> initial_dist lb \<le> 4"

section \<open>What the checks say\<close>

definition nonzero_part :: "oio_location list \<Rightarrow> oio_location list" where
  "nonzero_part ps = takeWhile (\<lambda>p. p \<noteq> 0) ps"

definition apart :: "nat \<Rightarrow> oio_location \<Rightarrow> oio_location \<Rightarrow> bool" where
  "apart d a b \<longleftrightarrow> drop_bit ((d - 1) * 16) a \<noteq> drop_bit ((d - 1) * 16) b"

lemma apart_sym: "apart d a b \<Longrightarrow> apart d b a"
  by (auto simp: apart_def)

lemma apart_less: "apart d a b \<Longrightarrow> d' \<le> d \<Longrightarrow> apart d' a b"
  using drop_bit_more [of "(d' - 1) * 16" a b "(d - 1) * 16"] diff_le_mono [of d' d 1]
  by (auto simp: apart_def)

lemma apart_distance:
  assumes "1 \<le> d" "d \<le> 4"
  shows "apart d a b \<longleftrightarrow> d \<le> dist_value (oio_location_distance a b)"
proof -
  from assms have "d = 1 \<or> d = 2 \<or> d = 3 \<or> d = 4" by linarith
  then have "shared_shift (d - 1) = (d - 1) * 16" by (auto simp: shared_shift_def)
  moreover have "d - 1 < 5" "\<And>x. x \<le> d - 1 \<longleftrightarrow> \<not> d \<le> x" using assms by linarith+
  ultimately show ?thesis using distance_le_iff [of "d - 1" a b] by (auto simp: apart_def)
qed

lemma apart_differ: "apart d a b \<Longrightarrow> a \<noteq> b"
  by (auto simp: apart_def)

lemma close_loop_iff:
  "n < 64 \<Longrightarrow> close_loop e n loc ps \<longleftrightarrow> (\<exists>p \<in> set (nonzero_part ps). loc = drop_bit n p)"
  by (induction ps) (auto simp: nonzero_part_def shift_right_def)

lemma too_close_iff:
  assumes "1 \<le> d" "d \<le> 4"
  shows "item_is_too_close e (Some ps) item d \<longleftrightarrow> (\<exists>p \<in> set (nonzero_part ps). \<not> apart d item p)"
proof -
  have "dist_to_bit_shift d False < 64" using assms by (simp add: dist_to_bit_shift_def)
  with assms(1) show ?thesis
    by (simp add: item_is_too_close_def close_loop_iff shift_right_def Let_def)
      (simp add: apart_def dist_to_bit_shift_def)
qed

definition avoided :: "oio_location list option \<Rightarrow> oio_location set" where
  "avoided avoids = (case avoids of None \<Rightarrow> {} | Some ps \<Rightarrow> set (nonzero_part ps))"

lemma too_close_avoids: "item_is_too_close e avoids item 1 \<longleftrightarrow> item \<in> avoided avoids"
proof (cases avoids)
  case (Some ps)
  have "(\<not> apart 1 item p) \<longleftrightarrow> item = p" for p by (simp add: apart_def)
  with too_close_iff [of 1 e ps item] Some show ?thesis by (auto simp: avoided_def)
qed (simp add: item_is_too_close_def avoided_def)

definition limit :: "polling_ctx \<Rightarrow> nat \<Rightarrow> nat" where
  "limit ctx level = unat ((if c_force_fair ctx then c_fair_max_items ctx else c_strict_max_items ctx) ! level)"

lemma level_max_limit: "limit ctx level \<noteq> 0 \<Longrightarrow> level_max ctx slot key level = limit ctx level"
  by (simp add: level_max_def limit_def Let_def)

lemma popular_loop_False:
  assumes "popular_loop ctx slot item levels pops maxs = (False, pops', maxs')" "level \<in> set levels"
  shows "gdata_get (c_counters ctx level) (key_from_loc_level item level)
     < level_max ctx slot (key_from_loc_level item level) level"
  using assms by (induction levels arbitrary: pops maxs) (auto simp: Let_def split: if_splits)

lemma accept_item_Some:
  assumes "accept_item e w slot d ctx i = Some (sel, ctx')" "c_check_distance ctx" "1 \<le> d" "d \<le> 4"
  defines "loc \<equiv> loc_of w (slot_items slot ! i)"
  shows "loc \<notin> avoided (c_avoids ctx)"
    and "\<forall>p \<in> set (nonzero_part (c_polled ctx)). apart d loc p"
    and "\<forall>level \<in> {1, 2, 3}. limit ctx level \<noteq> 0 \<longrightarrow>
           gdata_get (c_counters ctx level) (key_from_loc_level loc level) < limit ctx level"
    and "ctx' = ctx\<lparr>c_polled := (c_polled ctx)[c_next_polled ctx := loc],
                   c_counters := level_datalist_incr_loc (c_counters ctx) loc\<rparr>"
    and "sel_item sel = map_option (\<lambda>it. it\<lparr>it_tls := []\<rparr>) (w_items w (si_item (slot_items slot ! i)))"
proof -
  obtain popular pops maxs where pop: "item_is_too_popular ctx loc slot [0, 0, 0, 0] [0, 0, 0, 0] = (popular, pops, maxs)"
    by (metis prod.collapse)
  from assms(1,2) pop have
    1: "\<not> item_is_too_close e (c_avoids ctx) loc 1" "\<not> item_is_too_close e (Some (c_polled ctx)) loc d" "\<not> popular"
    and 2: "ctx' = ctx\<lparr>c_polled := (c_polled ctx)[c_next_polled ctx := loc],
                   c_counters := level_datalist_incr_loc (c_counters ctx) loc\<rparr>"
    and 3: "sel_item sel = map_option (\<lambda>it. it\<lparr>it_tls := []\<rparr>) (w_items w (si_item (slot_items slot ! i)))"
    unfolding accept_item_def loc_def [symmetric] Let_def
    by (auto simp: count_accepted_def item_select_def Let_def split: if_splits)
  show "loc \<notin> avoided (c_avoids ctx)" using 1(1) too_close_avoids by simp
  show "\<forall>p \<in> set (nonzero_part (c_polled ctx)). apart d loc p"
    using 1(2) too_close_iff [OF assms(3,4)] by simp
  show "ctx' = ctx\<lparr>c_polled := (c_polled ctx)[c_next_polled ctx := loc],
                   c_counters := level_datalist_incr_loc (c_counters ctx) loc\<rparr>" by (rule 2)
  show "sel_item sel = map_option (\<lambda>it. it\<lparr>it_tls := []\<rparr>) (w_items w (si_item (slot_items slot ! i)))" by (rule 3)
  from pop 1(3) have loop: "popular_loop ctx slot loc [1, 2, 3] [0, 0, 0, 0] ([0, 0, 0, 0][0 := 1]) = (False, pops, maxs)"
    by (simp add: item_is_too_popular_def del: popular_loop.simps)
  show "\<forall>level \<in> {1, 2, 3}. limit ctx level \<noteq> 0 \<longrightarrow>
      gdata_get (c_counters ctx level) (key_from_loc_level loc level) < limit ctx level"
  proof (intro ballI impI)
    fix level :: nat assume "level \<in> {1, 2, 3}" "limit ctx level \<noteq> 0"
    with popular_loop_False [OF loop, of level] level_max_limit [of ctx level slot]
    show "gdata_get (c_counters ctx level) (key_from_loc_level loc level) < limit ctx level" by simp
  qed
qed

section \<open>The polled service of a target\<close>

lemma slackened_range:
  assumes "min_dist lb \<le> d" "d \<le> 4" "1 \<le> min_dist lb" "c_min_dist ctx = min_dist lb"
  shows "min_dist lb \<le> slackened_distance e slot d ctx nt" "slackened_distance e slot d ctx nt \<le> 4"
    and "1 \<le> slackened_distance e slot d ctx nt"
  using assms by (auto simp: slackened_distance_def)

text \<open>A service accepted for a target: the context it was accepted in differs by the draws only.\<close>

definition accepted_from ::
  "lb_env \<Rightarrow> lb_world \<Rightarrow> nat \<Rightarrow> target \<Rightarrow> polling_ctx \<Rightarrow> lb_selected \<Rightarrow> polling_ctx \<Rightarrow> bool" where
  "accepted_from e w dmin target ctx sel ctx' \<longleftrightarrow>
     (\<exists>name slot d k j sel0. name \<in> set target \<and> get_slot w name = Some slot \<and>
        j < length (slot_items slot) \<and> dmin \<le> d \<and> d \<le> 4 \<and>
        accept_item e w slot d (ctx\<lparr>c_draws := k\<rparr>) j = Some (sel0, ctx') \<and>
        sel_item sel = sel_item sel0 \<and> final_slot sel = name \<and> expected_slot sel = hd target)"

lemma accepted_fromI:
  assumes "name \<in> set target" "get_slot w name = Some slot" "j < length (slot_items slot)"
    and "dmin \<le> d" "d \<le> 4" "accept_item e w slot d (ctx\<lparr>c_draws := k\<rparr>) j = Some (sel0, ctx')"
    and "sel_item sel = sel_item sel0" "final_slot sel = name" "expected_slot sel = hd target"
  shows "accepted_from e w dmin target ctx sel ctx'"
  unfolding accepted_from_def using assms by blast

lemma accepted_from_draws:
  "accepted_from e w dmin target (ctx\<lparr>c_draws := k\<rparr>) sel ctx' = accepted_from e w dmin target ctx sel ctx'"
  by (simp add: accepted_from_def)

lemma target_loop_cases:
  assumes "target_poll_loop e w target d nt names fb ctx = (r, ctx')" "set names \<subseteq> set target"
    and "min_dist lb \<le> d" "d \<le> 4" "1 \<le> min_dist lb" "c_min_dist ctx = min_dist lb"
  shows "case r of None \<Rightarrow> \<exists>k. ctx' = ctx\<lparr>c_draws := k\<rparr>
     | Some sel \<Rightarrow> accepted_from e w (min_dist lb) target ctx sel ctx'"
  using assms
proof (induction names arbitrary: fb ctx)
  case Nil
  then show ?case by (auto intro: same_draws)
next
  case (Cons name names)
  show ?case
  proof (cases "name = [] \<or> get_slot w name = None")
    case True
    with Cons show ?thesis by (auto intro: same_draws split: if_splits)
  next
    case False
    then obtain slot where slot: "get_slot w name = Some slot" by auto
    obtain r1 ctx1 where poll: "local_slot__poll e w slot d ctx nt = (r1, ctx1)"
      by (metis prod.collapse)
    show ?thesis
    proof (cases r1)
      case None
      from slot_poll_None [OF poll [unfolded None]] obtain k where k: "ctx1 = ctx\<lparr>c_draws := k\<rparr>" by blast
      have "target_poll_loop e w target d nt names True ctx1 = (r, ctx')"
        using Cons.prems(1) False slot poll None by simp
      from Cons.IH [OF this] Cons.prems k show ?thesis
        by (auto simp: accepted_from_draws split: option.splits)
    next
      case (Some s)
      from slot_poll_Some [OF poll [unfolded Some]] obtain k j where
        "j < length (slot_items slot)"
        "accept_item e w slot (slackened_distance e slot d ctx nt) (ctx\<lparr>c_draws := k\<rparr>) j = Some (s, ctx1)"
        by blast
      moreover have "r = Some (s\<lparr>expected_slot := hd target, final_slot := name,
          sel_flawed := (sel_flawed s \<or> fb)\<rparr>)" "ctx1 = ctx'"
        using Cons.prems(1) False slot poll Some by auto
      moreover note slackened_range [OF Cons.prems(3-6), of e slot nt]
      moreover have "name \<in> set target" using Cons.prems(2) by simp
      ultimately show ?thesis using slot
        by (auto intro: accepted_fromI [of name target w slot j])
    qed
  qed
qed

lemma dist_loop_cases:
  assumes "dist_loop e w lb target d ctx = (r, ctx')" "d \<le> 4" "1 \<le> min_dist lb"
    and "c_min_dist ctx = min_dist lb"
  shows "case r of None \<Rightarrow> \<exists>k. ctx' = ctx\<lparr>c_draws := k\<rparr>
     | Some sel \<Rightarrow> accepted_from e w (min_dist lb) target ctx sel ctx'"
  using assms
proof (induction d arbitrary: ctx)
  case 0
  then show ?case by (auto intro: same_draws)
next
  case (Suc d)
  show ?case
  proof (cases "Suc d < min_dist lb")
    case True
    with Suc.prems show ?thesis by (auto intro: same_draws)
  next
    case False
    obtain r1 ctx1 where poll: "local_target__poll e w lb target (Suc d) ctx = (r1, ctx1)"
      by (metis prod.collapse)
    note tl = target_loop_cases [OF poll [unfolded local_target__poll_def] _ _ Suc.prems(2-)]
    show ?thesis
    proof (cases r1)
      case None
      with tl False obtain k where k: "ctx1 = ctx\<lparr>c_draws := k\<rparr>" by auto
      have "dist_loop e w lb target d ctx1 = (r, ctx')" using Suc.prems(1) False poll None by simp
      from Suc.IH [OF this] Suc.prems k show ?thesis
        by (auto simp: accepted_from_draws split: option.splits)
    next
      case (Some s)
      with tl False Suc.prems(1) poll show ?thesis by auto
    qed
  qed
qed

section \<open>The state of a placement\<close>

definition new_items :: "lb_selected list \<Rightarrow> lb_item list" where
  "new_items sels = map (the \<circ> sel_item) (filter (\<lambda>s. sel_item s \<noteq> None) sels)"

lemma new_items_simps [simp]:
  "new_items [] = []"
  "new_items (sels @ [s]) = new_items sels @ (case sel_item s of None \<Rightarrow> [] | Some it \<Rightarrow> [it])"
  by (auto simp: new_items_def split: option.splits)

text \<open>A service of a slot of one of the targets, as the hook gets it.\<close>

definition served :: "lb_world \<Rightarrow> target list \<Rightarrow> lb_item \<Rightarrow> bool" where
  "served w targets it \<longleftrightarrow>
     (\<exists>t \<in> set targets. \<exists>name \<in> set t. \<exists>slot. get_slot w name = Some slot \<and>
        (\<exists>si \<in> set (slot_items slot). si_item si = it_id it)) \<and>
     (\<exists>it0. w_items w (it_id it) = Some it0 \<and> it = it0\<lparr>it_tls := []\<rparr>)"

definition limit_of :: "lb_pool \<Rightarrow> bool \<Rightarrow> nat \<Rightarrow> nat" where
  "limit_of lb fair level = unat ((if fair then fair_max_items lb else strict_max_items lb) ! level)"

definition at_key :: "nat \<Rightarrow> guint32 \<Rightarrow> oio_location list \<Rightarrow> nat" where
  "at_key level key locs = length (filter (\<lambda>l. key_from_loc_level l level = key) locs)"

lemma at_key_simps [simp]:
  "at_key level key [] = 0"
  "at_key level key (l # ls) = (if key_from_loc_level l level = key then 1 else 0) + at_key level key ls"
  "at_key level key (ls @ ls') = at_key level key ls + at_key level key ls'"
  by (auto simp: at_key_def)

lemma gdata_get_incr:
  assumes "level \<in> {1, 2, 3}"
  shows "gdata_get (level_datalist_incr_loc cs loc level) key
     = gdata_get (cs level) key + (if key \<noteq> 0 \<and> key_from_loc_level loc level = key then 1 else 0)"
  using assms by (auto simp: level_datalist_incr_loc_def gdata_get_def gdata_set_def Let_def)

lemma gdata_get_counters:
  assumes "level \<in> {1, 2, 3}" "key \<noteq> 0"
  shows "gdata_get (foldl level_datalist_incr_loc cs locs level) key
     = gdata_get (cs level) key + at_key level key locs"
  using assms by (induction locs arbitrary: cs) (auto simp: gdata_get_incr)

definition ctx_ok :: "lb_pool \<Rightarrow> oio_location list option \<Rightarrow> bool \<Rightarrow> polling_ctx \<Rightarrow> bool" where
  "ctx_ok lb avoids fair ctx \<longleftrightarrow>
     c_avoids ctx = avoids \<and> c_check_distance ctx \<and> c_min_dist ctx = min_dist lb \<and> c_max_dist ctx \<le> 4 \<and>
     c_strict_max_items ctx = strict_max_items lb \<and> c_fair_max_items ctx = fair_max_items lb \<and>
     c_force_fair ctx = fair"

lemma ctx_ok_update [simp]:
  "ctx_ok lb avoids fair (ctx\<lparr>c_polled := p\<rparr>) = ctx_ok lb avoids fair ctx"
  "ctx_ok lb avoids fair (ctx\<lparr>c_counters := cs\<rparr>) = ctx_ok lb avoids fair ctx"
  "ctx_ok lb avoids fair (ctx\<lparr>c_draws := k\<rparr>) = ctx_ok lb avoids fair ctx"
  "ctx_ok lb avoids fair (ctx\<lparr>c_next_polled := k\<rparr>) = ctx_ok lb avoids fair ctx"
  "ctx_ok lb avoids fair (ctx\<lparr>c_selection := sels\<rparr>) = ctx_ok lb avoids fair ctx"
  by (auto simp: ctx_ok_def)

lemma ctx_ok_limit: "ctx_ok lb avoids fair ctx \<Longrightarrow> limit ctx level = limit_of lb fair level"
  by (simp add: ctx_ok_def limit_def limit_of_def)

definition counters_ok :: "lb_pool \<Rightarrow> bool \<Rightarrow> oio_location list \<Rightarrow> lb_item list \<Rightarrow> (nat \<Rightarrow> gdata) \<Rightarrow> bool" where
  "counters_ok lb fair ks items cs \<longleftrightarrow>
     (\<forall>level \<in> {1, 2, 3}. \<forall>key. key \<noteq> 0 \<longrightarrow>
        gdata_get (cs level) key = at_key level key (ks @ map it_location items)) \<and>
     (\<forall>level \<in> {1, 2, 3}. \<forall>it \<in> set items. limit_of lb fair level \<noteq> 0 \<longrightarrow>
        gdata_get (cs level) (key_from_loc_level (it_location it) level) \<le> limit_of lb fair level)"

lemma counters_ok_incr:
  assumes "counters_ok lb fair ks items cs"
    and "\<forall>level \<in> {1, 2, 3}. limit_of lb fair level \<noteq> 0 \<longrightarrow>
       gdata_get (cs level) (key_from_loc_level (it_location it) level) < limit_of lb fair level"
  shows "counters_ok lb fair ks (items @ [it]) (level_datalist_incr_loc cs (it_location it))"
  unfolding counters_ok_def
proof (intro conjI ballI allI impI)
  fix level :: nat and key :: guint32 assume "level \<in> {1, 2, 3}" "key \<noteq> 0"
  then have "gdata_get (cs level) key = at_key level key (ks @ map it_location items)"
    using assms(1) unfolding counters_ok_def by blast
  with \<open>level \<in> {1, 2, 3}\<close> \<open>key \<noteq> 0\<close>
  show "gdata_get (level_datalist_incr_loc cs (it_location it) level) key
      = at_key level key (ks @ map it_location (items @ [it]))"
    by (simp add: gdata_get_incr del: insert_iff)
next
  fix level :: nat and it' assume l: "level \<in> {1, 2, 3}" "it' \<in> set (items @ [it])" "limit_of lb fair level \<noteq> 0"
  have "it' = it \<or> gdata_get (cs level) (key_from_loc_level (it_location it') level) \<le> limit_of lb fair level"
    using l assms(1) by (auto simp: counters_ok_def)
  moreover have "gdata_get (cs level) (key_from_loc_level (it_location it) level) < limit_of lb fair level"
    using l assms(2) by blast
  ultimately show "gdata_get (level_datalist_incr_loc cs (it_location it) level)
      (key_from_loc_level (it_location it') level) \<le> limit_of lb fair level"
    using l(1) by (auto simp: gdata_get_incr)
qed

text \<open>
  The polled locations are those of the selected services (\<open>P\<close>), the known ones that no target
  took (\<open>Q\<close>), and the zeros that end the array.
\<close>

definition known_part :: "lb_selected list \<Rightarrow> oio_location list \<Rightarrow> oio_location list" where
  "known_part sels P = map snd (filter (\<lambda>(s, p). sel_item s = None) (zip sels P))"

lemma known_part_append [simp]:
  "length sels = length P \<Longrightarrow>
     known_part (sels @ [s]) (P @ [p]) = known_part sels P @ (if sel_item s = None then [p] else [])"
  by (simp add: known_part_def)

definition spread :: "nat \<Rightarrow> (lb_selected \<times> oio_location) list \<Rightarrow> oio_location list \<Rightarrow> bool" where
  "spread d sps Q \<longleftrightarrow>
     sorted_wrt (\<lambda>sp sp'. sel_item (fst sp) \<noteq> None \<or> sel_item (fst sp') \<noteq> None \<longrightarrow> apart d (snd sp) (snd sp')) sps \<and>
     (\<forall>sp \<in> set sps. sel_item (fst sp) \<noteq> None \<longrightarrow> (\<forall>q \<in> set Q. apart d (snd sp) q))"

definition placed ::
  "lb_world \<Rightarrow> lb_pool \<Rightarrow> oio_location list option \<Rightarrow> oio_location list \<Rightarrow> bool \<Rightarrow> polling_ctx
     \<Rightarrow> oio_location list \<Rightarrow> oio_location list \<Rightarrow> nat \<Rightarrow> bool" where
  "placed w lb avoids ks fair ctx P Q r \<longleftrightarrow>
     ctx_ok lb avoids fair ctx \<and>
     c_polled ctx = P @ Q @ replicate (Suc r) 0 \<and> length P = length (c_selection ctx) \<and>
     c_next_polled ctx = length P \<and> 0 \<notin> set P \<union> set Q \<and>
     r + length P + length Q = length (p_targets lb) \<and>
     mset (known_part (c_selection ctx) P) + mset Q \<subseteq># mset ks \<and>
     list_all2 (\<lambda>s p. \<forall>it. sel_item s = Some it \<longrightarrow>
        p = it_location it \<and> p \<notin> avoided avoids \<and> served w (p_targets lb) it) (c_selection ctx) P \<and>
     spread (min_dist lb) (zip (c_selection ctx) P) Q \<and>
     counters_ok lb fair ks (new_items (c_selection ctx)) (c_counters ctx)"

lemma nonzero_part_ended: "0 \<notin> set P \<Longrightarrow> nonzero_part (P @ replicate (Suc r) 0) = P"
  by (induction P) (auto simp: nonzero_part_def)

lemma nonzero_part_placed:
  "0 \<notin> set P \<union> set Q \<Longrightarrow> nonzero_part (P @ Q @ replicate (Suc r) 0) = P @ Q"
  using nonzero_part_ended [of "P @ Q" r] by simp

lemma placed_init:
  assumes "0 \<notin> set ks" "length ks < length (p_targets lb)" "pool_ok lb"
  shows "placed w lb avoids ks fair (polling_ctx_init w lb avoids ks fair adj draws)
    [] ks (length (p_targets lb) - length ks)"
proof -
  have "takeWhile (\<lambda>l. l \<noteq> 0) (ks @ replicate (Suc (length (p_targets lb) - length ks)) 0) = ks"
    using nonzero_part_placed [of "[]" ks] assms(1) by (simp add: nonzero_part_def)
  moreover have "length (p_targets lb) + 1 - length ks = Suc (length (p_targets lb) - length ks)"
    using assms(2) by simp
  ultimately show ?thesis using assms
    by (simp add: placed_def polling_ctx_init_def Let_def ctx_ok_def pool_ok_def known_part_def spread_def
        counters_ok_def gdata_get_counters gdata_get_def [of "\<lambda>_. 0"] min_le_iff_disj del: replicate_Suc)
qed

section \<open>The steps of a placement\<close>

lemma known_loop_Some:
  assumes "known_loop w slot strict i xs = Some j"
  shows "i \<le> j \<and> j - i < length (nonzero_part xs)"
  using assms
  by (induction xs arbitrary: i) (fastforce simp: nonzero_part_def split: if_splits)+

lemma swap_first:
  assumes "j < length Q"
  shows "\<exists>q Q'. mset (q # Q') = mset Q \<and> swap_at (length P) (length P + j) (P @ Q @ Z) = P @ (q # Q') @ Z"
proof (cases j)
  case 0
  with assms show ?thesis by (cases Q) (auto simp: swap_at_def)
next
  case (Suc i)
  with assms obtain q Q' where Q: "Q = q # Q'" "i < length Q'" by (cases Q) auto
  have "mset ((Q' ! i) # Q'[i := q]) = mset Q"
    using Q by (simp add: mset_update)
  moreover have "swap_at (length P) (length P + j) (P @ Q @ Z) = P @ (Q' ! i # Q'[i := q]) @ Z"
    using Q Suc by (simp add: swap_at_def list_update_append nth_append)
  ultimately show ?thesis by blast
qed

definition takes_known ::
  "oio_location list \<Rightarrow> oio_location list \<Rightarrow> nat \<Rightarrow> polling_ctx \<Rightarrow> lb_selected \<Rightarrow> polling_ctx \<Rightarrow> bool" where
  "takes_known P Q z ctx sel ctx' \<longleftrightarrow>
     sel_item sel = None \<and> (\<exists>q Q'. mset (q # Q') = mset Q \<and>
         ctx' = ctx\<lparr>c_polled := P @ (q # Q') @ replicate (Suc z) 0\<rparr>)"

lemma takes_knownI:
  "sel_item sel = None \<Longrightarrow> mset (q # Q') = mset Q \<Longrightarrow>
     takes_known P Q z ctx sel (ctx\<lparr>c_polled := P @ (q # Q') @ replicate (Suc z) 0\<rparr>)"
  unfolding takes_known_def by blast

lemma satisfied_loop_cases:
  assumes "satisfied_loop w target strict names ctx = (r, ctx')"
    and "c_polled ctx = P @ Q @ replicate (Suc z) 0" "c_next_polled ctx = length P" "0 \<notin> set P \<union> set Q"
  shows "case r of None \<Rightarrow> ctx' = ctx
     | Some sel \<Rightarrow> takes_known P Q z ctx sel ctx'"
  using assms(1)
proof (induction names)
  case (Cons name names)
  have rest: "nonzero_part (drop (c_next_polled ctx) (c_polled ctx)) = Q"
    using assms(2-4) nonzero_part_ended [of Q z] by simp
  show ?case
  proof (cases "name = [] \<or> get_slot w name = None")
    case False
    then obtain slot where slot: "get_slot w name = Some slot" by auto
    show ?thesis
    proof (cases "known_loop w slot strict (c_next_polled ctx) (drop (c_next_polled ctx) (c_polled ctx))")
      case (Some i)
      with known_loop_Some [OF Some] rest assms(3) obtain j where j: "i = length P + j" "j < length Q"
        by (metis le_add_diff_inverse)
      from swap_first [OF j(2), of P "replicate (Suc z) 0"] obtain q Q' where
        q: "mset (q # Q') = mset Q"
          "swap_at (length P) (length P + j) (P @ Q @ replicate (Suc z) 0) = P @ (q # Q') @ replicate (Suc z) 0"
        by blast
      have "r = Some ((item_select None)\<lparr>expected_slot := hd target, final_slot := name\<rparr>)"
        "ctx' = ctx\<lparr>c_polled := P @ (q # Q') @ replicate (Suc z) 0\<rparr>"
        using Cons.prems False slot Some j(1) assms(2,3) q(2) by (simp_all del: replicate_Suc)
      with takes_knownI [OF _ q(1)] show ?thesis by (simp add: item_select_def del: replicate_Suc)
    qed (use Cons False slot in \<open>auto split: if_splits\<close>)
  qed (use Cons in \<open>auto split: if_splits\<close>)
qed simp

lemma is_satisfied_cases:
  assumes "local_target__is_satisfied w target strict ctx = (r, ctx')" "placed w lb avoids ks fair ctx P Q z"
  shows "case r of None \<Rightarrow> ctx' = ctx
     | Some sel \<Rightarrow> takes_known P Q z ctx sel ctx'"
proof -
  from assms(2) have p: "c_polled ctx = P @ Q @ replicate (Suc z) 0" "c_next_polled ctx = length P"
    "0 \<notin> set P \<union> set Q" by (simp_all add: placed_def)
  show ?thesis
  proof (cases "c_polled ctx ! c_next_polled ctx = 0")
    case False
    with p obtain q Q' where Q: "Q = q # Q'" by (cases Q) (auto simp: nth_append)
    have self: "ctx\<lparr>c_polled := P @ (q # Q') @ replicate (Suc z) 0\<rparr> = ctx" using p(1) Q by simp
    show ?thesis
    proof (cases "hd target = OIO_LB_JOKER_SVC_TARGET")
      case True
      with assms(1) False have "r = Some ((item_select None)\<lparr>expected_slot := hd target\<rparr>)" "ctx' = ctx"
        by (simp_all add: local_target__is_satisfied_def)
      with takes_knownI [of "(item_select None)\<lparr>expected_slot := hd target\<rparr>" q Q' Q P z ctx] self Q
      show ?thesis by (simp add: item_select_def del: replicate_Suc)
    next
      case False
      with assms(1) \<open>c_polled ctx ! c_next_polled ctx \<noteq> 0\<close>
      have "satisfied_loop w target strict target ctx = (r, ctx')" by (simp add: local_target__is_satisfied_def)
      from satisfied_loop_cases [OF this p] show ?thesis .
    qed
  qed (use assms(1) in \<open>simp add: local_target__is_satisfied_def\<close>)
qed

lemma placed_known:
  assumes "placed w lb avoids ks fair ctx P Q z" "takes_known P Q z ctx sel ctx'"
  shows "\<exists>q Q'. placed w lb avoids ks fair (push_selected sel ctx') (P @ [q]) Q' z"
proof -
  from assms(2) obtain q Q' where q: "sel_item sel = None" "mset (q # Q') = mset Q"
    "ctx' = ctx\<lparr>c_polled := P @ (q # Q') @ replicate (Suc z) 0\<rparr>" by (auto simp: takes_known_def)
  have s: "set Q = insert q (set Q')" "length Q = Suc (length Q')"
    using mset_eq_setD [OF q(2)] mset_eq_length [OF q(2)] by simp_all
  from assms(1) have l: "length (c_selection ctx) = length P" by (simp add: placed_def)
  from assms(1) q(1) have "placed w lb avoids ks fair (push_selected sel ctx') (P @ [q]) Q' z"
    by (auto simp: placed_def s l q(3) push_selected_def spread_def sorted_wrt_append
        list_all2_append simp flip: q(2) simp del: replicate_Suc)
  then show ?thesis by blast
qed

lemma write_next:
  fixes loc :: oio_location
  assumes "z + length P + length Q = n" "length P < n"
  obtains Q' z' where "(P @ Q @ replicate (Suc z) 0)[length P := loc] = (P @ [loc]) @ Q' @ replicate (Suc z') 0"
    and "set Q' \<subseteq> set Q" "mset Q' \<subseteq># mset Q" "z' + Suc (length P) + length Q' = n"
proof (cases Q)
  case Nil
  then obtain z' where "z = Suc z'" using assms by (cases z) auto
  with Nil assms that [of "[]" z'] show thesis by (simp add: list_update_append)
next
  case (Cons q Q')
  with assms that [of Q' z] show thesis by (auto simp: list_update_append subset_mset.add_increasing)
qed

lemma served_item:
  assumes "world_ok w" "t \<in> set targets" "name \<in> set t" "get_slot w name = Some slot"
    and "j < length (slot_items slot)"
  defines "si \<equiv> slot_items slot ! j"
  obtains it0 where "w_items w (si_item si) = Some it0" "loc_of w si = it_location it0" "it_location it0 \<noteq> 0"
    "served w targets (it0\<lparr>it_tls := []\<rparr>)"
proof -
  have si: "si \<in> set (slot_items slot)" using assms(5) by (simp add: si_def)
  with assms(1,4) obtain it0 where it0: "w_items w (si_item si) = Some it0" "it_id it0 = si_item si" "it_location it0 \<noteq> 0"
    unfolding world_ok_def by blast
  moreover have "loc_of w si = it_location it0" using it0(1) by (simp add: loc_of_def)
  moreover have "served w targets (it0\<lparr>it_tls := []\<rparr>)" unfolding served_def
    using assms(2-4) si it0(1,2) by auto
  ultimately show thesis using that by blast
qed

lemma spread_snoc:
  assumes "spread d sps Q" "set Q' \<subseteq> set Q" "\<forall>x \<in> snd ` set sps \<union> set Q. apart d x p"
  shows "spread d (sps @ [(s, p)]) Q'"
proof -
  have "\<forall>q \<in> set Q'. apart d p q" using assms(2,3) apart_sym by blast
  moreover have "\<forall>sp \<in> set sps. sel_item (fst sp) \<noteq> None \<longrightarrow> (\<forall>q \<in> set Q'. apart d (snd sp) q)"
    using assms(1,2) unfolding spread_def by blast
  moreover have "\<forall>sp \<in> set sps. apart d (snd sp) p" using assms(3) by blast
  ultimately show ?thesis using assms(1) by (simp add: spread_def sorted_wrt_append)
qed

lemma placed_new:
  assumes p: "placed w lb avoids ks fair ctx P Q z" and a: "accepted_from e w (min_dist lb) t ctx sel ctx'"
    and "t \<in> set (p_targets lb)" "world_ok w" "pool_ok lb" "length P < length (p_targets lb)"
  shows "\<exists>q Q' z'. placed w lb avoids ks fair (push_selected sel ctx') (P @ [q]) Q' z'"
proof -
  from a obtain name slot d k j sel0 where a: "name \<in> set t" "get_slot w name = Some slot"
    "j < length (slot_items slot)" "min_dist lb \<le> d" "d \<le> 4"
    and acc: "accept_item e w slot d (ctx\<lparr>c_draws := k\<rparr>) j = Some (sel0, ctx')"
    and sel: "sel_item sel = sel_item sel0" by (auto simp: accepted_from_def)
  from served_item [OF assms(4,3) a(1-3)] obtain it0 where
    it0: "w_items w (si_item (slot_items slot ! j)) = Some it0" "loc_of w (slot_items slot ! j) = it_location it0"
      "it_location it0 \<noteq> 0" "served w (p_targets lb) (it0\<lparr>it_tls := []\<rparr>)" by blast
  define it where "it = it0\<lparr>it_tls := []\<rparr>"
  have loc: "loc_of w (slot_items slot ! j) = it_location it" using it0(2) by (simp add: it_def)
  from p have ctx: "ctx_ok lb avoids fair ctx" "c_polled ctx = P @ Q @ replicate (Suc z) 0"
    "c_next_polled ctx = length P" "0 \<notin> set P \<union> set Q" and l: "length (c_selection ctx) = length P"
    and n: "z + length P + length Q = length (p_targets lb)" by (simp_all add: placed_def)
  have "c_check_distance (ctx\<lparr>c_draws := k\<rparr>)" "1 \<le> d" using ctx(1) assms(5) a(4) by (auto simp: ctx_ok_def pool_ok_def)
  note acc = accept_item_Some [OF acc this a(5), unfolded loc]
  from acc(5) it0(1) sel have item: "sel_item sel = Some it" by (simp add: it_def)
  have avoid: "it_location it \<notin> avoided avoids" using acc(1) ctx(1) by (simp add: ctx_ok_def)
  have far: "\<forall>x \<in> set P \<union> set Q. apart (min_dist lb) x (it_location it)"
    using acc(2) nonzero_part_placed [OF ctx(4), of z] a(4) ctx(2)
    by (auto simp del: replicate_Suc intro: apart_less apart_sym)
  have "limit (ctx\<lparr>c_draws := k\<rparr>) level = limit_of lb fair level" for level
    using ctx_ok_limit [of lb avoids fair "ctx\<lparr>c_draws := k\<rparr>"] ctx(1) by simp
  with acc(3) p have cnt: "counters_ok lb fair ks (new_items (c_selection ctx) @ [it])
      (level_datalist_incr_loc (c_counters ctx) (it_location it))"
    by (intro counters_ok_incr) (simp_all add: placed_def)
  from write_next [OF n assms(6), of "it_location it"] obtain Q' z' where
    w: "(P @ Q @ replicate (Suc z) 0)[length P := it_location it] = (P @ [it_location it]) @ Q' @ replicate (Suc z') 0"
      "set Q' \<subseteq> set Q" "mset Q' \<subseteq># mset Q" "z' + Suc (length P) + length Q' = length (p_targets lb)" .
  have "mset (known_part (c_selection ctx) P) + mset Q' \<subseteq># mset (known_part (c_selection ctx) P) + mset Q"
    using w(3) by simp
  with p have known: "mset (known_part (c_selection ctx) P) + mset Q' \<subseteq># mset ks"
    unfolding placed_def by (meson subset_mset.order_trans)
  have spread: "spread (min_dist lb) (zip (c_selection ctx) P @ [(sel, it_location it)]) Q'"
  proof (rule spread_snoc)
    show "spread (min_dist lb) (zip (c_selection ctx) P) Q" using p by (simp add: placed_def)
    show "\<forall>x \<in> snd ` set (zip (c_selection ctx) P) \<union> set Q. apart (min_dist lb) x (it_location it)"
      using far by (auto dest: set_zip_rightD)
  qed (rule w(2))
  have "placed w lb avoids ks fair (push_selected sel ctx') (P @ [it_location it]) Q' z'"
    using p ctx w(1,2,4) known spread cnt item avoid it0(3,4) l unfolding placed_def
    by (auto simp: acc(4) push_selected_def it_def [symmetric] list_all2_append simp del: replicate_Suc) (auto simp: it_def)
  then show ?thesis by blast
qed

lemma match_known_placed:
  assumes "match_known_services_with_targets w ts ctx = (us, ctx')" "placed w lb avoids ks fair ctx P Q z"
  shows "\<exists>P' Q' z'. placed w lb avoids ks fair ctx' P' Q' z' \<and>
     length P' + length us = length P + length ts \<and> set us \<subseteq> set ts"
  using assms
proof (induction ts arbitrary: ctx us P Q z)
  case (Cons t ts)
  obtain r ctx1 where sat: "local_target__is_satisfied w t True ctx = (r, ctx1)" by (metis prod.collapse)
  show ?case
  proof (cases r)
    case None
    with is_satisfied_cases [OF sat Cons.prems(2)] have "ctx1 = ctx" by simp
    with Cons.prems(1) sat None obtain us1 where
      us: "match_known_services_with_targets w ts ctx = (us1, ctx')" "us = t # us1"
      by (auto split: prod.splits)
    from Cons.IH [OF us(1) Cons.prems(2)] us(2) show ?thesis by fastforce
  next
    case (Some sel)
    with is_satisfied_cases [OF sat Cons.prems(2)] have "takes_known P Q z ctx sel ctx1" by simp
    from placed_known [OF Cons.prems(2) this] obtain q Q' where
      p: "placed w lb avoids ks fair (push_selected sel ctx1) (P @ [q]) Q' z" by blast
    have "match_known_services_with_targets w ts (push_selected sel ctx1) = (us, ctx')"
      using Cons.prems(1) sat Some by simp
    from Cons.IH [OF this p] show ?thesis by fastforce
  qed
qed auto

lemma patch_loop_placed:
  assumes "patch_loop e w lb ts ctx = (None, ctx')" "placed w lb avoids ks fair ctx P Q z"
    and "length P + length ts = length (p_targets lb)" "set ts \<subseteq> set (p_targets lb)" "world_ok w" "pool_ok lb"
  shows "\<exists>P' Q' z'. placed w lb avoids ks fair ctx' P' Q' z' \<and> length P' = length (p_targets lb)"
  using assms(1-4)
proof (induction ts arbitrary: ctx P Q z)
  case Nil
  then show ?case by auto
next
  case (Cons t ts)
  obtain r ctx1 where sat: "local_target__is_satisfied w t False ctx = (r, ctx1)" by (metis prod.collapse)
  show ?case
  proof (cases r)
    case None
    with is_satisfied_cases [OF sat Cons.prems(2)] have [simp]: "ctx1 = ctx" by simp
    obtain r2 ctx2 where dl: "dist_loop e w lb t (c_max_dist ctx) ctx = (r2, ctx2)" by (metis prod.collapse)
    with Cons.prems(1) sat None obtain sel where sel: "r2 = Some sel"
      "patch_loop e w lb ts (push_selected sel ctx2) = (None, ctx')" by (auto split: option.splits)
    have "c_max_dist ctx \<le> 4" "c_min_dist ctx = min_dist lb" using Cons.prems(2) by (simp_all add: placed_def ctx_ok_def)
    with dist_loop_cases [OF dl] assms(6) sel(1) have "accepted_from e w (min_dist lb) t ctx sel ctx2"
      by (simp add: pool_ok_def)
    from placed_new [OF Cons.prems(2) this _ assms(5,6)] Cons.prems(3,4) obtain q Q' z' where
      "placed w lb avoids ks fair (push_selected sel ctx2) (P @ [q]) Q' z'" by auto
    from Cons.IH [OF sel(2) this] Cons.prems(3,4) show ?thesis by auto
  next
    case (Some sel)
    with is_satisfied_cases [OF sat Cons.prems(2)] have "takes_known P Q z ctx sel ctx1" by simp
    from placed_known [OF Cons.prems(2) this] obtain q Q' where
      p: "placed w lb avoids ks fair (push_selected sel ctx1) (P @ [q]) Q' z" by blast
    have "patch_loop e w lb ts (push_selected sel ctx1) = (None, ctx')"
      using Cons.prems(1) sat Some by simp
    from Cons.IH [OF this p] Cons.prems(3,4) show ?thesis by auto
  qed
qed

section \<open>The contract\<close>

text \<open>
  What a set of services must be, given the services to avoid, the known ones, and which of the two
  sets of limits holds.
\<close>

definition placement_ok ::
  "lb_world \<Rightarrow> lb_pool \<Rightarrow> oio_location list option \<Rightarrow> oio_location list \<Rightarrow> bool \<Rightarrow> lb_item list \<Rightarrow> bool" where
  "placement_ok w lb avoids ks fair items \<longleftrightarrow>
     length items \<le> length (p_targets lb) \<and> length (p_targets lb) \<le> length items + length ks \<and>
     (\<forall>it \<in> set items. served w (p_targets lb) it \<and> it_location it \<notin> avoided avoids) \<and>
     distinct (map it_id items) \<and>
     sorted_wrt (\<lambda>a b. min_dist lb \<le> dist_value (oio_location_distance (it_location a) (it_location b))) items \<and>
     (length items + length ks = length (p_targets lb) \<longrightarrow>
        (\<forall>it \<in> set items. \<forall>k \<in> set ks. min_dist lb \<le> dist_value (oio_location_distance (it_location it) k))) \<and>
     (\<forall>level \<in> {1, 2, 3}. \<forall>it \<in> set items.
        let key = key_from_loc_level (it_location it) level in
        limit_of lb fair level \<noteq> 0 \<longrightarrow> key \<noteq> 0 \<longrightarrow>
        at_key level key (ks @ map it_location items) \<le> limit_of lb fair level)"

lemma set_new_items: "set (new_items sels) = {it. \<exists>s \<in> set sels. sel_item s = Some it}"
  by (force simp: new_items_def)

lemma new_items_Cons: "new_items (s # sels) = (case sel_item s of None \<Rightarrow> [] | Some it \<Rightarrow> [it]) @ new_items sels"
  by (auto simp: new_items_def split: option.splits)

lemma spread_items:
  assumes "sorted_wrt (\<lambda>sp sp'. sel_item (fst sp) \<noteq> None \<or> sel_item (fst sp') \<noteq> None \<longrightarrow> apart d (snd sp) (snd sp')) (zip sels P)"
    and "list_all2 (\<lambda>s p. \<forall>it. sel_item s = Some it \<longrightarrow> p = it_location it) sels P"
  shows "sorted_wrt (\<lambda>a b. apart d (it_location a) (it_location b)) (new_items sels)"
    and "\<forall>it \<in> set (new_items sels). \<forall>k \<in> set (known_part sels P). apart d (it_location it) k"
    and "length (new_items sels) + length (known_part sels P) = length P"
proof -
  from assms(2) have "length sels = length P" by (rule list_all2_lengthD)
  from this assms have "sorted_wrt (\<lambda>a b. apart d (it_location a) (it_location b)) (new_items sels) \<and>
      (\<forall>it \<in> set (new_items sels). \<forall>k \<in> set (known_part sels P). apart d (it_location it) k) \<and>
      length (new_items sels) + length (known_part sels P) = length P"
  proof (induction sels P rule: list_induct2)
    case Nil
    then show ?case by (simp add: known_part_def)
  next
    case (Cons s sels p P)
    from Cons.prems(2) have "list_all2 (\<lambda>s p. \<forall>it. sel_item s = Some it \<longrightarrow> p = it_location it) sels P" by simp
    note locs = this [unfolded list_all2_iff]
    have all: "\<forall>it \<in> set (new_items sels). (\<exists>s'. (s', it_location it) \<in> set (zip sels P) \<and> sel_item s' = Some it)"
    proof
      fix it assume "it \<in> set (new_items sels)"
      then obtain i where "i < length sels" "sel_item (sels ! i) = Some it"
        by (auto simp: set_new_items in_set_conv_nth)
      moreover from this Cons.hyps have "(sels ! i, P ! i) \<in> set (zip sels P)" by (auto simp: set_zip)
      ultimately show "\<exists>s'. (s', it_location it) \<in> set (zip sels P) \<and> sel_item s' = Some it"
        using locs by fastforce
    qed
    have known: "\<forall>k \<in> set (known_part sels P). \<exists>s'. (s', k) \<in> set (zip sels P)"
      by (auto simp: known_part_def)
    have ih: "sorted_wrt (\<lambda>a b. apart d (it_location a) (it_location b)) (new_items sels)"
      "\<forall>it \<in> set (new_items sels). \<forall>k \<in> set (known_part sels P). apart d (it_location it) k"
      "length (new_items sels) + length (known_part sels P) = length P" using Cons by simp_all
    have head: "apart d p p'" if "(s', p') \<in> set (zip sels P)" "sel_item s \<noteq> None \<or> sel_item s' \<noteq> None" for s' p'
      using Cons.prems(1) that by fastforce
    show ?case
    proof (cases "sel_item s")
      case None
      have "\<forall>it \<in> set (new_items sels). apart d (it_location it) p"
        using all head apart_sym by (metis option.distinct(1))
      with ih None show ?thesis by (simp add: new_items_Cons known_part_def)
    next
      case (Some it)
      with Cons.prems(2) have p: "p = it_location it" by simp
      have "\<forall>it' \<in> set (new_items sels). apart d p (it_location it')" "\<forall>k \<in> set (known_part sels P). apart d p k"
        using all known head Some by blast+
      with ih Some p show ?thesis by (simp add: new_items_Cons known_part_def)
    qed
  qed
  then show "sorted_wrt (\<lambda>a b. apart d (it_location a) (it_location b)) (new_items sels)"
    and "\<forall>it \<in> set (new_items sels). \<forall>k \<in> set (known_part sels P). apart d (it_location it) k"
    and "length (new_items sels) + length (known_part sels P) = length P" by blast+
qed

lemma served_same_id: "served w ts a \<Longrightarrow> served w ts b \<Longrightarrow> it_id a = it_id b \<Longrightarrow> a = b"
  unfolding served_def by (metis option.inject)

lemma apart_distinct: "sorted_wrt (\<lambda>a b. apart d (it_location a) (it_location b)) xs \<Longrightarrow> distinct xs"
  by (induction xs) (auto dest: apart_differ)

lemma placed_complete:
  assumes "placed w lb avoids ks fair ctx P Q z" "length P = length (p_targets lb)" "pool_ok lb"
  shows "placement_ok w lb avoids ks fair (new_items (c_selection ctx))"
proof -
  let ?items = "new_items (c_selection ctx)" and ?known = "known_part (c_selection ctx) P"
  from assms(1) have all2: "list_all2 (\<lambda>s p. \<forall>it. sel_item s = Some it \<longrightarrow>
      p = it_location it \<and> p \<notin> avoided avoids \<and> served w (p_targets lb) it) (c_selection ctx) P"
    and sp: "spread (min_dist lb) (zip (c_selection ctx) P) Q"
    and known: "mset ?known + mset Q \<subseteq># mset ks"
    and cnt: "counters_ok lb fair ks ?items (c_counters ctx)" by (simp_all add: placed_def)
  from all2 have "list_all2 (\<lambda>s p. \<forall>it. sel_item s = Some it \<longrightarrow> p = it_location it) (c_selection ctx) P"
    by (rule list_all2_mono) blast
  note items = spread_items [OF sp [unfolded spread_def, THEN conjunct1] this]
  have dist: "apart (min_dist lb) a b \<longleftrightarrow> min_dist lb \<le> dist_value (oio_location_distance a b)" for a b
    using apart_distance assms(3) by (simp add: pool_ok_def)
  have each: "\<forall>it \<in> set ?items. served w (p_targets lb) it \<and> it_location it \<notin> avoided avoids"
    using all2 by (fastforce simp: set_new_items list_all2_conv_all_nth in_set_conv_nth)
  from items(1) have "distinct ?items" by (rule apart_distinct)
  moreover have "inj_on it_id (set ?items)" using each served_same_id by (blast intro: inj_onI)
  ultimately have ids: "distinct (map it_id ?items)" by (simp add: distinct_map)
  have sub: "mset ?known \<subseteq># mset ks" using known by (meson mset_subset_eq_add_left subset_mset.order_trans)
  then have le: "length ?known \<le> length ks" using size_mset_mono by fastforce
  have full: "set ks \<subseteq> set ?known" if "length ?items + length ks = length (p_targets lb)"
  proof -
    have "size (mset ?known) = size (mset ks)" using that items(3) assms(2) by simp
    with sub have "mset ?known = mset ks" by (metis mset_subset_size subset_mset.le_imp_less_or_eq less_irrefl)
    then show ?thesis by (metis mset_eq_setD order_refl)
  qed
  have lim: "at_key level key (ks @ map it_location ?items) \<le> limit_of lb fair level"
    if "level \<in> {1, 2, 3}" "it \<in> set ?items" "limit_of lb fair level \<noteq> 0" "key \<noteq> 0"
      "key = key_from_loc_level (it_location it) level" for level it key
    using cnt that unfolding counters_ok_def by metis
  have "sorted_wrt (\<lambda>a b. min_dist lb \<le> dist_value (oio_location_distance (it_location a) (it_location b))) ?items"
    using items(1) by (simp add: dist)
  moreover have "\<forall>it \<in> set ?items. \<forall>k \<in> set ks. min_dist lb \<le> dist_value (oio_location_distance (it_location it) k)"
    if "length ?items + length ks = length (p_targets lb)"
    using items(2) full [OF that] dist by blast
  moreover have "length ?items \<le> length (p_targets lb)" "length (p_targets lb) \<le> length ?items + length ks"
    using items(3) assms(2) le by linarith+
  ultimately show ?thesis using each ids lim unfolding placement_ok_def Let_def by blast
qed

definition known_list :: "oio_location list option \<Rightarrow> oio_location list" where
  "known_list known = (case known of None \<Rightarrow> [] | Some k \<Rightarrow> takeWhile (\<lambda>l. l \<noteq> 0) k)"

lemma set_dists_item [simp]: "sel_item (set_dists e lb ctx i s) = sel_item s"
  by (simp add: set_dists_def Let_def split: option.split)

lemma new_items_filter [simp]: "new_items (filter (\<lambda>s. sel_item s \<noteq> None) sels) = new_items sels"
  by (simp add: new_items_def)

lemma new_items_dists:
  "new_items (map (\<lambda>(i, s). set_dists e lb ctx i s) (zip [0..<length sels] sels)) = new_items sels"
  by (induction sels rule: rev_induct) simp_all

lemma patch_once_placement:
  assumes "world_ok w" "pool_ok lb" "pr_err (local__patch_once e w lb avoids known fair adj draws) = None"
  shows "placement_ok w lb avoids (known_list known) fair
    (new_items (pr_items (local__patch_once e w lb avoids known fair adj draws)))"
proof -
  let ?ks = "known_list known"
  have lt: "length ?ks < length (p_targets lb)"
    using assms(3) by (auto simp: local__patch_once_def known_list_def Let_def split: if_splits)
  have nz: "0 \<notin> set ?ks" by (auto simp: known_list_def dest: set_takeWhileD split: option.splits)
  let ?ctx0 = "polling_ctx_init w lb avoids ?ks fair adj draws"
  obtain us ctx1 where m: "match_known_services_with_targets w (p_targets lb) ?ctx0 = (us, ctx1)" by (metis prod.collapse)
  obtain err ctx2 where l: "patch_loop e w lb us ctx1 = (err, ctx2)" by (metis prod.collapse)
  from lt m l assms(3) have err: "err = None"
    by (simp add: local__patch_once_def Let_def flip: known_list_def)
  have items: "new_items (pr_items (local__patch_once e w lb avoids known fair adj draws)) = new_items (c_selection ctx2)"
    using lt m l new_items_dists [of e lb ctx2 "c_selection ctx2"]
    by (simp add: local__patch_once_def Let_def err new_items_filter [unfolded not_None_eq] flip: known_list_def)
  from match_known_placed [OF m placed_init [OF nz lt assms(2)]] obtain P Q z where
    p: "placed w lb avoids ?ks fair ctx1 P Q z" "length P + length us = length (p_targets lb)"
      "set us \<subseteq> set (p_targets lb)" by auto
  from patch_loop_placed [OF l [unfolded err] p assms(1,2)] placed_complete [OF _ _ assms(2)]
  show ?thesis unfolding items by blast
qed

lemma patch_placement:
  assumes "world_ok w" "pool_ok lb"
    and "pr_err (local__patch e w lb avoids known force_fair adjacent draws) = None"
  shows "\<exists>fair. (fair = force_fair \<or> fair \<and> try_fair_constraints_first e) \<and>
     placement_ok w lb avoids (known_list known) fair
       (new_items (pr_items (local__patch e w lb avoids known force_fair adjacent draws)))"
proof -
  let ?fairly = "try_fair_constraints_first e \<and> \<not> force_fair \<and> fair_max_items lb ! 0 \<noteq> 0"
  let ?r = "local__patch_once e w lb avoids known True adjacent draws"
  show ?thesis
  proof (cases "?fairly \<and> pr_err ?r = None")
    case True
    then have "local__patch e w lb avoids known force_fair adjacent draws = ?r" by (simp add: local__patch_def)
    with patch_once_placement [OF assms(1,2), of e avoids known True adjacent draws] True show ?thesis
      by (intro exI [of _ True]) simp
  next
    case False
    then obtain draws' where "local__patch e w lb avoids known force_fair adjacent draws
        = local__patch_once e w lb avoids known force_fair adjacent draws'"
      unfolding local__patch_def Let_def by (metis (full_types))
    with patch_once_placement [OF assms(1,2), of e avoids known force_fair adjacent draws'] assms(3)
    show ?thesis by auto
  qed
qed

end
