(* ===== verification/Lb_World.thy ===== *)
theory Lb_World
  imports Lb_Search "HOL-Library.Multiset"
begin

text \<open>
  The world of the load balancer over any history of feeds, purges and rehashes: the slots refer to
  services the world owns, the counts of references are exact, and a purge leaves what the current
  generation has fed.
\<close>

section \<open>The tree of the slots\<close>

definition names_ok :: "(string \<times> 'a) list \<Rightarrow> bool" where
  "names_ok t \<longleftrightarrow> sorted_wrt (\<lambda>a b. g_strcmp a b < 0) (map fst t)"

lemma names_ok_append [simp]:
  "names_ok (xs @ ys) \<longleftrightarrow> names_ok xs \<and> names_ok ys \<and> (\<forall>x \<in> set xs. \<forall>y \<in> set ys. g_strcmp (fst x) (fst y) < 0)"
  by (simp add: names_ok_def sorted_wrt_append)

lemma names_ok_Cons [simp]:
  "names_ok (x # xs) \<longleftrightarrow> names_ok xs \<and> (\<forall>y \<in> set xs. g_strcmp (fst x) (fst y) < 0)"
  by (auto simp: names_ok_def)

lemma names_ok_Nil [simp]: "names_ok []"
  by (simp add: names_ok_def)

lemma g_strcmp_less_asym: "g_strcmp a b < 0 \<Longrightarrow> a \<noteq> b \<and> \<not> g_strcmp b a < 0"
  using g_strcmp_swap [of a b] by auto

lemma tree_replace_existing:
  "names_ok (xs @ (k, u) # ys) \<Longrightarrow> tree_replace k v (xs @ (k, u) # ys) = xs @ (k, v) # ys"
  by (induction xs) (auto dest: g_strcmp_less_asym)

lemma tree_replace_new:
  assumes "names_ok t" "k \<notin> fst ` set t"
  shows "\<exists>xs ys. t = xs @ ys \<and> tree_replace k v t = xs @ (k, v) # ys \<and> names_ok (xs @ (k, v) # ys)"
  using assms
proof (induction t)
  case (Cons x t)
  obtain j u where x: "x = (j, u)" by force
  show ?case
  proof (cases "g_strcmp k j < 0")
    case True
    have "\<forall>y \<in> set t. g_strcmp k (fst y) < 0"
      using Cons.prems(1) x g_strcmp_trans [OF True] by simp
    with True Cons.prems x show ?thesis
      by (intro exI [of _ "[]"] exI [of _ "x # t"]) simp
  next
    case False
    with Cons.prems x have lt: "g_strcmp j k < 0" using g_strcmp_swap [of j k] g_strcmp_eq_0 [of k j] by auto
    from Cons obtain xs ys where
      "t = xs @ ys" "tree_replace k v t = xs @ (k, v) # ys" "names_ok (xs @ (k, v) # ys)" by auto
    with False Cons.prems x lt show ?thesis
      by (intro exI [of _ "x # xs"] exI [of _ ys]) auto
  qed
qed auto

lemma names_ok_map: "map fst t' = map fst t \<Longrightarrow> names_ok t' = names_ok t"
  by (simp add: names_ok_def)

section \<open>References to the services\<close>

definition item_refs :: "slot_item list \<Rightarrow> string multiset" where
  "item_refs items = mset (map si_item items)"

definition slot_refs :: "lb_slot \<Rightarrow> string multiset" where
  "slot_refs slot = item_refs (slot_items slot) + item_refs (zero_scored_items slot)"

definition tree_refs :: "(string \<times> lb_slot) list \<Rightarrow> string multiset" where
  "tree_refs slots = sum_list (map (slot_refs \<circ> snd) slots)"

lemma tree_refs_simps [simp]:
  "tree_refs [] = {#}" "tree_refs ((n, s) # slots) = slot_refs s + tree_refs slots"
  "tree_refs (xs @ ys) = tree_refs xs + tree_refs ys"
  by (simp_all add: tree_refs_def)

text \<open>
  The services by identifier, with the references \<open>R\<close> to them: each one is under its own
  identifier, its count of references is that of \<open>R\<close> (on 16 bits), and \<open>R\<close> has no other.
\<close>

definition owned :: "string multiset \<Rightarrow> lb_world \<Rightarrow> bool" where
  "owned R w \<longleftrightarrow>
     (\<forall>x it. w_items w x = Some it \<longrightarrow>
        it_id it = x \<and> it_location it \<noteq> 0 \<and> w_refcount w x = of_nat (count R x)) \<and>
     (\<forall>x. x \<in># R \<longrightarrow> w_items w x \<noteq> None)"

definition world_inv :: "lb_world \<Rightarrow> bool" where
  "world_inv w \<longleftrightarrow> names_ok (w_slots w) \<and> owned (tree_refs (w_slots w)) w"

lemma item_refs_simps [simp]:
  "item_refs [] = {#}" "item_refs (x # xs) = add_mset (si_item x) (item_refs xs)"
  "item_refs (xs @ ys) = item_refs xs + item_refs ys"
  by (simp_all add: item_refs_def)

lemma item_refs_update [simp]:
  assumes "i < length xs" "si_item si = si_item (xs ! i)"
  shows "item_refs (xs[i := si]) = item_refs xs"
proof -
  have "map si_item (xs[i := si]) = (map si_item xs)[i := map si_item xs ! i]"
    using assms by (simp add: map_update)
  then show ?thesis by (simp only: item_refs_def list_update_id)
qed

lemma mset_remove_index:
  assumes "i < length xs"
  shows "mset xs = add_mset (xs ! i) (mset (remove_index_fast i xs))"
proof (cases "i = length xs - 1")
  case True
  with assms show ?thesis
    by (cases xs rule: rev_cases) (auto simp: remove_index_fast_def nth_append)
next
  case False
  with assms obtain ys y where xs: "xs = ys @ [y]" "i < length ys" by (cases xs rule: rev_cases) auto
  then have "remove_index_fast i xs = ys[i := y]"
    by (simp add: remove_index_fast_def list_update_append)
  with xs show ?thesis by (simp add: mset_update nth_append)
qed

lemma item_refs_remove:
  "i < length xs \<Longrightarrow> item_refs xs = add_mset (si_item (xs ! i)) (item_refs (remove_index_fast i xs))"
  using mset_remove_index [of i xs] by (simp add: item_refs_def)

lemma item_refs_sort [simp]: "item_refs (sort_key f xs) = item_refs xs"
  by (simp add: item_refs_def)

lemma accumulate_items: "accumulate w s xs = (s', xs') \<Longrightarrow> item_refs xs' = item_refs xs"
  by (induction w s xs arbitrary: s' xs' rule: accumulate.induct) (auto simp: Let_def split: prod.splits)

lemma slot_refs_rehash [simp]: "slot_refs (slot_rehash w slot) = slot_refs slot"
  by (simp add: slot_rehash_def slot_refs_def rehash_order_def rehash_weights_def rehash_zero_scored_def
      rehash_jump_def Let_def split: prod.split option.split) (auto dest: accumulate_items)

lemma index_of_bound: "index_of x i xs = Some j \<Longrightarrow> i \<le> j \<and> j < i + length xs \<and> si_item (xs ! (j - i)) = x"
  by (induction x i xs rule: index_of.induct) (fastforce split: if_splits simp: nth_Cons')+

lemma find_slot_item_bound:
  assumes "find_slot_item w items dirty x = Some i"
  shows "i < length items" "si_item (items ! i) = x"
proof -
  from assms obtain i0 where i0: "index_of x i0 (drop i0 items) = Some i"
    by (auto simp: find_slot_item_def Let_def split: option.splits if_splits)
  from index_of_bound [OF this] show "i < length items" "si_item (items ! i) = x" by auto
qed

section \<open>Feeding a slot\<close>

lemma owned_cong:
  "w_items w' = w_items w \<Longrightarrow> w_refcount w' = w_refcount w \<Longrightarrow> owned R w' = owned R w"
  by (simp add: owned_def)

lemma owned_store:
  assumes "owned R w" "w_items w x = Some cur" "it_id it = x" "it_location it \<noteq> 0"
  shows "owned R (w\<lparr>w_items := (w_items w)(x \<mapsto> it)\<rparr>)"
  using assms by (auto simp: owned_def)

lemma update_slot_item_owned:
  assumes "update_slot_item updated si w = (moved, si', w')" "it_location updated \<noteq> 0"
  shows "si_item si' = si_item si" "w_slots w' = w_slots w" "owned R w \<Longrightarrow> owned R w'"
    "si_generation si' = w_generation w" "w_generation w' = w_generation w"
proof -
  from assms show "si_item si' = si_item si" "w_slots w' = w_slots w"
    "si_generation si' = w_generation w" "w_generation w' = w_generation w"
    by (auto simp: update_slot_item_def Let_def split: option.splits if_splits)
  assume o: "owned R w"
  show "owned R w'"
  proof (cases "w_items w (si_item si)")
    case None
    with assms(1) o show ?thesis by (simp add: update_slot_item_def Let_def)
  next
    case (Some cur)
    with o have "it_id cur = si_item si" by (simp add: owned_def)
    with assms o Some owned_store [OF o Some, of "cur\<lparr>it_location := it_location updated\<rparr>"] show ?thesis
      by (auto simp: update_slot_item_def Let_def split: if_splits)
  qed
qed

lemma move_to_zero_scored_refs:
  assumes "move_to_zero_scored updated i slot w = (slot', w')" "it_location updated \<noteq> 0"
    and "i < length (slot_items slot)"
  shows "slot_refs slot' = slot_refs slot" "w_slots w' = w_slots w" "owned R w \<Longrightarrow> owned R w'"
    "w_generation w' = w_generation w"
proof -
  obtain m si w1 where u: "update_slot_item updated (slot_items slot ! i) w = (m, si, w1)"
    by (metis prod.collapse)
  note u1 = update_slot_item_owned [OF u assms(2)]
  with assms(1) u show "w_slots w' = w_slots w" "owned R w \<Longrightarrow> owned R w'" "w_generation w' = w_generation w"
    by (auto simp: move_to_zero_scored_def)
  from assms(1) u u1(1) item_refs_remove [OF assms(3)] show "slot_refs slot' = slot_refs slot"
    by (auto simp: move_to_zero_scored_def slot_refs_def)
qed

lemma move_from_zero_scored_refs:
  assumes "move_from_zero_scored updated i slot w = (slot', w')" "it_location updated \<noteq> 0"
    and "i < length (zero_scored_items slot)"
  shows "slot_refs slot' = slot_refs slot" "w_slots w' = w_slots w" "owned R w \<Longrightarrow> owned R w'"
    "w_generation w' = w_generation w"
proof -
  obtain m si w1 where u: "update_slot_item updated (zero_scored_items slot ! i) w = (m, si, w1)"
    by (metis prod.collapse)
  note u1 = update_slot_item_owned [OF u assms(2)]
  with assms(1) u show "w_slots w' = w_slots w" "owned R w \<Longrightarrow> owned R w'" "w_generation w' = w_generation w"
    by (auto simp: move_from_zero_scored_def)
  from assms(1) u u1(1) item_refs_remove [OF assms(3)] show "slot_refs slot' = slot_refs slot"
    by (auto simp: move_from_zero_scored_def slot_refs_def)
qed

lemma update_known:
  assumes "update_weights item item0 slot = (it1, slot1)" "update_addresses item it1 w = (it2, w0)"
    and "w_items w x = Some item0" "it_id item0 = x"
  shows "slot_items slot1 = slot_items slot" "zero_scored_items slot1 = zero_scored_items slot"
    "slot_refs slot1 = slot_refs slot" "it_id it2 = x" "w_slots w0 = w_slots w" "w_generation w0 = w_generation w"
    "slot_generation slot1 = slot_generation slot"
    "owned R w \<Longrightarrow> owned R (store_item it2 w0)"
proof -
  from assms show "slot_items slot1 = slot_items slot" "zero_scored_items slot1 = zero_scored_items slot"
    "slot_refs slot1 = slot_refs slot" "slot_generation slot1 = slot_generation slot"
    by (auto simp: update_weights_def slot_refs_def split: if_splits)
  have it1: "it_id it1 = x \<and> it_location it1 = it_location item0"
    using assms(1,4) by (auto simp: update_weights_def split: if_splits)
  have it2: "it_id it2 = x \<and> it_location it2 = it_location item0"
    using it1 assms(2) by (auto simp: update_addresses_def Let_def split: if_splits)
  then show "it_id it2 = x" by simp
  have w0: "w_slots w0 = w_slots w \<and> w_items w0 = w_items w \<and> w_refcount w0 = w_refcount w \<and> w_generation w0 = w_generation w"
    using assms(2) by (auto simp: update_addresses_def Let_def cache_item_addr_def oio_service_id_cache_add_addr_def split: if_splits option.splits)
  then show "w_slots w0 = w_slots w" "w_generation w0 = w_generation w" by auto
  assume "owned R w"
  with w0 have "owned R w0" "it_location item0 \<noteq> 0" using assms(3) owned_cong [of w0 w] by (auto simp: owned_def)
  with owned_store [of R w0 x item0 it2] assms(3) it2 w0 show "owned R (store_item it2 w0)"
    by (simp add: store_item_def)
qed

lemma feed_known_refs:
  assumes "feed_known item item0 slot w = (found, slot', w')" "it_location item \<noteq> 0"
    and "w_items w x = Some item0" "it_id item0 = x"
  shows "slot_refs slot' = slot_refs slot \<and> w_slots w' = w_slots w \<and> (owned R w \<longrightarrow> owned R w') \<and>
     (\<not> found \<longrightarrow> w_items w' x \<noteq> None)"
proof -
  obtain it1 slot1 where 1: "update_weights item item0 slot = (it1, slot1)" by (metis prod.collapse)
  obtain it2 w0 where 2: "update_addresses item it1 w = (it2, w0)" by (metis prod.collapse)
  note k = update_known [OF 1 2 assms(3,4)]
  let ?w1 = "store_item it2 w0"
  have w1: "w_slots ?w1 = w_slots w" "w_items ?w1 x \<noteq> None" using k(4,5) by (simp_all add: store_item_def)
  note fk = assms(1) [unfolded feed_known_def 1 2 prod.case Let_def]
  have "slot_refs slot' = slot_refs slot1 \<and> w_slots w' = w_slots ?w1 \<and> (owned R ?w1 \<longrightarrow> owned R w') \<and>
      (\<not> found \<longrightarrow> w_items w' x \<noteq> None)"
  proof (cases "find_slot_item ?w1 (slot_items slot1) (flag_dirty_order slot1) (it_id item0)")
    case (Some i)
    note i = find_slot_item_bound(1) [OF Some]
    show ?thesis
    proof (cases "it_put_weight it2 > 0")
      case True
      obtain m si w2 where u: "update_slot_item item (slot_items slot1 ! i) ?w1 = (m, si, w2)" by (metis prod.collapse)
      from fk Some True u i update_slot_item_owned [OF u assms(2)] show ?thesis
        by (auto simp: slot_refs_def split: if_splits)
    next
      case False
      obtain slot2 w2 where u: "move_to_zero_scored item i slot1 ?w1 = (slot2, w2)" by (metis prod.collapse)
      from fk Some False u move_to_zero_scored_refs [OF u assms(2) i] show ?thesis by auto
    qed
  next
    case None
    show ?thesis
    proof (cases "find_slot_item ?w1 (zero_scored_items slot1) (flag_zero_scored_dirty_order slot1) (it_id item0)")
      case None2: None
      from fk None None2 w1 show ?thesis by auto
    next
      case (Some i)
      note i = find_slot_item_bound(1) [OF Some]
      show ?thesis
      proof (cases "it_put_weight it2 > 0")
        case True
        obtain slot2 w2 where u: "move_from_zero_scored item i slot1 ?w1 = (slot2, w2)" by (metis prod.collapse)
        from fk None Some True u move_from_zero_scored_refs [OF u assms(2) i] show ?thesis by auto
      next
        case False
        obtain m si w2 where u: "update_slot_item item (zero_scored_items slot1 ! i) ?w1 = (m, si, w2)" by (metis prod.collapse)
        from fk None Some False u i update_slot_item_owned [OF u assms(2)] show ?thesis
          by (auto simp: slot_refs_def split: if_splits)
      qed
    qed
  qed
  with k w1 show ?thesis by auto
qed

lemma add_new_slot_item_refs:
  assumes "add_new_slot_item x slot w = (slot', w')"
  shows "slot_refs slot' = add_mset x (slot_refs slot)" "w_slots w' = w_slots w"
    "owned R w \<Longrightarrow> w_items w x \<noteq> None \<Longrightarrow> owned (add_mset x R) w'"
  using assms by (auto simp: add_new_slot_item_def slot_refs_def owned_def Let_def split: if_splits)

lemma owned_new:
  assumes "owned R w" "w_items w (it_id it) = None" "it_location it \<noteq> 0"
  shows "owned R (cache_item_addr it (store_item it (w\<lparr>w_refcount := (w_refcount w)(it_id it := 0)\<rparr>)))"
proof -
  have "it_id it \<notin># R" using assms(1,2) by (auto simp: owned_def)
  then have "count R (it_id it) = 0" by (simp add: not_in_iff)
  with assms show ?thesis
    by (auto simp: owned_def cache_item_addr_def oio_service_id_cache_add_addr_def store_item_def split: option.splits if_splits)
qed

lemma cache_item_addr_fields [simp]:
  "w_slots (cache_item_addr it w) = w_slots w" "w_items (cache_item_addr it w) = w_items w"
  by (auto simp: cache_item_addr_def oio_service_id_cache_add_addr_def split: option.splits if_splits)

lemma feed_refs:
  assumes "feed_slot_unlocked item slot w = (slot', w')" "it_location item \<noteq> 0" "owned (slot_refs slot + R) w"
  shows "owned (slot_refs slot' + R) w' \<and> w_slots w' = w_slots w"
proof -
  let ?x = "it_id item" and ?s0 = "slot\<lparr>slot_generation := w_generation w\<rparr>"
  have s0: "slot_refs ?s0 = slot_refs slot" by (simp add: slot_refs_def)
  define r where "r = (case w_items w ?x of
      None \<Rightarrow> (False, ?s0, cache_item_addr item (store_item item (w\<lparr>w_refcount := (w_refcount w)(?x := 0)\<rparr>)))
    | Some item0 \<Rightarrow> feed_known item item0 ?s0 w)"
  obtain found slot1 w1 where r: "r = (found, slot1, w1)" by (metis prod.collapse)
  have 1: "slot_refs slot1 = slot_refs slot \<and> w_slots w1 = w_slots w \<and> owned (slot_refs slot + R) w1 \<and>
      (\<not> found \<longrightarrow> w_items w1 ?x \<noteq> None)"
  proof (cases "w_items w ?x")
    case None
    with r s0 owned_new [OF assms(3) None assms(2)] show ?thesis by (auto simp: r_def store_item_def)
  next
    case (Some item0)
    with assms(3) have "it_id item0 = ?x" by (simp add: owned_def)
    moreover from r Some have "feed_known item item0 ?s0 w = (found, slot1, w1)" by (simp add: r_def)
    ultimately show ?thesis using feed_known_refs [of item item0 ?s0 w found slot1 w1 ?x] assms(2,3) Some s0 by simp
  qed
  obtain slot2 w2 where 2: "(if found then (slot1, w1) else add_new_slot_item ?x slot1 w1) = (slot2, w2)"
    by (metis prod.collapse)
  then have "owned (slot_refs slot2 + R) w2 \<and> w_slots w2 = w_slots w"
    using 1 add_new_slot_item_refs [of ?x slot1 w1 slot2 w2] by (auto split: if_splits)
  moreover have "slot_refs slot' = slot_refs slot2" "w_items w' = w_items w2" "w_refcount w' = w_refcount w2" "w_slots w' = w_slots w2"
    using assms(1) 2 unfolding feed_slot_unlocked_def Let_def r [unfolded r_def] prod.case
    by (auto split: if_splits)
  ultimately show ?thesis using owned_cong [of w' w2] by simp
qed

lemma feed_list_refs:
  assumes "feed_list items slot w = (slot', w')" "\<forall>item \<in> set items. it_location item \<noteq> 0" "owned (slot_refs slot + R) w"
  shows "owned (slot_refs slot' + R) w' \<and> w_slots w' = w_slots w"
  using assms
proof (induction items slot w rule: feed_list.induct)
  case (2 item items slot w)
  obtain slot1 w1 where f: "feed_slot_unlocked item slot w = (slot1, w1)" by (metis prod.collapse)
  from feed_refs [OF f _ "2.prems"(3)] "2.prems" "2.IH" [OF f [symmetric] refl] f show ?case by simp
qed simp

section \<open>Purging\<close>

text \<open>The references dropped are those counted down.\<close>

definition counted_down ::
  "string multiset \<Rightarrow> (string \<Rightarrow> guint16) \<Rightarrow> string multiset \<Rightarrow> (string \<Rightarrow> guint16) \<Rightarrow> bool" where
  "counted_down R refs R' refs' \<longleftrightarrow>
     R' \<subseteq># R \<and> (\<forall>x. refs' x - of_nat (count R' x) = refs x - of_nat (count R x))"

lemma counted_down_refl [simp]: "counted_down R refs R refs"
  by (simp add: counted_down_def)

lemma counted_down_trans:
  "counted_down R refs R' refs' \<Longrightarrow> counted_down R' refs' R'' refs'' \<Longrightarrow> counted_down R refs R'' refs''"
  by (auto simp: counted_down_def)

lemma counted_down_frame:
  "counted_down R refs R' refs' \<Longrightarrow> counted_down (R + S) refs (R' + S) refs'"
  by (auto simp: counted_down_def algebra_simps)

lemma counted_down_both:
  assumes "counted_down R refs R' refs'" "counted_down S refs' S' refs''"
  shows "counted_down (R + S) refs (R' + S') refs''"
  using counted_down_trans [OF counted_down_frame [OF assms(1), of S]] counted_down_frame [OF assms(2), of R']
  by (simp add: add.commute)

lemma counted_down_one: "counted_down (add_mset x R) refs R (refs(x := refs x - 1))"
  by (auto simp: counted_down_def)

lemma owned_counted_down:
  assumes "owned R w" "counted_down R (w_refcount w) R' refs'"
  shows "owned R' (w\<lparr>w_refcount := refs'\<rparr>)"
proof -
  have "refs' x = of_nat (count R' x)" if "w_items w x = Some it" for x it
  proof -
    from assms that have "w_refcount w x = of_nat (count R x)" by (simp add: owned_def)
    with assms(2) show ?thesis by (metis counted_down_def right_minus_eq)
  qed
  with assms show ?thesis unfolding owned_def counted_down_def by (auto dest: mset_subset_eqD)
qed

lemma remove_index_take: "i < length xs \<Longrightarrow> take i (remove_index_fast i xs) = take i xs"
  by (cases xs rule: rev_cases) (auto simp: remove_index_fast_def list_update_append butlast_append)

lemma remove_index_drop:
  assumes "i < length xs"
  shows "mset (drop i xs) = add_mset (xs ! i) (mset (drop i (remove_index_fast i xs)))"
proof -
  have "mset (take i xs) + mset (drop i xs) = add_mset (xs ! i) (mset (take i xs) + mset (drop i (remove_index_fast i xs)))"
    using mset_remove_index [OF assms] remove_index_take [OF assms]
    by (metis append_take_drop_id mset_append)
  then show ?thesis by simp
qed

definition recent :: "guint32 \<Rightarrow> guint32 \<Rightarrow> slot_item \<Rightarrow> bool" where
  "recent gen age si \<longleftrightarrow> \<not> absolute_delta (si_generation si) gen > age"

lemma purge_slot_items_spec:
  assumes "purge_slot_items i gen age items refs = (items', refs')" "i \<le> length items"
  shows "mset items' = mset (take i items) + filter_mset (recent gen age) (mset (drop i items)) \<and>
     counted_down (item_refs items) refs (item_refs items') refs'"
  using assms
proof (induction i gen age items refs rule: purge_slot_items.induct)
  case (1 i gen age items refs)
  show ?case
  proof (cases "i < length items")
    case True
    note drop = Cons_nth_drop_Suc [OF True, symmetric]
    show ?thesis
    proof (cases "absolute_delta (si_generation (items ! i)) gen > age")
      case old: True
      let ?x = "si_item (items ! i)" and ?items = "remove_index_fast i items"
      have run: "purge_slot_items i gen age ?items (refs(?x := refs ?x - 1)) = (items', refs')"
        using "1.prems"(1) True old by (subst (asm) purge_slot_items.simps) (simp add: Let_def)
      have len: "i \<le> length ?items"
        using True by (auto simp: remove_index_fast_def)
      have ih: "mset items' = mset (take i ?items) + filter_mset (recent gen age) (mset (drop i ?items))"
        "counted_down (item_refs ?items) (refs(?x := refs ?x - 1)) (item_refs items') refs'"
        using "1.IH"(1) [OF True old refl run len] by (rule conjunct1, rule conjunct2)
      have "\<not> recent gen age (items ! i)" using old by (simp add: recent_def)
      with ih(1) remove_index_take [OF True] remove_index_drop [OF True]
      have "mset items' = mset (take i items) + filter_mset (recent gen age) (mset (drop i items))" by simp
      moreover have "counted_down (item_refs items) refs (item_refs items') refs'"
        using counted_down_trans [OF counted_down_one ih(2)] item_refs_remove [OF True] by simp
      ultimately show ?thesis by simp
    next
      case False
      have "purge_slot_items (i + 1) gen age items refs = (items', refs')"
        using "1.prems"(1) True False by (subst (asm) purge_slot_items.simps) simp
      from "1.IH"(2) [OF True False this] True
      have "mset items' = mset (take (Suc i) items) + filter_mset (recent gen age) (mset (drop (Suc i) items)) \<and>
        counted_down (item_refs items) refs (item_refs items') refs'" by simp
      moreover have "recent gen age (items ! i)" using False by (simp add: recent_def)
      ultimately show ?thesis using True drop by (simp add: take_Suc_conv_app_nth)
    qed
  next
    case False
    with "1.prems" show ?thesis by (subst (asm) purge_slot_items.simps) simp
  qed
qed

lemmas purge_items_spec = purge_slot_items_spec [where i = 0, simplified]

lemma purge_items_kept:
  assumes "purge_slot_items 0 gen age items refs = (items', refs')" "length items' = length items"
  shows "mset items' = mset items" "filter_mset (recent gen age) (mset items) = mset items"
proof -
  from purge_items_spec [OF assms(1)] have f: "mset items' = filter_mset (recent gen age) (mset items)" by simp
  moreover have "filter_mset (recent gen age) (mset items) \<subseteq># mset items" by simp
  moreover have "size (mset items') = size (mset items)" using assms(2) by simp
  ultimately have "filter_mset (recent gen age) (mset items) = mset items"
    by (metis mset_subset_size subset_mset.le_imp_less_or_eq less_irrefl)
  with f show "mset items' = mset items" "filter_mset (recent gen age) (mset items) = mset items" by simp_all
qed

text \<open>What a rehash and a purge keep of an item: the service and the generation.\<close>

definition ident :: "slot_item \<Rightarrow> string \<times> guint32" where
  "ident si = (si_item si, si_generation si)"

definition idents :: "slot_item list \<Rightarrow> (string \<times> guint32) multiset" where
  "idents items = mset (map ident items)"

lemma idents_sort [simp]: "idents (sort_key f xs) = idents xs"
  by (simp add: idents_def)

lemma accumulate_idents: "accumulate w s xs = (s', xs') \<Longrightarrow> idents xs' = idents xs"
  by (induction w s xs arbitrary: s' xs' rule: accumulate.induct)
    (auto simp: Let_def idents_def ident_def split: prod.splits)

lemma idents_rehash [simp]:
  "idents (slot_items (slot_rehash w slot)) = idents (slot_items slot)"
  "idents (zero_scored_items (slot_rehash w slot)) = idents (zero_scored_items slot)"
  "slot_generation (slot_rehash w slot) = slot_generation slot"
  "\<not> slot_needs_rehash (slot_rehash w slot)"
  by (simp_all add: slot_rehash_def slot_needs_rehash_def rehash_order_def rehash_weights_def rehash_zero_scored_def
      rehash_jump_def Let_def split: prod.split option.split) (auto dest: accumulate_idents)

definition recent_idents :: "guint32 \<Rightarrow> guint32 \<Rightarrow> slot_item list \<Rightarrow> (string \<times> guint32) multiset" where
  "recent_idents gen age items = idents (filter (recent gen age) items)"

lemma idents_filter: "mset items' = filter_mset P (mset items) \<Longrightarrow> idents items' = idents (filter P items)"
  unfolding idents_def by (metis mset_filter mset_map)

lemma purge_slot_spec:
  assumes "purge_slot age slot w = (slot', w')"
  shows "counted_down (slot_refs slot) (w_refcount w) (slot_refs slot') (w_refcount w')"
    "w' = w\<lparr>w_refcount := w_refcount w'\<rparr>"
    "idents (slot_items slot') = recent_idents (w_generation w) age (slot_items slot)"
    "idents (zero_scored_items slot') = recent_idents (w_generation w) age (zero_scored_items slot)"
    "slot_generation slot' = slot_generation slot" "\<not> slot_needs_rehash slot'"
proof -
  obtain items r1 where 1: "purge_slot_items 0 (w_generation w) age (slot_items slot) (w_refcount w) = (items, r1)"
    by (metis prod.collapse)
  obtain zeros r2 where 2: "purge_slot_items 0 (w_generation w) age (zero_scored_items slot) r1 = (zeros, r2)"
    by (metis prod.collapse)
  define s1 where "s1 = (if length items \<noteq> length (slot_items slot)
    then slot\<lparr>slot_items := items, flag_dirty_weights := True, flag_dirty_order := True\<rparr> else slot)"
  define s2 where "s2 = (if length zeros \<noteq> length (zero_scored_items slot)
    then s1\<lparr>zero_scored_items := zeros, flag_zero_scored_dirty_order := True\<rparr> else s1)"
  have res: "slot' = (if slot_needs_rehash s2 then slot_rehash (w\<lparr>w_refcount := r2\<rparr>) s2 else s2)" "w' = w\<lparr>w_refcount := r2\<rparr>"
    using assms unfolding purge_slot_def 1 2 Let_def prod.case s1_def s2_def by simp_all
  have m1: "mset (slot_items s2) = mset items"
    using purge_items_kept(1) [OF 1] by (auto simp: s1_def s2_def)
  have m2: "mset (zero_scored_items s2) = mset zeros"
    using purge_items_kept(1) [OF 2] by (auto simp: s1_def s2_def)
  from res(2) show "w' = w\<lparr>w_refcount := w_refcount w'\<rparr>" by simp
  have gen: "slot_generation s2 = slot_generation slot" by (simp add: s1_def s2_def)
  with res(1) show "slot_generation slot' = slot_generation slot" "\<not> slot_needs_rehash slot'" by simp_all
  have "idents (slot_items slot') = idents (slot_items s2)" "idents (zero_scored_items slot') = idents (zero_scored_items s2)"
    "slot_refs slot' = slot_refs s2" using res(1) by simp_all
  moreover have "slot_refs s2 = item_refs items + item_refs zeros"
    using m1 m2 by (simp add: slot_refs_def item_refs_def)
  moreover have "counted_down (item_refs (slot_items slot) + item_refs (zero_scored_items slot)) (w_refcount w)
      (item_refs items + item_refs zeros) r2"
    using counted_down_both [OF conjunct2 [OF purge_items_spec [OF 1]] conjunct2 [OF purge_items_spec [OF 2]]] .
  moreover have "idents (slot_items s2) = idents items" "idents (zero_scored_items s2) = idents zeros"
    using m1 m2 by (simp_all add: idents_def)
  moreover have "idents items = recent_idents (w_generation w) age (slot_items slot)"
    "idents zeros = recent_idents (w_generation w) age (zero_scored_items slot)"
    unfolding recent_idents_def using purge_items_spec [OF 1] purge_items_spec [OF 2] idents_filter by blast+
  ultimately show "counted_down (slot_refs slot) (w_refcount w) (slot_refs slot') (w_refcount w')"
    "idents (slot_items slot') = recent_idents (w_generation w) age (slot_items slot)"
    "idents (zero_scored_items slot') = recent_idents (w_generation w) age (zero_scored_items slot)"
    using res(2) by (simp_all add: slot_refs_def)
qed

lemma purge_inside_spec:
  assumes "purge_slots_inside age slots w = (slots', w')"
  shows "counted_down (tree_refs slots) (w_refcount w) (tree_refs slots') (w_refcount w') \<and>
     w' = w\<lparr>w_refcount := w_refcount w'\<rparr> \<and>
     list_all2 (\<lambda>(n, slot) (n', slot'). n' = n \<and> slot_generation slot' = slot_generation slot \<and>
       idents (slot_items slot') = recent_idents (w_generation w) age (slot_items slot) \<and>
       idents (zero_scored_items slot') = recent_idents (w_generation w) age (zero_scored_items slot) \<and>
       \<not> slot_needs_rehash slot') slots slots'"
  using assms
proof (induction age slots w arbitrary: slots' rule: purge_slots_inside.induct)
  case (2 age name slot slots w)
  obtain slot1 w1 where p: "purge_slot age slot w = (slot1, w1)" by (metis prod.collapse)
  obtain rest w2 where r: "purge_slots_inside age slots w1 = (rest, w2)" by (metis prod.collapse)
  from "2.prems" p r have eq: "slots' = (name, slot1) # rest" "w' = w2" by auto
  note ps = purge_slot_spec [OF p]
  note ih = "2.IH" [OF p [symmetric] refl r [folded eq(2)]]
  have "counted_down (slot_refs slot + tree_refs slots) (w_refcount w) (slot_refs slot1 + tree_refs rest) (w_refcount w')"
    using counted_down_both [OF ps(1) conjunct1 [OF ih]] .
  moreover have "w_generation w1 = w_generation w" "w' = w\<lparr>w_refcount := w_refcount w'\<rparr>"
    using ps(2) conjunct1 [OF conjunct2 [OF ih]] by (metis lb_world.select_convs(5) lb_world.surjective lb_world.update_convs(4))+
  ultimately show ?case using ih ps eq by simp
qed auto

lemma items_flush_count: "slot_items_flush items refs x = refs x - of_nat (count (item_refs items) x)"
  unfolding slot_items_flush_def by (induction items arbitrary: refs) (auto simp: algebra_simps)

lemma slot_flush_down: "counted_down (slot_refs slot) refs {#} (snd (slot_flush slot refs))"
  by (auto simp: counted_down_def slot_flush_def slot_refs_def items_flush_count)

lemma purge_loop_spec:
  assumes "purge_slots_loop gen age slots refs = (slots', refs')"
  shows "counted_down (tree_refs slots) refs (tree_refs slots') refs' \<and>
     slots' = filter (\<lambda>(n, slot). \<not> absolute_delta (slot_generation slot) gen > age) slots"
  using assms
proof (induction gen age slots refs arbitrary: slots' rule: purge_slots_loop.induct)
  case (2 gen age name slot slots refs)
  show ?case
  proof (cases "absolute_delta (slot_generation slot) gen > age")
    case True
    with "2.prems" have r: "purge_slots_loop gen age slots (snd (slot_flush slot refs)) = (slots', refs')" by simp
    from "2.IH"(1) [OF True r] counted_down_frame [OF slot_flush_down [of slot refs], of "tree_refs slots"] True
    show ?thesis by (auto intro: counted_down_trans)
  next
    case False
    obtain rest r where r: "purge_slots_loop gen age slots refs = (rest, r)" by (metis prod.collapse)
    with "2.prems" False have eq: "slots' = (name, slot) # rest" "refs' = r" by auto
    from "2.IH"(2) [OF False r [folded eq(2)]] False eq
    have ih: "counted_down (tree_refs slots) refs (tree_refs rest) refs'"
      "rest = filter (\<lambda>(n, slot). \<not> absolute_delta (slot_generation slot) gen > age) slots" by auto
    with counted_down_frame [OF ih(1), of "slot_refs slot"] False eq show ?thesis
      by (simp add: add.commute)
  qed
qed simp

lemma flush_slots_refs: "flush_slots slots refs = (slots', refs') \<Longrightarrow> tree_refs slots' = {#} \<and> map fst slots' = map fst slots"
proof (induction slots refs arbitrary: slots' rule: flush_slots.induct)
  case (2 name slot slots refs)
  then show ?case by (fastforce simp: slot_flush_def slot_refs_def split: prod.splits)
qed simp

section \<open>Histories\<close>

text \<open>
  The operations in any order; the services fed have a location (0 stands for the end of an array
  of locations).
\<close>

inductive world_reach :: "lb_world \<Rightarrow> bool" where
  world_init: "world_reach oio_lb_local__create_world"
| world_create_slot: "world_reach w \<Longrightarrow> world_reach (oio_lb_world__create_slot name w)"
| world_feed: "world_reach w \<Longrightarrow> it_location item \<noteq> 0 \<Longrightarrow> world_reach (oio_lb_world__feed_slot name item w)"
| world_feed_list: "world_reach w \<Longrightarrow> \<forall>item \<in> set items. it_location item \<noteq> 0 \<Longrightarrow>
    world_reach (oio_lb_world__feed_slot_with_list name items w)"
| world_generation: "world_reach w \<Longrightarrow> world_reach (oio_lb_world__increment_generation w)"
| world_purge: "world_reach w \<Longrightarrow> world_reach (oio_lb_world__purge_old_generations w)"
| world_rehash: "world_reach w \<Longrightarrow> world_reach (oio_lb_world__rehash_all_slots w)"
| world_flush: "world_reach w \<Longrightarrow> world_reach (oio_lb_world__flush w)"

lemma get_slot_split:
  assumes "get_slot w name = Some slot"
  obtains xs ys where "w_slots w = xs @ (name, slot) # ys"
  using assms map_of_SomeD split_list unfolding get_slot_def by metis

lemma inv_slot_owned:
  assumes "world_inv w" "get_slot w name = Some slot"
  obtains R where "owned (slot_refs slot + R) w"
proof -
  from assms(2) obtain xs ys where "w_slots w = xs @ (name, slot) # ys" by (rule get_slot_split)
  then have "tree_refs (w_slots w) = slot_refs slot + (tree_refs xs + tree_refs ys)" by (simp add: ac_simps)
  with assms(1) have "owned (slot_refs slot + (tree_refs xs + tree_refs ys)) w" by (simp add: world_inv_def)
  then show thesis by (rule that)
qed

lemma inv_set_slot:
  assumes "world_inv w" "get_slot w name = Some slot" "w_slots w' = w_slots w"
    and "\<And>R. owned (slot_refs slot + R) w \<Longrightarrow> owned (slot_refs slot' + R) w'"
  shows "world_inv (set_slot name slot' w')"
proof -
  from assms(2) obtain xs ys where s: "w_slots w = xs @ (name, slot) # ys" by (rule get_slot_split)
  have n: "names_ok (xs @ (name, slot) # ys)" using assms(1) s by (simp add: world_inv_def)
  have "owned (slot_refs slot + (tree_refs xs + tree_refs ys)) w"
    using assms(1) s by (simp add: world_inv_def ac_simps)
  from assms(4) [OF this] have "owned (tree_refs (xs @ (name, slot') # ys)) w'" by (simp add: ac_simps)
  moreover have "tree_replace name slot' (w_slots w') = xs @ (name, slot') # ys"
    using tree_replace_existing [OF n] assms(3) s by simp
  ultimately show ?thesis using n owned_cong [of "set_slot name slot' w'" w']
    by (simp add: world_inv_def set_slot_def)
qed

lemma inv_create_slot:
  assumes "world_inv w"
  shows "world_inv (oio_lb_world__create_slot name w)"
proof (cases "get_slot w name")
  case None
  then have n: "name \<notin> fst ` set (w_slots w)" by (simp add: get_slot_def map_of_eq_None_iff)
  obtain slot where c: "oio_lb_world__create_slot name w = set_slot name slot w" "slot_refs slot = {#}"
    using None by (auto simp: oio_lb_world__create_slot_def slot_refs_def)
  from tree_replace_new [OF _ n] assms obtain xs ys where t: "w_slots w = xs @ ys"
    "tree_replace name slot (w_slots w) = xs @ (name, slot) # ys" "names_ok (xs @ (name, slot) # ys)"
    unfolding world_inv_def by blast
  have "owned (tree_refs (xs @ (name, slot) # ys)) (set_slot name slot w)"
    using assms t(1) c(2) owned_cong [of "set_slot name slot w" w] by (simp add: world_inv_def set_slot_def)
  with t(2,3) c(1) show ?thesis by (simp add: world_inv_def set_slot_def)
qed (use assms in \<open>simp add: oio_lb_world__create_slot_def\<close>)

lemma inv_feed:
  assumes "world_inv w" "it_location item \<noteq> 0"
  shows "world_inv (oio_lb_world__feed_slot name item w)"
proof (cases "get_slot w name")
  case (Some slot)
  obtain slot1 w1 where f: "feed_slot_unlocked item slot w = (slot1, w1)" by (metis prod.collapse)
  note fr = feed_refs [OF f assms(2)]
  have "w_slots w1 = w_slots w"
    using inv_slot_owned [OF assms(1) Some] fr by blast
  with Some f show ?thesis
    using inv_set_slot [OF assms(1) Some, of w1 slot1] fr by (simp add: oio_lb_world__feed_slot_def)
qed (use assms in \<open>simp add: oio_lb_world__feed_slot_def\<close>)

lemma inv_feed_list:
  assumes "world_inv w" "\<forall>item \<in> set items. it_location item \<noteq> 0"
  shows "world_inv (oio_lb_world__feed_slot_with_list name items w)"
proof (cases "get_slot w name")
  case (Some slot)
  obtain slot1 w1 where f: "feed_list items slot w = (slot1, w1)" by (metis prod.collapse)
  note fr = feed_list_refs [OF f assms(2)]
  have "w_slots w1 = w_slots w"
    using inv_slot_owned [OF assms(1) Some] fr by blast
  with Some f show ?thesis
    using inv_set_slot [OF assms(1) Some, of w1 "slot_rehash w1 slot1"] fr
    by (simp add: oio_lb_world__feed_slot_with_list_def)
qed (use assms in \<open>simp add: oio_lb_world__feed_slot_with_list_def\<close>)

lemma inv_purge_items:
  assumes "world_inv w"
  shows "world_inv (world_purge_slot_items age w)"
proof -
  obtain slots w1 where p: "purge_slots_inside age (w_slots w) w = (slots, w1)" by (metis prod.collapse)
  note ps = purge_inside_spec [OF p]
  from ps have "list_all2 (\<lambda>x y. fst y = fst x) (w_slots w) slots" by (auto elim: list_all2_mono)
  then have "map fst slots = map fst (w_slots w)" by (induction rule: list_all2_induct) auto
  then have "names_ok slots" using assms names_ok_map by (auto simp: world_inv_def)
  moreover have "owned (tree_refs slots) (w1\<lparr>w_slots := slots\<rparr>)"
    using owned_counted_down [OF _ conjunct1 [OF ps]] assms ps owned_cong [of "w1\<lparr>w_slots := slots\<rparr>" w1]
    by (simp add: world_inv_def)
  ultimately show ?thesis using p by (simp add: world_purge_slot_items_def world_inv_def)
qed

lemma names_ok_filter: "names_ok t \<Longrightarrow> names_ok (filter P t)"
  by (induction t) auto

lemma inv_purge_slots:
  assumes "world_inv w"
  shows "world_inv (world_purge_slots age w)"
proof -
  obtain slots refs where p: "purge_slots_loop (w_generation w) age (w_slots w) (w_refcount w) = (slots, refs)"
    by (metis prod.collapse)
  note ps = purge_loop_spec [OF p]
  have "names_ok slots" using ps assms names_ok_filter by (auto simp: world_inv_def)
  moreover have "owned (tree_refs slots) (w\<lparr>w_slots := slots, w_refcount := refs\<rparr>)"
    using owned_counted_down [OF _ conjunct1 [OF ps]] assms
      owned_cong [of "w\<lparr>w_slots := slots, w_refcount := refs\<rparr>" "w\<lparr>w_refcount := refs\<rparr>"]
    by (simp add: world_inv_def)
  ultimately show ?thesis using p by (simp add: world_purge_slots_def world_inv_def)
qed

lemma inv_rehash:
  assumes "world_inv w"
  shows "world_inv (oio_lb_world__rehash_all_slots w)"
proof -
  define f where "f = (\<lambda>(name :: string, slot). (name, if slot_needs_rehash slot then slot_rehash w slot else slot))"
  have refs: "tree_refs (map f t) = tree_refs t" for t by (induction t) (auto simp: f_def)
  have "map fst (map f t) = map fst t" for t by (induction t) (auto simp: f_def)
  then have "names_ok (map f (w_slots w)) = names_ok (w_slots w)" by (rule names_ok_map)
  moreover have "oio_lb_world__rehash_all_slots w = w\<lparr>w_slots := map f (w_slots w)\<rparr>"
    by (simp add: oio_lb_world__rehash_all_slots_def f_def)
  ultimately show ?thesis using assms refs owned_cong [of "w\<lparr>w_slots := map f (w_slots w)\<rparr>" w]
    by (simp add: world_inv_def)
qed

lemma reach_inv: "world_reach w \<Longrightarrow> world_inv w"
proof (induction rule: world_reach.induct)
  case world_init
  then show ?case by (simp add: world_inv_def oio_lb_local__create_world_def owned_def)
next
  case (world_generation w)
  then show ?case by (simp add: world_inv_def oio_lb_world__increment_generation_def owned_def)
next
  case (world_purge w)
  then show ?case by (simp add: oio_lb_world__purge_old_generations_def inv_purge_items inv_purge_slots)
next
  case (world_flush w)
  then show ?case
    using flush_slots_refs [of "w_slots w" "w_refcount w"] names_ok_map [of _ "w_slots w"]
    by (auto simp: world_inv_def oio_lb_world__flush_def owned_def split: prod.splits)
qed (simp_all add: inv_create_slot inv_feed inv_feed_list inv_rehash)

text \<open>
  C14: over any history of the world, a slot never refers to a service the world does not own, and
  the count of references of a service is the number of the items of the slots that refer to it,
  on 16 bits.  So the count is not null when it is decremented, unless 65536 items refer to the
  service.
\<close>

theorem world_references_exact:
  assumes "world_reach w" "get_slot w name = Some slot"
    and "si \<in> set (slot_items slot) \<union> set (zero_scored_items slot)"
  shows "\<exists>it. w_items w (si_item si) = Some it \<and> it_id it = si_item si \<and>
     w_refcount w (si_item si) = of_nat (count (tree_refs (w_slots w)) (si_item si)) \<and>
     (count (tree_refs (w_slots w)) (si_item si) < 65536 \<longrightarrow> w_refcount w (si_item si) > 0)"
proof -
  let ?R = "tree_refs (w_slots w)" and ?x = "si_item si"
  have o: "owned ?R w" using reach_inv [OF assms(1)] by (simp add: world_inv_def)
  from assms(2) obtain xs ys where "w_slots w = xs @ (name, slot) # ys" by (rule get_slot_split)
  moreover have "?x \<in># slot_refs slot" using assms(3) by (auto simp: slot_refs_def item_refs_def)
  ultimately have r: "?x \<in># ?R" by simp
  with o obtain it where it: "w_items w ?x = Some it" by (auto simp: owned_def)
  with o have "it_id it = ?x" "w_refcount w ?x = of_nat (count ?R ?x)" by (simp_all add: owned_def)
  moreover have "(of_nat (count ?R ?x) :: guint16) > 0" if "count ?R ?x < 65536"
  proof -
    have "0 < count ?R ?x" using r by simp
    with that have "unat (of_nat (count ?R ?x) :: guint16) \<noteq> 0"
      by (simp add: unsigned_of_nat take_bit_nat_eq_self)
    then show ?thesis by (simp add: word_gt_0 unat_eq_zero)
  qed
  ultimately show ?thesis using it by simp
qed

definition demo_item :: "string \<Rightarrow> oio_location \<Rightarrow> lb_item" where
  "demo_item x loc = \<lparr>it_location = loc, it_put_weight = 1, it_get_weight = 1, it_addr = ''127.0.0.1:6000'',
     it_internal_addr = [], it_id = x, it_tls = []\<rparr>"

definition demo_world :: lb_world where
  "demo_world = oio_lb_world__feed_slot ''s'' (demo_item ''b'' 0x20001)
     (oio_lb_world__increment_generation
       (oio_lb_world__feed_slot ''s'' (demo_item ''a'' 0x10001)
         (oio_lb_world__create_slot ''s'' oio_lb_local__create_world)))"

lemma demo_reach: "world_reach demo_world"
  unfolding demo_world_def by (intro world_reach.intros) (simp_all add: demo_item_def)

lemma demo_slot:
  obtains slot where "get_slot demo_world ''s'' = Some slot" "w_generation demo_world = 1"
    "slot_items slot = [\<lparr>si_item = ''a'', si_acc_weight = 0, si_generation = 0\<rparr>,
                        \<lparr>si_item = ''b'', si_acc_weight = 0, si_generation = 1\<rparr>]"
    "zero_scored_items slot = []" "slot_generation slot = 1"
  by (rule that [of "the (get_slot demo_world ''s'')"])
    (simp_all add: demo_world_def demo_item_def oio_lb_world__feed_slot_def feed_slot_unlocked_def
      oio_lb_world__create_slot_def oio_lb_local__create_world_def oio_lb_world__increment_generation_def
      get_slot_def set_slot_def store_item_def cache_item_addr_def oio_service_id_cache_add_addr_def
      add_new_slot_item_def put_weight_of_def Let_def slot_needs_rehash_def oio_service_id_parse_def)

theorem world_references_exact_witness:
  "\<exists>it. w_items demo_world ''a'' = Some it \<and> it_id it = ''a'' \<and>
     w_refcount demo_world ''a'' = of_nat (count (tree_refs (w_slots demo_world)) ''a'')"
proof -
  obtain slot where slot: "get_slot demo_world ''s'' = Some slot"
    "slot_items slot = [\<lparr>si_item = ''a'', si_acc_weight = 0, si_generation = 0\<rparr>,
                        \<lparr>si_item = ''b'', si_acc_weight = 0, si_generation = 1\<rparr>]" by (rule demo_slot)
  show ?thesis
    using world_references_exact [OF demo_reach slot(1), of "\<lparr>si_item = ''a'', si_acc_weight = 0, si_generation = 0\<rparr>"]
      slot(2) by auto
qed

lemma absolute_delta_0 [simp]: "absolute_delta a b > 0 \<longleftrightarrow> a \<noteq> b"
  by (auto simp: absolute_delta_def min_def word_neq_0_conv [symmetric])

lemma map_of_list_all2:
  assumes "list_all2 (\<lambda>(n, x) (n', y). n' = n \<and> P x y) xs ys"
  shows "case map_of xs n of None \<Rightarrow> map_of ys n = None | Some x \<Rightarrow> (\<exists>y. map_of ys n = Some y \<and> P x y)"
  using assms by (induction rule: list_all2_induct) (auto split: option.splits)

lemma map_of_filter_names:
  assumes "names_ok t"
  shows "map_of (filter (\<lambda>(n, x). P x) t) n =
     (case map_of t n of None \<Rightarrow> None | Some x \<Rightarrow> if P x then Some x else None)"
  using assms
proof (induction t)
  case (Cons a t)
  have "map_of (filter (\<lambda>(n, x). P x) t) (fst a) = None"
    using Cons.prems by (auto simp: map_of_eq_None_iff dest: g_strcmp_less_asym)
  with Cons show ?case by (cases a) auto
qed simp

text \<open>
  C21: a purge removes the slots the current generation did not feed, and from the others exactly
  the items it did not feed; the slots that stay are sorted and weighted again.
\<close>

theorem purge_keeps_current_generation:
  assumes "world_reach w"
  shows "case get_slot w name of
     None \<Rightarrow> get_slot (oio_lb_world__purge_old_generations w) name = None
   | Some slot \<Rightarrow>
       if slot_generation slot \<noteq> w_generation w
       then get_slot (oio_lb_world__purge_old_generations w) name = None
       else (\<exists>slot'. get_slot (oio_lb_world__purge_old_generations w) name = Some slot' \<and>
         idents (slot_items slot') = idents (filter (\<lambda>si. si_generation si = w_generation w) (slot_items slot)) \<and>
         idents (zero_scored_items slot') =
           idents (filter (\<lambda>si. si_generation si = w_generation w) (zero_scored_items slot)) \<and>
         \<not> slot_needs_rehash slot')"
proof -
  obtain slots w1 where p: "purge_slots_inside 0 (w_slots w) w = (slots, w1)" by (metis prod.collapse)
  let ?w1 = "w1\<lparr>w_slots := slots\<rparr>"
  have w1: "world_purge_slot_items 0 w = ?w1" using p by (simp add: world_purge_slot_items_def)
  note ps = purge_inside_spec [OF p]
  have gen: "w_generation w1 = w_generation w" using ps by (metis lb_world.select_convs(5) lb_world.surjective lb_world.update_convs(4))
  obtain slots2 refs where q: "purge_slots_loop (w_generation w) 0 slots (w_refcount w1) = (slots2, refs)"
    by (metis prod.collapse)
  have "world_inv ?w1" using inv_purge_items [OF reach_inv [OF assms], of 0] w1 by simp
  then have "names_ok slots" by (simp add: world_inv_def)
  note get = map_of_filter_names [OF this, of "\<lambda>slot. \<not> absolute_delta (slot_generation slot) (w_generation w) > 0"]
  have "get_slot (oio_lb_world__purge_old_generations w) name = map_of slots2 name"
    using w1 q gen by (simp add: oio_lb_world__purge_old_generations_def world_purge_slots_def get_slot_def)
  also have "\<dots> = (case map_of slots name of None \<Rightarrow> None
      | Some s \<Rightarrow> if slot_generation s = w_generation w then Some s else None)"
    using purge_loop_spec [OF q] get [of name] by (simp split: option.split)
  finally have res: "get_slot (oio_lb_world__purge_old_generations w) name = \<dots>" .
  have rec: "recent (w_generation w) 0 = (\<lambda>si. si_generation si = w_generation w)"
    by (auto simp: recent_def)
  from map_of_list_all2 [OF conjunct2 [OF conjunct2 [OF ps]], of name] res show ?thesis
    by (auto simp: get_slot_def recent_idents_def rec split: option.splits)
qed

theorem purge_keeps_current_generation_witness:
  "\<exists>slot'. get_slot (oio_lb_world__purge_old_generations demo_world) ''s'' = Some slot' \<and>
     idents (slot_items slot') = {#(''b'', 1)#} \<and> idents (zero_scored_items slot') = {#} \<and>
     \<not> slot_needs_rehash slot'"
proof -
  obtain slot where "get_slot demo_world ''s'' = Some slot" "w_generation demo_world = 1"
    "slot_items slot = [\<lparr>si_item = ''a'', si_acc_weight = 0, si_generation = 0\<rparr>,
                        \<lparr>si_item = ''b'', si_acc_weight = 0, si_generation = 1\<rparr>]"
    "zero_scored_items slot = []" "slot_generation slot = 1" by (rule demo_slot)
  with purge_keeps_current_generation [OF demo_reach, of "''s''"] show ?thesis
    by (simp add: idents_def ident_def)
qed

end
