(* ===== verification/Lb_Pool.thy ===== *)
theory Lb_Pool
  imports Lb_Search Election_Path
begin

text \<open>
  The pools of the load balancer (\<^verbatim>\<open>core/lb.c\<close>): their creation, the parsing of their targets and
  options, the dump of these, the table of the pools, and the polling around a pinned location.

  A target is the list of the names between its commas; the loops over it stop at the first empty
  name.  In \<^verbatim>\<open>g_strsplit\<close> a bound larger than the string stands for the absence of a bound.
\<close>

section \<open>Parsing\<close>

definition OIO_CSV_SEP_C :: char where "OIO_CSV_SEP_C = CHR '',''"
definition OIO_CSV_SEP2_C :: char where "OIO_CSV_SEP2_C = CHR '';''"

definition OIO_LB_OPT_MAX_DIST :: string where "OIO_LB_OPT_MAX_DIST = ''max_dist''"
definition OIO_LB_OPT_MIN_DIST :: string where "OIO_LB_OPT_MIN_DIST = ''min_dist''"
definition OIO_LB_OPT_WARN_DIST :: string where "OIO_LB_OPT_WARN_DIST = ''warn_dist''"
definition OIO_LB_OPT_HARD_MAX :: string where "OIO_LB_OPT_HARD_MAX = ''strict_location_constraint''"
definition OIO_LB_OPT_SOFT_MAX :: string where "OIO_LB_OPT_SOFT_MAX = ''fair_location_constraint''"

text \<open>\<^verbatim>\<open>g_ascii_strtoull(s, &end, 10)\<close>: the value, and the characters from \<^verbatim>\<open>end\<close> on.\<close>

definition strtoull :: "string \<Rightarrow> nat \<times> string" where
  "strtoull s =
     (let s1 = dropWhile is_space s;
          neg = (s1 \<noteq> [] \<and> hd s1 = CHR ''-'');
          s2 = (if s1 \<noteq> [] \<and> (hd s1 = CHR ''-'' \<or> hd s1 = CHR ''+'') then tl s1 else s1);
          ds = takeWhile is_digit s2; v = parse_nat ds
      in if ds = [] then (0, s)
         else (if v \<ge> 2 ^ 64 then 2 ^ 64 - 1 else if neg then (2 ^ 64 - v) mod 2 ^ 64 else v,
               dropWhile is_digit s2))"

text \<open>\<^verbatim>\<open>atoi\<close>, as the conversion of \<^verbatim>\<open>strtol\<close> to an int.\<close>

definition atoi :: "string \<Rightarrow> int" where
  "atoi s = to_gint32 (fst (strtoll s))"

section \<open>Pools\<close>

definition oio_lb_world__create_pool :: "string \<Rightarrow> lb_pool" where
  "oio_lb_world__create_pool name =
     \<lparr>p_name = name, p_targets = [], initial_dist = OIO_LB_LOC_LEVELS, warn_dist = 0, min_dist = 1,
      strict_max_items = [0, 0, 0, 0], fair_max_items = [0, 0, 0, 0]\<rparr>"

definition oio_lb_world__add_pool_target :: "string \<Rightarrow> lb_pool \<Rightarrow> lb_pool" where
  "oio_lb_world__add_pool_target to lb =
     lb\<lparr>p_targets := p_targets lb @ [strsplit_loop OIO_CSV_SEP_C (length to + 1) to]\<rparr>"

fun max_items_loop :: "string list \<Rightarrow> nat \<Rightarrow> guint8 list \<Rightarrow> guint8 list" where
  "max_items_loop [] i tab = tab"
| "max_items_loop (tok # toks) i tab =
     (if i = 0 then tab
      else max_items_loop toks (i - 1) (tab[i - 1 := word_of_int (min (atoi tok) 255)]))"

definition max_items_to_tab :: "string \<Rightarrow> guint8 list \<Rightarrow> guint8 list" where
  "max_items_to_tab v tab =
     max_items_loop (g_strsplit v (CHR ''.'') (OIO_LB_LOC_LEVELS + 1)) OIO_LB_LOC_LEVELS tab"

definition oio_lb_world__set_pool_option :: "string \<Rightarrow> string \<Rightarrow> lb_pool \<Rightarrow> lb_pool" where
  "oio_lb_world__set_pool_option key v lb =
     (if key = [] then lb
      else if key = OIO_LB_OPT_MIN_DIST then
        (let (n, rest) = strtoull v in
         if rest = v then lb
         else if n < 1 \<or> n > OIO_LB_LOC_LEVELS then lb
         else lb\<lparr>min_dist := n\<rparr>)
      else if key = OIO_LB_OPT_MAX_DIST then
        (let (n, rest) = strtoull v in
         if rest = v then lb
         else if n < 1 \<or> n > OIO_LB_LOC_LEVELS then lb
         else lb\<lparr>initial_dist := n\<rparr>)
      else if key = OIO_LB_OPT_WARN_DIST then
        (let (n, rest) = strtoull v in
         if rest = v then lb
         else if n > OIO_LB_LOC_LEVELS + 1 then lb
         else lb\<lparr>warn_dist := n\<rparr>)
      else if key = OIO_LB_OPT_HARD_MAX then lb\<lparr>strict_max_items := max_items_to_tab v (strict_max_items lb)\<rparr>
      else if key = OIO_LB_OPT_SOFT_MAX then lb\<lparr>fair_max_items := max_items_to_tab v (fair_max_items lb)\<rparr>
      else lb)"

text \<open>
  One token of \<^verbatim>\<open>oio_lb_world__add_pool_targets\<close>.  The pointers \<^verbatim>\<open>end\<close> and \<^verbatim>\<open>target\<close> are compared
  through what is left of the string.
\<close>

definition add_pool_token :: "string \<Rightarrow> lb_pool \<Rightarrow> lb_pool" where
  "add_pool_token tok lb =
     (if CHR ''='' \<in> set tok
      then oio_lb_world__set_pool_option (takeWhile (\<lambda>c. c \<noteq> CHR ''='') tok)
             (tl (dropWhile (\<lambda>c. c \<noteq> CHR ''='') tok)) lb
      else if tok = [] then lb
      else let target = (if OIO_CSV_SEP_C \<in> set tok then Some (dropWhile (\<lambda>c. c \<noteq> OIO_CSV_SEP_C) tok) else None);
               (v, rest, _) = strtoll tok;
               (n, name) = (if target \<noteq> Some rest then (1, tok) else (nat v, tl rest))
           in ((oio_lb_world__add_pool_target name) ^^ n) lb)"

definition oio_lb_world__add_pool_targets :: "string \<Rightarrow> lb_pool \<Rightarrow> lb_pool" where
  "oio_lb_world__add_pool_targets targets lb =
     foldl (\<lambda>lb tok. add_pool_token tok lb) lb (g_strsplit targets OIO_CSV_SEP2_C (length targets + 1))"

fun join_names :: "char \<Rightarrow> string list \<Rightarrow> string" where
  "join_names sep [] = []"
| "join_names sep [x] = x"
| "join_names sep (x # xs) = x @ sep # join_names sep xs"

definition oio_lb_world__dump_pool_options :: "lb_pool \<Rightarrow> string" where
  "oio_lb_world__dump_pool_options lb =
     join_names OIO_CSV_SEP2_C
       (map (\<lambda>t. ''1'' @ OIO_CSV_SEP_C # join_names OIO_CSV_SEP_C (takeWhile (\<lambda>name. name \<noteq> []) t)) (p_targets lb)) @
     OIO_CSV_SEP2_C # OIO_LB_OPT_WARN_DIST @ ''='' @ dec_digits (warn_dist lb) @
     OIO_CSV_SEP2_C # OIO_LB_OPT_MIN_DIST @ ''='' @ dec_digits (min_dist lb)"

definition oio_lb_world__count_pool_targets :: "lb_pool \<Rightarrow> nat" where
  "oio_lb_world__count_pool_targets lb = length (p_targets lb)"

section \<open>Options are within their bounds\<close>

definition options_ok :: "lb_pool \<Rightarrow> bool" where
  "options_ok lb \<longleftrightarrow> 1 \<le> min_dist lb \<and> min_dist lb \<le> 4 \<and> 1 \<le> initial_dist lb \<and> initial_dist lb \<le> 4 \<and>
     warn_dist lb \<le> 5 \<and> length (strict_max_items lb) = 4 \<and> length (fair_max_items lb) = 4"

lemma length_max_items_loop [simp]: "length (max_items_loop toks i tab) = length tab"
  by (induction toks i tab rule: max_items_loop.induct) auto

lemma options_ok_create: "options_ok (oio_lb_world__create_pool name)"
  by (simp add: options_ok_def oio_lb_world__create_pool_def)

lemma options_ok_if: "(b \<Longrightarrow> options_ok x) \<Longrightarrow> (\<not> b \<Longrightarrow> options_ok y) \<Longrightarrow> options_ok (if b then x else y)"
  by simp

lemma options_ok_option:
  assumes "options_ok lb"
  shows "options_ok (oio_lb_world__set_pool_option key v lb)"
proof -
  obtain n rest where "strtoull v = (n, rest)" by (metis prod.collapse)
  then show ?thesis using assms unfolding oio_lb_world__set_pool_option_def
    by (simp only: prod.case Let_def, intro options_ok_if) (simp_all add: options_ok_def max_items_to_tab_def)
qed

lemma options_ok_target: "options_ok lb \<Longrightarrow> options_ok (oio_lb_world__add_pool_target to lb)"
  by (simp add: options_ok_def oio_lb_world__add_pool_target_def)

lemma options_ok_funpow: "options_ok lb \<Longrightarrow> options_ok ((oio_lb_world__add_pool_target to ^^ n) lb)"
  by (induction n) (simp_all add: options_ok_target)

lemma options_ok_token: "options_ok lb \<Longrightarrow> options_ok (add_pool_token tok lb)"
  by (auto simp: add_pool_token_def Let_def options_ok_option options_ok_funpow options_ok_target split: prod.split)

text \<open>The pools a configuration gives: any calls of the functions above on a new pool.\<close>

inductive pool_configured :: "lb_pool \<Rightarrow> bool" where
  pool_created: "pool_configured (oio_lb_world__create_pool name)"
| pool_target: "pool_configured lb \<Longrightarrow> pool_configured (oio_lb_world__add_pool_target to lb)"
| pool_targets: "pool_configured lb \<Longrightarrow> pool_configured (oio_lb_world__add_pool_targets targets lb)"
| pool_option: "pool_configured lb \<Longrightarrow> pool_configured (oio_lb_world__set_pool_option key v lb)"

lemma options_ok_targets: "options_ok lb \<Longrightarrow> options_ok (oio_lb_world__add_pool_targets targets lb)"
proof -
  have "options_ok (foldl (\<lambda>lb tok. add_pool_token tok lb) lb toks)" if "options_ok lb" for toks lb
    using that by (induction toks arbitrary: lb) (simp_all add: options_ok_token)
  then show "options_ok lb \<Longrightarrow> options_ok (oio_lb_world__add_pool_targets targets lb)"
    by (simp add: oio_lb_world__add_pool_targets_def)
qed

lemma configured_options_ok: "pool_configured lb \<Longrightarrow> options_ok lb"
  by (induction rule: pool_configured.induct)
    (simp_all add: options_ok_create options_ok_target options_ok_targets options_ok_option)

section \<open>The dump of a pool can be parsed\<close>

lemma join_append:
  "xs \<noteq> [] \<Longrightarrow> ys \<noteq> [] \<Longrightarrow> join_names sep (xs @ ys) = join_names sep xs @ sep # join_names sep ys"
proof (induction sep xs rule: join_names.induct)
  case (2 sep x)
  then show ?case by (cases ys) auto
qed auto

lemma length_join: "length xs \<le> Suc (length (join_names sep xs))"
  by (induction sep xs rule: join_names.induct) auto

lemma split_join:
  assumes "xs \<noteq> []" "\<forall>x \<in> set xs. sep \<notin> set x" "length xs \<le> n"
  shows "strsplit_loop sep n (join_names sep xs) = xs"
  using assms
proof (induction sep xs arbitrary: n rule: join_names.induct)
  case (2 sep x)
  then show ?case by (simp add: strsplit_loop.simps)
next
  case (3 sep x y xs)
  from "3.IH" [of "n - 1"] "3.prems" show ?case by (simp add: strsplit_next)
qed simp

lemma set_join: "set (join_names sep xs) \<subseteq> insert sep (\<Union> (set ` set xs))"
  by (induction sep xs rule: join_names.induct) auto

lemma strtoull_dec: "n < 2 ^ 64 \<Longrightarrow> strtoull (dec_digits n) = (n, [])"
proof -
  assume n: "n < 2 ^ 64"
  obtain c cs where c: "dec_digits n = c # cs" using dec_digits_nonempty by (cases "dec_digits n") auto
  have d: "is_digit c" "list_all is_digit (dec_digits n)" using dec_digits_all [of n] c by simp_all
  have "dropWhile is_space (dec_digits n) = dec_digits n" using c digit_not_space [OF d(1)] by simp
  moreover have "hd (dec_digits n) \<noteq> CHR ''-''" "hd (dec_digits n) \<noteq> CHR ''+''"
    using c digit_not_sign [OF d(1)] by simp_all
  ultimately show ?thesis using n
    by (simp add: strtoull_def Let_def takeWhile_all_digits [OF d(2)] dropWhile_all_digits [OF d(2)]
        parse_nat_dec_digits)
qed

lemma strtoll_one: "strtoll (''1'' @ CHR '','' # s) = (1, CHR '','' # s, False)"
  by (simp add: strtoll_def is_space_def is_digit_def parse_nat_def digit_val_def Let_def)

text \<open>The names that the syntax of the targets can express.\<close>

definition plain_name :: "string \<Rightarrow> bool" where
  "plain_name name \<longleftrightarrow> name \<noteq> [] \<and> set name \<inter> {CHR '','', CHR '';'', CHR ''=''} = {}"

definition plain_targets :: "target list \<Rightarrow> bool" where
  "plain_targets ts \<longleftrightarrow> (\<forall>t \<in> set ts. t \<noteq> [] \<and> (\<forall>name \<in> set t. plain_name name))"

definition target_token :: "target \<Rightarrow> string" where
  "target_token t = ''1'' @ CHR '','' # join_names (CHR '','') t"

lemma target_token_chars:
  assumes "\<forall>name \<in> set t. plain_name name"
  shows "CHR ''='' \<notin> set (target_token t)" "CHR '';'' \<notin> set (target_token t)"
  using assms set_join [of "CHR '',''" t] by (auto simp: target_token_def plain_name_def)

lemma token_target:
  assumes "t \<noteq> []" "\<forall>name \<in> set t. plain_name name"
  shows "add_pool_token (target_token t) lb = lb\<lparr>p_targets := p_targets lb @ [t]\<rparr>"
proof -
  have "strsplit_loop (CHR '','') (length (join_names (CHR '','') t) + 1) (join_names (CHR '','') t) = t"
    using assms length_join [of t "CHR '',''"] by (intro split_join) (auto simp: plain_name_def)
  then have "oio_lb_world__add_pool_target (join_names (CHR '','') t) lb = lb\<lparr>p_targets := p_targets lb @ [t]\<rparr>"
    by (simp add: oio_lb_world__add_pool_target_def OIO_CSV_SEP_C_def)
  moreover have "dropWhile (\<lambda>c. c \<noteq> CHR '','') (target_token t) = CHR '','' # join_names (CHR '','') t"
    "CHR '','' \<in> set (target_token t)" "target_token t \<noteq> []"
    by (simp_all add: target_token_def)
  ultimately show ?thesis
    using target_token_chars(1) [OF assms(2)] strtoll_one [of "join_names (CHR '','') t"]
    by (simp add: add_pool_token_def OIO_CSV_SEP_C_def Let_def target_token_def)
qed

lemma tokens_targets:
  assumes "plain_targets ts"
  shows "foldl (\<lambda>lb tok. add_pool_token tok lb) lb (map target_token ts) = lb\<lparr>p_targets := p_targets lb @ ts\<rparr>"
  using assms by (induction ts arbitrary: lb) (simp_all add: plain_targets_def token_target)

lemma digits_chars: "is_digit c \<Longrightarrow> c \<noteq> CHR ''='' \<and> c \<noteq> CHR '';'' \<and> c \<noteq> CHR '',''"
  by (auto simp: is_digit_def)

lemma dec_digits_plain: "set (dec_digits n) \<inter> {CHR ''='', CHR '';'', CHR '',''} = {}"
  using dec_digits_all [of n] digits_chars by (auto simp: list_all_iff)

lemma token_option:
  assumes "CHR ''='' \<notin> set key"
  shows "add_pool_token (key @ ''='' @ v) lb = oio_lb_world__set_pool_option key v lb"
  using assms span_sep [of "CHR ''=''" key v] by (simp add: add_pool_token_def)

definition dump_tokens :: "lb_pool \<Rightarrow> string list" where
  "dump_tokens lb =
     (if p_targets lb = [] then [[]] else map target_token (p_targets lb)) @
     [OIO_LB_OPT_WARN_DIST @ ''='' @ dec_digits (warn_dist lb), OIO_LB_OPT_MIN_DIST @ ''='' @ dec_digits (min_dist lb)]"

lemma dump_join:
  assumes "plain_targets (p_targets lb)"
  shows "oio_lb_world__dump_pool_options lb = join_names (CHR '';'') (dump_tokens lb)"
proof -
  have "takeWhile (\<lambda>name. name \<noteq> []) t = t" if "t \<in> set (p_targets lb)" for t
    using assms that by (auto simp: plain_targets_def plain_name_def takeWhile_eq_all_conv)
  then have m: "map (\<lambda>t. ''1'' @ OIO_CSV_SEP_C # join_names OIO_CSV_SEP_C (takeWhile (\<lambda>name. name \<noteq> []) t)) (p_targets lb)
      = map target_token (p_targets lb)"
    by (intro map_cong refl) (simp only: target_token_def OIO_CSV_SEP_C_def)
  show ?thesis unfolding oio_lb_world__dump_pool_options_def m dump_tokens_def
    by (simp add: join_append OIO_CSV_SEP2_C_def)
qed

lemma dump_split:
  assumes "plain_targets (p_targets lb)"
  shows "g_strsplit (oio_lb_world__dump_pool_options lb) OIO_CSV_SEP2_C (length (oio_lb_world__dump_pool_options lb) + 1)
     = dump_tokens lb"
proof -
  have "\<forall>tok \<in> set (dump_tokens lb). CHR '';'' \<notin> set tok"
    using assms dec_digits_plain [of "warn_dist lb"] dec_digits_plain [of "min_dist lb"] target_token_chars(2)
    by (auto simp: dump_tokens_def plain_targets_def OIO_LB_OPT_WARN_DIST_def OIO_LB_OPT_MIN_DIST_def)
  moreover have "dump_tokens lb \<noteq> []" "oio_lb_world__dump_pool_options lb \<noteq> []"
    by (simp_all add: dump_tokens_def oio_lb_world__dump_pool_options_def)
  ultimately show ?thesis
    using split_join [of "dump_tokens lb" "CHR '';''"] length_join [of "dump_tokens lb" "CHR '';''"]
    by (simp add: g_strsplit_def OIO_CSV_SEP2_C_def dump_join [OF assms])
qed

lemma add_empty_token [simp]: "add_pool_token [] lb = lb"
  by (simp add: add_pool_token_def)

text \<open>
  C27: the dump of a configured pool, parsed on a new pool, gives the same targets, the same least
  and warning distances; the greatest distance and the limits by location, which the dump has not,
  come back to their defaults.
\<close>

theorem pool_dump_roundtrip:
  assumes "pool_configured lb" "plain_targets (p_targets lb)"
  shows "oio_lb_world__add_pool_targets (oio_lb_world__dump_pool_options lb) (oio_lb_world__create_pool name) =
     \<lparr>p_name = name, p_targets = p_targets lb, initial_dist = 4, warn_dist = warn_dist lb, min_dist = min_dist lb,
      strict_max_items = [0, 0, 0, 0], fair_max_items = [0, 0, 0, 0]\<rparr>"
proof -
  let ?new = "oio_lb_world__create_pool name" and ?f = "\<lambda>lb tok. add_pool_token tok lb"
  let ?lb1 = "?new\<lparr>p_targets := p_targets lb\<rparr>"
  have ok: "options_ok lb" using assms(1) by (rule configured_options_ok)
  have "foldl ?f ?new (if p_targets lb = [] then [[]] else map target_token (p_targets lb)) = ?lb1"
    using tokens_targets [OF assms(2), of ?new] by (simp add: oio_lb_world__create_pool_def)
  moreover have "add_pool_token (OIO_LB_OPT_WARN_DIST @ ''='' @ dec_digits (warn_dist lb)) ?lb1
      = ?lb1\<lparr>warn_dist := warn_dist lb\<rparr>"
  proof -
    have "strtoull (dec_digits (warn_dist lb)) = (warn_dist lb, [])" "warn_dist lb \<le> 5"
      using ok strtoull_dec [of "warn_dist lb"] by (simp_all add: options_ok_def)
    then show ?thesis
      by (subst token_option) (simp_all add: oio_lb_world__set_pool_option_def OIO_LB_OPT_WARN_DIST_def
          OIO_LB_OPT_MIN_DIST_def OIO_LB_OPT_MAX_DIST_def dec_digits_nonempty [symmetric])
  qed
  moreover have "add_pool_token (OIO_LB_OPT_MIN_DIST @ ''='' @ dec_digits (min_dist lb)) lb2
      = lb2\<lparr>min_dist := min_dist lb\<rparr>" for lb2
  proof -
    have "strtoull (dec_digits (min_dist lb)) = (min_dist lb, [])" "1 \<le> min_dist lb" "min_dist lb \<le> 4"
      using ok strtoull_dec [of "min_dist lb"] by (simp_all add: options_ok_def)
    then show ?thesis
      by (subst token_option) (simp_all add: oio_lb_world__set_pool_option_def OIO_LB_OPT_MIN_DIST_def
          dec_digits_nonempty [symmetric])
  qed
  ultimately have "foldl ?f ?new (dump_tokens lb) = ?lb1\<lparr>warn_dist := warn_dist lb, min_dist := min_dist lb\<rparr>"
    by (simp add: dump_tokens_def)
  then show ?thesis
    unfolding oio_lb_world__add_pool_targets_def dump_split [OF assms(2)] by (simp add: oio_lb_world__create_pool_def)
qed

definition demo_pool :: lb_pool where
  "demo_pool = oio_lb_world__set_pool_option ''min_dist'' ''2''
     (oio_lb_world__set_pool_option ''max_dist'' ''3''
       (oio_lb_world__add_pool_target ''even,rawx'' (oio_lb_world__create_pool ''P'')))"

lemma demo_pool_fields:
  "p_targets demo_pool = [[''even'', ''rawx'']]" "min_dist demo_pool = 2" "warn_dist demo_pool = 0"
  by (simp_all add: demo_pool_def oio_lb_world__set_pool_option_def oio_lb_world__add_pool_target_def
      oio_lb_world__create_pool_def OIO_LB_OPT_MIN_DIST_def OIO_LB_OPT_MAX_DIST_def OIO_CSV_SEP_C_def
      strsplit_loop.simps strtoull_def is_space_def is_digit_def parse_nat_def digit_val_def Let_def)

theorem pool_dump_roundtrip_witness:
  "oio_lb_world__add_pool_targets (oio_lb_world__dump_pool_options demo_pool) (oio_lb_world__create_pool ''Q'') =
     \<lparr>p_name = ''Q'', p_targets = [[''even'', ''rawx'']], initial_dist = 4,
      warn_dist = 0, min_dist = 2, strict_max_items = [0, 0, 0, 0], fair_max_items = [0, 0, 0, 0]\<rparr>"
proof -
  have "pool_configured demo_pool" unfolding demo_pool_def by (intro pool_configured.intros)
  moreover have "plain_targets (p_targets demo_pool)"
    by (simp add: demo_pool_fields plain_targets_def plain_name_def)
  ultimately show ?thesis using pool_dump_roundtrip [of demo_pool "''Q''"] by (simp add: demo_pool_fields)
qed

end
