(* ===== verification/Lb_Table.thy ===== *)
theory Lb_Table
  imports Lb_Place Lb_World Lb_Pool "HOL-Library.Code_Target_Nat"
begin

text \<open>
  The table of the pools and the polling around a pinned location (the end of \<^verbatim>\<open>core/lb.c\<close>), and the
  properties of the load balancer as a whole: the contract of a poll on any world that the feeds
  and the purges give, with any pool that a configuration gives.
\<close>

section \<open>The table of the pools\<close>

text \<open>All the pools are over one world.\<close>

type_synonym oio_lb = "string \<Rightarrow> lb_pool option"

definition oio_lb__create :: oio_lb where
  "oio_lb__create = Map.empty"

definition oio_lb__force_pool :: "lb_pool \<Rightarrow> oio_lb \<Rightarrow> oio_lb" where
  "oio_lb__force_pool pool lb = lb(p_name pool \<mapsto> pool)"

definition oio_lb__has_pool :: "oio_lb \<Rightarrow> string \<Rightarrow> bool" where
  "oio_lb__has_pool lb name \<longleftrightarrow> lb name \<noteq> None"

definition pool_not_found :: "nat \<Rightarrow> patch_result" where
  "pool_not_found draws =
     \<lparr>pr_err = Some CODE_BAD_REQUEST, pr_flawed = False, pr_items = [], pr_draws = draws\<rparr>"

definition oio_lb__poll_pool ::
  "lb_env \<Rightarrow> lb_world \<Rightarrow> oio_lb \<Rightarrow> string \<Rightarrow> oio_location list option \<Rightarrow> nat \<Rightarrow> patch_result" where
  "oio_lb__poll_pool e w lb name avoids draws =
     (case lb name of Some pool \<Rightarrow> local__poll e w pool avoids draws | None \<Rightarrow> pool_not_found draws)"

definition oio_lb__patch_with_pool ::
  "lb_env \<Rightarrow> lb_world \<Rightarrow> oio_lb \<Rightarrow> string \<Rightarrow> oio_location list option \<Rightarrow> oio_location list option
     \<Rightarrow> bool \<Rightarrow> bool \<Rightarrow> nat \<Rightarrow> patch_result" where
  "oio_lb__patch_with_pool e w lb name avoids known force_fair adjacent draws =
     (case lb name of
        Some pool \<Rightarrow> local__patch e w pool avoids known force_fair adjacent draws
      | None \<Rightarrow> pool_not_found draws)"

definition oio_lb__get_item_from_pool :: "lb_world \<Rightarrow> oio_lb \<Rightarrow> string \<Rightarrow> string \<Rightarrow> lb_item option" where
  "oio_lb__get_item_from_pool w lb name srvid =
     (case lb name of Some pool \<Rightarrow> oio_lb_world__get_item w srvid | None \<Rightarrow> None)"

section \<open>Polling around a location\<close>

definition unique_slotnames :: "target list \<Rightarrow> string list" where
  "unique_slotnames targets =
     map fst (foldl (\<lambda>t name. tree_replace name () t) []
       (concat (map (takeWhile (\<lambda>name. name \<noteq> [])) targets)))"

text \<open>
  \<^verbatim>\<open>_unique_services\<close>.  The constant \<^verbatim>\<open>OIO_LOC_DIST_HOST\<close> it gives to \<^verbatim>\<open>oio_location_mask_after\<close> has
  the value of \<^verbatim>\<open>OIO_LOC_PROX_REGION\<close>.  The services are under their addresses, or under their
  identifiers, in one tree.
\<close>

definition keep_service ::
  "lb_world \<Rightarrow> (lb_item \<Rightarrow> string) \<Rightarrow> (string \<times> lb_item) list \<Rightarrow> slot_item \<Rightarrow> (string \<times> lb_item) list" where
  "keep_service w key t si =
     (case w_items w (si_item si) of None \<Rightarrow> t | Some it \<Rightarrow> tree_replace (key it) it t)"

definition slot_services ::
  "lb_world \<Rightarrow> oio_location \<Rightarrow> lb_slot \<Rightarrow> (string \<times> lb_item) list \<Rightarrow> (string \<times> lb_item) list" where
  "slot_services w pin slot t =
     (let pinned = (\<lambda>si. loc_mask OIO_LOC_PROX_REGION (loc_of w si) = pin) in
      if flag_dirty_order slot
      then foldl (keep_service w it_addr) t (filter pinned (slot_items slot))
      else case search_all (map (loc_of w) (slot_items slot)) pin OIO_LOC_PROX_HOST of
        None \<Rightarrow> t
      | Some i \<Rightarrow> foldl (keep_service w it_id) t (takeWhile pinned (drop i (slot_items slot))))"

definition unique_services :: "lb_world \<Rightarrow> string list \<Rightarrow> oio_location \<Rightarrow> lb_item list" where
  "unique_services w slots pin =
     map snd (foldl (\<lambda>t name. case get_slot w name of
         None \<Rightarrow> t
       | Some slot \<Rightarrow> slot_services w (loc_mask OIO_LOC_PROX_REGION pin) slot t) [] slots)"

text \<open>
  \<^verbatim>\<open>_match_item_with_targets\<close>, on the first slot of each target.  A slot that does not exist is a
  null pointer the code dereferences: \<open>None\<close>.
\<close>

fun match_item_with_targets :: "lb_world \<Rightarrow> target list \<Rightarrow> oio_location \<Rightarrow> lb_selected \<Rightarrow> (bool \<times> lb_selected) option" where
  "match_item_with_targets w [] loc sel = Some (False, sel)"
| "match_item_with_targets w (t # ts) loc sel =
     (case get_slot w (hd t) of
        None \<Rightarrow> None
      | Some slot \<Rightarrow>
          if search_all (map (loc_of w) (slot_items slot)) loc OIO_LOC_PROX_VOLUME \<noteq> None
          then Some (True, sel\<lparr>expected_slot := hd t, final_slot := hd t\<rparr>)
          else match_item_with_targets w ts loc sel)"

text \<open>A pinned service; \<open>skew\<close> is the random name of the special slot.\<close>

definition select_pinned :: "lb_world \<Rightarrow> lb_pool \<Rightarrow> string \<Rightarrow> nat \<Rightarrow> lb_item \<Rightarrow> lb_selected option" where
  "select_pinned w lb skew dist it =
     (case match_item_with_targets w (p_targets lb) (it_location it) (item_select (Some it)) of
        None \<Rightarrow> None
      | Some (matched, sel) \<Rightarrow>
          let sel1 = (if matched then sel else sel\<lparr>expected_slot := ''rawx'', final_slot := skew\<rparr>)
          in Some (sel1\<lparr>sel_expected_dist := min (abs_max_dist w) (initial_dist lb), final_dist := dist,
                        sel_warn_dist := warn_dist lb\<rparr>))"

fun select_all :: "lb_world \<Rightarrow> lb_pool \<Rightarrow> string \<Rightarrow> nat \<Rightarrow> lb_item list \<Rightarrow> lb_selected list option" where
  "select_all w lb skew dist [] = Some []"
| "select_all w lb skew dist (it # items) =
     (case select_pinned w lb skew dist it of
        None \<Rightarrow> None
      | Some sel \<Rightarrow> map_option ((#) sel) (select_all w lb skew dist items))"

definition local__poll_around ::
  "lb_env \<Rightarrow> lb_world \<Rightarrow> lb_pool \<Rightarrow> oio_location \<Rightarrow> int \<Rightarrow> string \<Rightarrow> nat \<Rightarrow> patch_result option" where
  "local__poll_around e w lb pin mode skew draws =
     (let n = oio_lb_world__count_pool_targets lb;
          suspects = unique_services w (unique_slotnames (p_targets lb)) pin;
          m = length suspects;
          (i, draws1) = (if m > 1 then (rand_int_range e draws m, draws + 1) else (0, draws));
          pinned = (if m = 0 then []
                    else if mode = 1 then [suspects ! i]
                    else map (\<lambda>nb. suspects ! ((i + nb) mod m)) [0..<min n m]);
          dist = (if mode = 1 then min (abs_max_dist w) (initial_dist lb) else 1)
      in case select_all w lb skew dist pinned of
           None \<Rightarrow> None
         | Some sels \<Rightarrow>
             let r = (if length sels < n
                      then local__patch e w lb None (Some (map it_location pinned)) False False draws1
                      else \<lparr>pr_err = None, pr_flawed = False, pr_items = [], pr_draws = draws1\<rparr>)
             in Some \<lparr>pr_err = pr_err r, pr_flawed = (pr_flawed r \<or> sels \<noteq> []),
                      pr_items = (if pr_err r = None then sels @ pr_items r else []),
                      pr_draws = pr_draws r\<rparr>)"

definition oio_lb__poll_pool_around ::
  "lb_env \<Rightarrow> lb_world \<Rightarrow> oio_lb \<Rightarrow> string \<Rightarrow> oio_location \<Rightarrow> int \<Rightarrow> string \<Rightarrow> nat \<Rightarrow> patch_result option" where
  "oio_lb__poll_pool_around e w lb name pin mode skew draws =
     (if pin = 0 \<or> mode = 0 then Some (oio_lb__poll_pool e w lb name None draws)
      else case lb name of
        Some pool \<Rightarrow> local__poll_around e w pool pin mode skew draws
      | None \<Rightarrow> Some (pool_not_found draws))"

section \<open>The contract of the load balancer\<close>

lemma reach_world_ok:
  assumes "world_reach w"
  shows "world_ok w"
  unfolding world_ok_def
proof (intro allI impI)
  fix name slot si assume "get_slot w name = Some slot" and si: "si \<in> set (slot_items slot)"
  with assms obtain R where o: "owned (slot_refs slot + R) w" using inv_slot_owned reach_inv by blast
  have "si_item si \<in># slot_refs slot + R" using si by (auto simp: slot_refs_def item_refs_def)
  with o obtain it where it: "w_items w (si_item si) = Some it" unfolding owned_def by blast
  with o show "\<exists>it. w_items w (si_item si) = Some it \<and> it_id it = si_item si \<and> it_location it \<noteq> 0"
    unfolding owned_def by blast
qed

lemma configured_pool_ok: "pool_configured lb \<Longrightarrow> pool_ok lb"
  using configured_options_ok [of lb] by (simp add: options_ok_def pool_ok_def)

text \<open>
  C6: on any world that feeds, purges and rehashes give, a configured pool of the table that
  answers keeps its contract.  It gives one service for each target that no known service takes;
  each of them is in a slot of a target and at no avoided location; no service is given twice; any
  two of them are at the least distance of the pool or more, and so are they from the known services
  when these all are taken; and the services of a location, the known ones included, are no more
  than the limit of the pool at the level of the location.  The limits are the fair ones only if
  the caller or the configuration asks for them.
\<close>

theorem patch_keeps_contract:
  assumes "world_reach w" "pool_configured pool" "lb name = Some pool"
    and "pr_err (oio_lb__patch_with_pool e w lb name avoids known force_fair adjacent draws) = None"
  shows "\<exists>fair. (fair = force_fair \<or> fair \<and> try_fair_constraints_first e) \<and>
     placement_ok w pool avoids (known_list known) fair
       (new_items (pr_items (oio_lb__patch_with_pool e w lb name avoids known force_fair adjacent draws)))"
proof -
  have "oio_lb__patch_with_pool e w lb name avoids known force_fair adjacent draws
      = local__patch e w pool avoids known force_fair adjacent draws"
    using assms(3) by (simp add: oio_lb__patch_with_pool_def)
  with patch_placement [OF reach_world_ok [OF assms(1)] configured_pool_ok [OF assms(2)]] assms(4)
  show ?thesis by simp
qed

text \<open>The keys with the product by a word, for the evaluation.\<close>

lemma key_from_loc_level_code [code]:
  "key_from_loc_level loc level =
     (let key = ucast (drop_bit (level * 16) loc + 1)
      in if level < 2 then key + ucast (drop_bit 32 loc * 0x7fffffff) else key)"
proof -
  have "of_nat OIO_LB_SHUFFLE_JUMP = (0x7fffffff :: 64 word)" by (simp only: of_nat_numeral)
  then show ?thesis unfolding key_from_loc_level_def Let_def by (simp only:) simp
qed

definition fed_world :: lb_world where
  "fed_world = oio_lb_world__feed_slot_with_list ''rawx'' [demo_item ''b'' 0x20001, demo_item ''a'' 0x10001]
     (oio_lb_world__create_slot ''rawx'' oio_lb_local__create_world)"

definition spread_pool :: lb_pool where
  "spread_pool = oio_lb_world__add_pool_targets ''2,rawx;min_dist=2;strict_location_constraint=0.0.1.0''
     (oio_lb_world__create_pool ''P'')"

definition demo_table :: oio_lb where
  "demo_table = oio_lb__force_pool spread_pool oio_lb__create"

theorem patch_keeps_contract_witness:
  "\<exists>fair. (fair = False \<or> fair \<and> try_fair_constraints_first still_env) \<and>
     placement_ok fed_world spread_pool (Some []) [] fair
       (new_items (pr_items (oio_lb__patch_with_pool still_env fed_world demo_table ''P'' (Some []) None False False 0)))"
proof -
  have "world_reach fed_world"
    unfolding fed_world_def by (intro world_reach.intros) (simp add: demo_item_def)
  moreover have "pool_configured spread_pool" unfolding spread_pool_def by (intro pool_configured.intros)
  moreover have "p_name spread_pool = ''P''" by code_simp
  then have "demo_table ''P'' = Some spread_pool" by (simp add: demo_table_def oio_lb__force_pool_def)
  moreover have "pr_err (oio_lb__patch_with_pool still_env fed_world demo_table ''P'' (Some []) None False False 0) = None"
    by code_simp
  ultimately show ?thesis
    using patch_keeps_contract [of fed_world spread_pool demo_table "''P''" still_env "Some []" None False False 0]
    by (simp add: known_list_def)
qed

section \<open>Pinned services\<close>





end
